(* ===== verification/Prelude.thy ===== *)
theory Prelude
  imports Main "HOL-Library.Word"
begin

text \<open>
  Shared vocabulary of the development.

  A Go function that can panic or fail to return is modelled by a function into
  \<open>outcome\<close>: \<open>Return\<close> carries the results, \<open>Panic\<close> a run-time panic and
  \<open>Diverges\<close> a loop that never ends (or has not ended within the fuel given).
  The slice operations of the language (indexing, slicing, \<open>make\<close>, \<open>copy\<close>) are
  written out over HOL lists with their bounds checks, because a HOL list read out of
  range does not fail.  The theory also holds the facts on lists, powers of two and
  bit masks that the component theories share.
\<close>

section \<open>Outcomes\<close>

datatype 'a outcome = Return 'a | Panic string | Diverges

fun obind :: "'a outcome \<Rightarrow> ('a \<Rightarrow> 'b outcome) \<Rightarrow> 'b outcome" where
  "obind (Return x) f = f x"
| "obind (Panic e) f = Panic e"
| "obind Diverges f = Diverges"

definition of_loop :: "'a option \<Rightarrow> 'a outcome" where
  "of_loop r = (case r of None \<Rightarrow> Diverges | Some x \<Rightarrow> Return x)"

text \<open>The answers of a sequence of operations, run in order from a state.\<close>

fun run :: "('op \<Rightarrow> 's \<Rightarrow> ('o \<times> 's) outcome) \<Rightarrow> 'op list \<Rightarrow> 's \<Rightarrow> ('o list \<times> 's) outcome" where
  "run step [] s = Return ([], s)"
| "run step (op # ops) s =
     obind (step op s) (\<lambda>(out, s'). obind (run step ops s') (\<lambda>(outs, t). Return (out # outs, t)))"

definition answers :: "('op \<Rightarrow> 's \<Rightarrow> ('o \<times> 's) outcome) \<Rightarrow> 'op list \<Rightarrow> 's \<Rightarrow> 'o list outcome" where
  "answers step ops s = obind (run step ops s) (\<lambda>(outs, _). Return outs)"

fun simulated :: "('c \<Rightarrow> 'a \<Rightarrow> bool) \<Rightarrow> ('o \<times> 'c) outcome \<Rightarrow> ('o \<times> 'a) outcome \<Rightarrow> bool" where
  "simulated R c (Return (out, a)) = (\<exists>c'. c = Return (out, c') \<and> R c' a)"
| "simulated R c (Panic e) = (c = Panic e)"
| "simulated R c Diverges = (c = Diverges)"

text \<open>What a callback that may stop the iteration makes of the elements of a list.\<close>

fun visit :: "('a \<Rightarrow> 's \<Rightarrow> bool \<times> 's) \<Rightarrow> 'a list \<Rightarrow> 's \<Rightarrow> 's" where
  "visit f [] s = s"
| "visit f (x # xs) s = (case f x s of (go_on, s') \<Rightarrow> if go_on then visit f xs s' else s')"

text \<open>The result of a function with an \<open>error\<close>: \<open>Inl\<close> holds the message.\<close>

type_synonym 'a result = "string + 'a"

fun rbind :: "'a result \<Rightarrow> ('a \<Rightarrow> 'b result) \<Rightarrow> 'b result" where
  "rbind (Inl e) f = Inl e"
| "rbind (Inr x) f = f x"

section \<open>Slices of the language\<close>

definition idx_get :: "'a list \<Rightarrow> int \<Rightarrow> 'a outcome" where
  "idx_get b i = (if 0 \<le> i \<and> i < int (length b) then Return (b ! nat i)
                  else Panic ''index out of range'')"

definition idx_set :: "'a list \<Rightarrow> int \<Rightarrow> 'a \<Rightarrow> 'a list outcome" where
  "idx_set b i v = (if 0 \<le> i \<and> i < int (length b) then Return (b[nat i := v])
                    else Panic ''index out of range'')"

definition slice_of :: "'a list \<Rightarrow> int \<Rightarrow> int \<Rightarrow> 'a list outcome" where
  "slice_of b lo hi =
     (if 0 \<le> lo \<and> lo \<le> hi \<and> hi \<le> int (length b)
      then Return (take (nat (hi - lo)) (drop (nat lo) b))
      else Panic ''slice bounds out of range'')"

definition make_slice :: "'a \<Rightarrow> int \<Rightarrow> 'a list outcome" where
  "make_slice z n = (if 0 \<le> n then Return (replicate (nat n) z)
                     else Panic ''makeslice: len out of range'')"

text \<open>\<open>copy(dst, src)\<close>: the destination after the copy and the number of elements copied.\<close>

definition go_copy :: "'a list \<Rightarrow> 'a list \<Rightarrow> 'a list \<times> nat" where
  "go_copy dst src = (let n = min (length dst) (length src) in (take n src @ drop n dst, n))"

text \<open>\<open>b[i], b[j] = b[j], b[i]\<close>.\<close>

definition idx_swap :: "'a list \<Rightarrow> int \<Rightarrow> int \<Rightarrow> 'a list outcome" where
  "idx_swap b i j =
     obind (idx_get b j) (\<lambda>vj. obind (idx_get b i) (\<lambda>vi.
     obind (idx_set b i vj) (\<lambda>b1. idx_set b1 j vi)))"

text \<open>The remainder of Go's integer division, which has the sign of the dividend.\<close>

definition go_rem :: "int \<Rightarrow> int \<Rightarrow> int" where
  "go_rem a b = (if 0 \<le> a then a mod \<bar>b\<bar> else - ((- a) mod \<bar>b\<bar>))"

text \<open>The value of a sum, product or shift of Go's \<open>int\<close>, which wraps around at 64 bits.\<close>

definition int64 :: "int \<Rightarrow> int" where
  "int64 x = (x + 2 ^ 63) mod 2 ^ 64 - 2 ^ 63"

definition is_pow2 :: "int \<Rightarrow> bool" where
  "is_pow2 n \<longleftrightarrow> (\<exists>k::nat. n = 2 ^ k)"

section \<open>Shared facts\<close>

named_theorems outcome_simps \<open>evaluation of slice operations within their bounds\<close>

lemma obind_eq_Return:
  "obind m f = Return y \<longleftrightarrow> (\<exists>x. m = Return x \<and> f x = Return y)"
  by (cases m) auto

lemma of_loop_simps [simp]:
  "of_loop None = Diverges" "of_loop (Some x) = Return x"
  by (simp_all add: of_loop_def)

lemma idx_get_Return [outcome_simps]:
  "0 \<le> i \<Longrightarrow> i < int (length b) \<Longrightarrow> idx_get b i = Return (b ! nat i)"
  by (simp add: idx_get_def)

lemma idx_set_Return [outcome_simps]:
  "0 \<le> i \<Longrightarrow> i < int (length b) \<Longrightarrow> idx_set b i v = Return (b[nat i := v])"
  by (simp add: idx_set_def)

lemma slice_of_Return [outcome_simps]:
  "0 \<le> lo \<Longrightarrow> lo \<le> hi \<Longrightarrow> hi \<le> int (length b) \<Longrightarrow>
   slice_of b lo hi = Return (take (nat (hi - lo)) (drop (nat lo) b))"
  by (simp add: slice_of_def)

lemma make_slice_Return [outcome_simps]: "0 \<le> n \<Longrightarrow> make_slice z n = Return (replicate (nat n) z)"
  by (simp add: make_slice_def)

lemma idx_swap_Return [outcome_simps]:
  assumes "0 \<le> i" "i < int (length b)" "0 \<le> j" "j < int (length b)"
  shows "idx_swap b i j = Return (b[nat i := b ! nat j, nat j := b ! nat i])"
  using assms by (simp add: idx_swap_def outcome_simps)

lemma go_copy_fits: "length src \<le> length dst \<Longrightarrow>
  go_copy dst src = (src @ drop (length src) dst, length src)"
  by (simp add: go_copy_def Let_def)

lemma and_pow2_mask:
  assumes "is_pow2 n"
  shows "and i (n - 1) = i mod n"
proof -
  obtain k where "n = 2 ^ k" using assms by (auto simp: is_pow2_def)
  then show ?thesis
    by (simp add: take_bit_eq_mod [symmetric] take_bit_eq_mask mask_eq_exp_minus_1)
qed

lemma int64_id: "- (2 ^ 63) \<le> x \<Longrightarrow> x < 2 ^ 63 \<Longrightarrow> int64 x = x"
  by (simp add: int64_def)

lemma is_pow2_pos: "is_pow2 n \<Longrightarrow> 0 < n"
  by (auto simp: is_pow2_def)

lemma is_pow2_double: "is_pow2 n \<Longrightarrow> is_pow2 (2 * n)"
  unfolding is_pow2_def by (metis power_Suc)

lemma is_pow2_8: "is_pow2 8"
  unfolding is_pow2_def by (rule exI [of _ 3]) simp

text \<open>A circular buffer read from position \<open>h\<close> is the list \<open>rotate h b\<close>.\<close>

lemma mod_add_inj:
  fixes h i j n :: nat
  assumes "i < n" "j < n" "(h + i) mod n = (h + j) mod n"
  shows "i = j"
proof -
  have "x = y" if "x \<le> y" "y < n" "(h + x) mod n = (h + y) mod n" for x y
    using that mod_eq_dvd_iff_nat [of "h + x" "h + y" n] by (auto dest: dvd_imp_le)
  then show ?thesis using assms by (metis nat_le_linear)
qed

lemma rotate_list_update:
  assumes "i < length b"
  shows "rotate h (b[(h + i) mod length b := v]) = (rotate h b)[i := v]"
proof (rule nth_equalityI)
  show "length (rotate h (b[(h + i) mod length b := v])) = length ((rotate h b)[i := v])" by simp
next
  fix j assume "j < length (rotate h (b[(h + i) mod length b := v]))"
  then have j: "j < length b" by simp
  have lt: "(h + j) mod length b < length b" using j by (cases b) simp_all
  have inj: "(h + i) mod length b = (h + j) mod length b \<longleftrightarrow> i = j"
    using assms j mod_add_inj by blast
  show "rotate h (b[(h + i) mod length b := v]) ! j = (rotate h b)[i := v] ! j"
    using assms j lt inj by (auto simp: nth_rotate nth_list_update add.commute)
qed

section \<open>Words\<close>

lemma unat_Suc_no_wrap:
  fixes i :: "'w::len word"
  assumes "\<not> i + 1 < i"
  shows "unat (i + 1) = Suc (unat i)"
proof -
  have "i + 1 \<noteq> 0"
  proof
    assume "i + 1 = 0"
    then have "i = - 1" by (rule max_word_wrap)
    then show False using assms by (simp add: word_gt_0)
  qed
  then show ?thesis using unatSuc [of i] by (simp add: add.commute)
qed

lemma word_Suc_wraps:
  fixes i :: "'w::len word"
  assumes "i + 1 < i"
  shows "i = - 1"
proof (rule max_word_wrap, rule ccontr)
  assume "i + 1 \<noteq> 0"
  then have "unat (i + 1) = Suc (unat i)" using unatSuc [of i] by (simp add: add.commute)
  then show False using assms by (simp add: word_less_nat_alt)
qed

section \<open>Runs and simulation\<close>

text \<open>
  A component with a state is a step function: an operation and a state give an answer and
  the next state.  The contract of a component is a second step function on an abstract
  state; \<open>simulation\<close> says that the two give the same answers and fail in the same
  way on the operations \<open>allowed\<close>, and lifts that from one operation to any sequence of them.
\<close>

locale simulation =
  fixes R :: "'c \<Rightarrow> 'a \<Rightarrow> bool"
    and cstep :: "'op \<Rightarrow> 'c \<Rightarrow> ('o \<times> 'c) outcome"
    and astep :: "'op \<Rightarrow> 'a \<Rightarrow> ('o \<times> 'a) outcome"
    and allowed :: "'op \<Rightarrow> bool"
  assumes step_sim: "R c a \<Longrightarrow> allowed op \<Longrightarrow> simulated R (cstep op c) (astep op a)"
begin

lemma run_sim: "R c a \<Longrightarrow> list_all allowed ops \<Longrightarrow> simulated R (run cstep ops c) (run astep ops a)"
proof (induction ops arbitrary: c a)
  case (Cons op ops)
  have op: "allowed op" "list_all allowed ops" using Cons.prems(2) by simp_all
  show ?case
  proof (cases "astep op a")
    case (Return r)
    obtain out a' where r: "r = (out, a')" by force
    then obtain c' where c': "cstep op c = Return (out, c')" "R c' a'"
      using step_sim [OF Cons.prems(1) op(1)] Return by auto
    then show ?thesis using Cons.IH [OF c'(2) op(2)] Return r
      by (cases "run astep ops a'") auto
  qed (use step_sim [OF Cons.prems(1) op(1)] in auto)
qed simp

lemma same_answers: "R c a \<Longrightarrow> list_all allowed ops \<Longrightarrow> answers cstep ops c = answers astep ops a"
  using run_sim [of c a ops] by (cases "run astep ops a") (auto simp: answers_def)

end

text \<open>
  A component none of whose operations fails, with an invariant that all of them keep.
\<close>

locale total_invariant =
  fixes I :: "'s \<Rightarrow> bool"
    and step :: "'op \<Rightarrow> 's \<Rightarrow> ('o \<times> 's) outcome"
  assumes step_inv: "I s \<Longrightarrow> \<exists>out s'. step op s = Return (out, s') \<and> I s'"
begin

lemma run_inv: "I s \<Longrightarrow> \<exists>outs s'. run step ops s = Return (outs, s') \<and> I s'"
proof (induction ops arbitrary: s)
  case (Cons op ops)
  obtain out s1 where "step op s = Return (out, s1)" "I s1" using step_inv [OF Cons.prems] by blast
  then show ?case using Cons.IH [of s1] by auto
qed simp

end

end
