(* ===== verification/Deque.thy ===== *)
theory Deque
  imports GoStrings
begin

text \<open>
  The double-ended queue of \<^verbatim>\<open>common/deque/deque.go\<close>: a ring buffer whose capacity is a
  power of two.  The buffer positions \<open>head\<close>, \<open>tail\<close>, \<open>count\<close> and \<open>minCap\<close> are integers, which
  the code masks with \<open>len(buf) - 1\<close>, written \<open>AND\<close> here as there.  Sums and shifts that can leave
  the 64 bits of Go's \<open>int\<close> are taken through \<open>int64\<close>; the others stay within the bounds of the
  buffer, whose length is at most \<open>maxCap\<close>, the largest power of two of the type.  An allocation
  of nonnegative length succeeds: memory is not limited.  The element type's zero value is the
  parameter \<open>z\<close>.  A method with a pointer receiver returns the updated deque.

  The iterators take the \<open>yield\<close> callback as a function that may itself change the deque
  it iterates over (third argument and result: any state the callback keeps), and a bound
  on the number of rounds; running out of rounds is \<open>Diverges\<close>.
\<close>

unbundle bit_operations_syntax

section \<open>State and operations\<close>

definition minCapacity :: int where
  "minCapacity = 8"

record 'a deque =
  buf :: "'a list"
  head :: int
  tail :: int
  count :: int
  minCap :: int

definition new_deque :: "'a deque" where
  "new_deque = \<lparr>buf = [], head = 0, tail = 0, count = 0, minCap = 0\<rparr>"

text \<open>The receiver of \<open>Cap\<close> and \<open>Len\<close> may be nil.\<close>

fun Cap :: "'a deque option \<Rightarrow> int" where
  "Cap None = 0"
| "Cap (Some q) = int (length (buf q))"

fun Len :: "'a deque option \<Rightarrow> int" where
  "Len None = 0"
| "Len (Some q) = count q"

definition prev_pos :: "'a deque \<Rightarrow> int \<Rightarrow> int" where
  "prev_pos q i = (i - 1) AND (int (length (buf q)) - 1)"

definition next_pos :: "'a deque \<Rightarrow> int \<Rightarrow> int" where
  "next_pos q i = (i + 1) AND (int (length (buf q)) - 1)"

definition range_text :: "int \<Rightarrow> int \<Rightarrow> string" where
  "range_text i n = ''deque: index out of range '' @ show_int i @ '' with length '' @ show_int n"

definition checkRange :: "'a deque \<Rightarrow> int \<Rightarrow> unit outcome" where
  "checkRange q i =
     (if i < 0 \<or> i \<ge> count q then Panic (range_text i (Len (Some q))) else Return ())"

text \<open>
  The loop \<open>for c < n { c <<= 1 }\<close>, which occurs in four methods.  Beyond the largest power of two
  the shift wraps to a negative number and then to 0, where the loop stays.
\<close>

partial_function (option) double_until :: "int \<Rightarrow> int \<Rightarrow> int option" where
  "double_until c n = (if c < n then double_until (int64 (c * 2)) n else Some c)"

definition resize :: "'a \<Rightarrow> 'a deque \<Rightarrow> int \<Rightarrow> 'a deque outcome" where
  "resize z q newSize =
     obind (make_slice z newSize) (\<lambda>newBuf.
     obind (if tail q > head q
            then obind (slice_of (buf q) (head q) (tail q)) (\<lambda>s. Return (fst (go_copy newBuf s)))
            else obind (slice_of (buf q) (head q) (int (length (buf q)))) (\<lambda>s.
                 case go_copy newBuf s of (b1, n) \<Rightarrow>
                 obind (slice_of (buf q) 0 (tail q)) (\<lambda>s2.
                 Return (take n b1 @ fst (go_copy (drop n b1) s2)))))
     (\<lambda>newBuf'. Return (q\<lparr>head := 0, tail := count q, buf := newBuf'\<rparr>)))"

definition growIfFull :: "'a \<Rightarrow> 'a deque \<Rightarrow> 'a deque outcome" where
  "growIfFull z q =
     (if count q \<noteq> int (length (buf q)) then Return q
      else if length (buf q) = 0 then
        (let q1 = (if minCap q = 0 then q\<lparr>minCap := minCapacity\<rparr> else q)
         in obind (make_slice z (minCap q1)) (\<lambda>b. Return (q1\<lparr>buf := b\<rparr>)))
      else resize z q (int64 (count q * 2)))"

definition shrinkIfExcess :: "'a \<Rightarrow> 'a deque \<Rightarrow> 'a deque outcome" where
  "shrinkIfExcess z q =
     (if int (length (buf q)) > minCap q \<and> int64 (count q * 4) = int (length (buf q))
      then resize z q (int64 (count q * 2)) else Return q)"

definition shrinkToFit :: "'a \<Rightarrow> 'a deque \<Rightarrow> 'a deque outcome" where
  "shrinkToFit z q =
     (if int (length (buf q)) > minCap q \<and> int64 (count q * 4) \<le> int (length (buf q)) then
        (if count q = 0 then
           obind (make_slice z (minCap q)) (\<lambda>b. Return (q\<lparr>head := 0, tail := 0, buf := b\<rparr>))
         else obind (of_loop (double_until (minCap q) (count q))) (\<lambda>c. resize z q c))
      else Return q)"

definition PushBack :: "'a \<Rightarrow> 'a deque \<Rightarrow> 'a \<Rightarrow> 'a deque outcome" where
  "PushBack z q0 elem =
     obind (growIfFull z q0) (\<lambda>q.
     obind (idx_set (buf q) (tail q) elem) (\<lambda>b.
     Return (q\<lparr>buf := b, tail := next_pos q (tail q), count := count q + 1\<rparr>)))"

definition PushFront :: "'a \<Rightarrow> 'a deque \<Rightarrow> 'a \<Rightarrow> 'a deque outcome" where
  "PushFront z q0 elem =
     obind (growIfFull z q0) (\<lambda>q.
     let q1 = q\<lparr>head := prev_pos q (head q)\<rparr> in
     obind (idx_set (buf q1) (head q1) elem) (\<lambda>b.
     Return (q1\<lparr>buf := b, count := count q1 + 1\<rparr>)))"

definition PopFront :: "'a \<Rightarrow> 'a deque \<Rightarrow> ('a \<times> 'a deque) outcome" where
  "PopFront z q =
     (if count q \<le> 0 then Panic ''deque: PopFront() called on empty queue''
      else obind (idx_get (buf q) (head q)) (\<lambda>ret.
           obind (idx_set (buf q) (head q) z) (\<lambda>b.
           obind (shrinkIfExcess z (q\<lparr>buf := b, head := next_pos q (head q), count := count q - 1\<rparr>))
           (\<lambda>q'. Return (ret, q')))))"

definition PopBack :: "'a \<Rightarrow> 'a deque \<Rightarrow> ('a \<times> 'a deque) outcome" where
  "PopBack z q =
     (if count q \<le> 0 then Panic ''deque: PopBack() called on empty queue''
      else let q1 = q\<lparr>tail := prev_pos q (tail q)\<rparr> in
           obind (idx_get (buf q1) (tail q1)) (\<lambda>ret.
           obind (idx_set (buf q1) (tail q1) z) (\<lambda>b.
           obind (shrinkIfExcess z (q1\<lparr>buf := b, count := count q1 - 1\<rparr>))
           (\<lambda>q'. Return (ret, q')))))"

fun iterPopFront_loop ::
  "'a \<Rightarrow> ('a \<Rightarrow> 'a deque \<Rightarrow> 's \<Rightarrow> bool \<times> 'a deque \<times> 's) \<Rightarrow> nat \<Rightarrow> 'a deque \<Rightarrow> 's
     \<Rightarrow> ('a deque \<times> 's) outcome" where
  "iterPopFront_loop z yield 0 q s = Diverges"
| "iterPopFront_loop z yield (Suc fuel) q s =
     (if count q \<noteq> 0 then
        obind (idx_get (buf q) (head q)) (\<lambda>ret.
        obind (idx_set (buf q) (head q) z) (\<lambda>b.
        case yield ret (q\<lparr>buf := b, head := next_pos q (head q), count := count q - 1\<rparr>) s of
          (go_on, q', s') \<Rightarrow>
            if \<not> go_on then Return (q', s') else iterPopFront_loop z yield fuel q' s'))
      else Return (q, s))"

definition IterPopFront ::
  "'a \<Rightarrow> ('a \<Rightarrow> 'a deque \<Rightarrow> 's \<Rightarrow> bool \<times> 'a deque \<times> 's) \<Rightarrow> nat \<Rightarrow> 'a deque \<Rightarrow> 's
     \<Rightarrow> ('a deque \<times> 's) outcome" where
  "IterPopFront z yield fuel q s =
     (if Len (Some q) = 0 then Return (q, s)
      else obind (iterPopFront_loop z yield fuel q s) (\<lambda>(q1, s1).
           obind (shrinkToFit z q1) (\<lambda>q2. Return (q2, s1))))"

fun iterPopBack_loop ::
  "'a \<Rightarrow> ('a \<Rightarrow> 'a deque \<Rightarrow> 's \<Rightarrow> bool \<times> 'a deque \<times> 's) \<Rightarrow> nat \<Rightarrow> 'a deque \<Rightarrow> 's
     \<Rightarrow> ('a deque \<times> 's) outcome" where
  "iterPopBack_loop z yield 0 q s = Diverges"
| "iterPopBack_loop z yield (Suc fuel) q s =
     (if count q \<noteq> 0 then
        (let q1 = q\<lparr>tail := prev_pos q (tail q)\<rparr> in
         obind (idx_get (buf q1) (tail q1)) (\<lambda>ret.
         obind (idx_set (buf q1) (tail q1) z) (\<lambda>b.
         case yield ret (q1\<lparr>buf := b, count := count q1 - 1\<rparr>) s of
           (go_on, q', s') \<Rightarrow>
             if \<not> go_on then Return (q', s') else iterPopBack_loop z yield fuel q' s')))
      else Return (q, s))"

definition IterPopBack ::
  "'a \<Rightarrow> ('a \<Rightarrow> 'a deque \<Rightarrow> 's \<Rightarrow> bool \<times> 'a deque \<times> 's) \<Rightarrow> nat \<Rightarrow> 'a deque \<Rightarrow> 's
     \<Rightarrow> ('a deque \<times> 's) outcome" where
  "IterPopBack z yield fuel q s =
     (if Len (Some q) = 0 then Return (q, s)
      else obind (iterPopBack_loop z yield fuel q s) (\<lambda>(q1, s1).
           obind (shrinkToFit z q1) (\<lambda>q2. Return (q2, s1))))"

definition Front :: "'a deque \<Rightarrow> 'a outcome" where
  "Front q = (if count q \<le> 0 then Panic ''deque: Front() called when empty''
              else idx_get (buf q) (head q))"

definition Back :: "'a deque \<Rightarrow> 'a outcome" where
  "Back q = (if count q \<le> 0 then Panic ''deque: Back() called when empty''
             else idx_get (buf q) (prev_pos q (tail q)))"

definition At :: "'a deque \<Rightarrow> int \<Rightarrow> 'a outcome" where
  "At q i = obind (checkRange q i) (\<lambda>_.
     idx_get (buf q) ((head q + i) AND (int (length (buf q)) - 1)))"

definition Set :: "'a deque \<Rightarrow> int \<Rightarrow> 'a \<Rightarrow> 'a deque outcome" where
  "Set q i item = obind (checkRange q i) (\<lambda>_.
     obind (idx_set (buf q) ((head q + i) AND (int (length (buf q)) - 1)) item)
     (\<lambda>b. Return (q\<lparr>buf := b\<rparr>)))"

text \<open>
  \<open>iter_loop origHead origTail yield fuel q s i hd\<close>: one entry per round of the loop of
  \<open>Iter\<close>, whose local variables are \<open>i\<close> and \<open>head\<close> (here \<open>hd\<close>).
\<close>

fun iter_loop ::
  "int \<Rightarrow> int \<Rightarrow> ('a \<Rightarrow> 'a deque \<Rightarrow> 's \<Rightarrow> bool \<times> 'a deque \<times> 's) \<Rightarrow> nat
     \<Rightarrow> 'a deque \<Rightarrow> 's \<Rightarrow> int \<Rightarrow> int \<Rightarrow> ('a deque \<times> 's) outcome" where
  "iter_loop oh ot yield 0 q s i h = Diverges"
| "iter_loop oh ot yield (Suc fuel) q s i h =
     (if i < Len (Some q) then
        if head q \<noteq> oh \<or> tail q \<noteq> ot then Panic ''deque: modified during iteration''
        else obind (idx_get (buf q) h) (\<lambda>v.
             case yield v q s of (go_on, q', s') \<Rightarrow>
               if \<not> go_on then Return (q', s')
               else iter_loop oh ot yield fuel q' s' (i + 1) (next_pos q' h))
      else Return (q, s))"

definition Iter ::
  "('a \<Rightarrow> 'a deque \<Rightarrow> 's \<Rightarrow> bool \<times> 'a deque \<times> 's) \<Rightarrow> nat \<Rightarrow> 'a deque \<Rightarrow> 's
     \<Rightarrow> ('a deque \<times> 's) outcome" where
  "Iter yield fuel q s = iter_loop (head q) (tail q) yield fuel q s 0 (head q)"

fun riter_loop ::
  "int \<Rightarrow> int \<Rightarrow> ('a \<Rightarrow> 'a deque \<Rightarrow> 's \<Rightarrow> bool \<times> 'a deque \<times> 's) \<Rightarrow> nat
     \<Rightarrow> 'a deque \<Rightarrow> 's \<Rightarrow> int \<Rightarrow> int \<Rightarrow> ('a deque \<times> 's) outcome" where
  "riter_loop oh ot yield 0 q s i t = Diverges"
| "riter_loop oh ot yield (Suc fuel) q s i t =
     (if i < Len (Some q) then
        if head q \<noteq> oh \<or> tail q \<noteq> ot then Panic ''deque: modified during iteration''
        else let t' = prev_pos q t in
             obind (idx_get (buf q) t') (\<lambda>v.
             case yield v q s of (go_on, q', s') \<Rightarrow>
               if \<not> go_on then Return (q', s')
               else riter_loop oh ot yield fuel q' s' (i + 1) t')
      else Return (q, s))"

definition RIter ::
  "('a \<Rightarrow> 'a deque \<Rightarrow> 's \<Rightarrow> bool \<times> 'a deque \<times> 's) \<Rightarrow> nat \<Rightarrow> 'a deque \<Rightarrow> 's
     \<Rightarrow> ('a deque \<times> 's) outcome" where
  "RIter yield fuel q s = riter_loop (head q) (tail q) yield fuel q s 0 (tail q)"

text \<open>\<open>clearSlice(b[lo:hi])\<close> writes the zero value through the sub-slice.\<close>

definition clearSlice :: "'a \<Rightarrow> 'a list \<Rightarrow> int \<Rightarrow> int \<Rightarrow> 'a list outcome" where
  "clearSlice z b lo hi =
     obind (slice_of b lo hi) (\<lambda>s.
     Return (take (nat lo) b @ replicate (length s) z @ drop (nat hi) b))"

definition Clear :: "'a \<Rightarrow> 'a deque \<Rightarrow> 'a deque outcome" where
  "Clear z q =
     (if Len (Some q) = 0 then Return q
      else let h = head q; t = tail q; q1 = q\<lparr>count := 0, head := 0, tail := 0\<rparr> in
        obind (if h \<ge> t
               then obind (clearSlice z (buf q1) h (int (length (buf q1)))) (\<lambda>b. Return (b, 0))
               else Return (buf q1, h)) (\<lambda>(b, h').
        obind (clearSlice z b h' t) (\<lambda>b'. Return (q1\<lparr>buf := b'\<rparr>))))"

definition Grow :: "'a \<Rightarrow> 'a deque \<Rightarrow> int \<Rightarrow> 'a deque outcome" where
  "Grow z q n =
     (if n < 0 then Panic ''deque.Grow: negative count''
      else let c = Cap (Some q); l = Len (Some q) in
        if n \<le> c - l then Return q
        else let c1 = (if c = 0 then minCapacity else c) in
          obind (of_loop (double_until c1 (int64 (l + n)))) (\<lambda>c2.
          if l = 0 then obind (make_slice z c2) (\<lambda>b. Return (q\<lparr>buf := b, head := 0, tail := 0\<rparr>))
          else resize z q c2))"

definition AppendToSlice :: "'a deque \<Rightarrow> 'a list \<Rightarrow> 'a list outcome" where
  "AppendToSlice q out =
     (if count q = 0 then Return out
      else obind (if head q \<ge> tail q
                  then obind (slice_of (buf q) (head q) (int (length (buf q))))
                       (\<lambda>s. Return (out @ s, 0))
                  else Return (out, head q)) (\<lambda>(out1, h).
           obind (slice_of (buf q) h (tail q)) (\<lambda>s. Return (out1 @ s))))"

text \<open>The slice after the call and the number of elements copied into it.\<close>

definition CopyOutSlice :: "'a deque \<Rightarrow> 'a list \<Rightarrow> ('a list \<times> nat) outcome" where
  "CopyOutSlice q out =
     (if count q = 0 \<or> length out = 0 then Return (out, 0)
      else if head q \<ge> tail q then
        obind (slice_of (buf q) (head q) (int (length (buf q)))) (\<lambda>s.
        case go_copy out s of (out1, n) \<Rightarrow>
          if length (drop n out1) = 0 then Return (out1, n)
          else obind (slice_of (buf q) 0 (tail q)) (\<lambda>s2.
               case go_copy (drop n out1) s2 of (out2, n2) \<Rightarrow>
                 Return (take n out1 @ out2, n + n2)))
      else obind (slice_of (buf q) (head q) (tail q)) (\<lambda>s. Return (go_copy out s)))"

definition Copy :: "'a \<Rightarrow> 'a deque \<Rightarrow> 'a deque \<Rightarrow> (nat \<times> 'a deque) outcome" where
  "Copy z q src =
     obind (Clear z q) (\<lambda>q1.
     obind (Grow z q1 (Len (Some src))) (\<lambda>q2.
     obind (CopyOutSlice src (buf q2)) (\<lambda>(b, n).
     Return (n, q2\<lparr>buf := b, count := int n, tail := int n, head := 0\<rparr>))))"

definition CopyInSlice :: "'a \<Rightarrow> 'a deque \<Rightarrow> 'a list \<Rightarrow> 'a deque outcome" where
  "CopyInSlice z q xs =
     obind (if length (buf q) < length xs then
              (let newCap = (if length (buf q) = 0 then minCapacity else int (length (buf q)));
                   q1 = (if length (buf q) = 0 then q\<lparr>minCap := minCapacity\<rparr> else q) in
               obind (of_loop (double_until newCap (int (length xs)))) (\<lambda>c.
               obind (make_slice z c) (\<lambda>b. Return (q1\<lparr>buf := b\<rparr>))))
            else if length (buf q) > length xs then Clear z q
            else Return q) (\<lambda>q2.
     case go_copy (buf q2) xs of (b, n) \<Rightarrow>
       Return (q2\<lparr>buf := b, count := int n, tail := int n, head := 0\<rparr>))"

fun rotate_back :: "'a \<Rightarrow> nat \<Rightarrow> 'a deque \<Rightarrow> 'a deque outcome" where
  "rotate_back z 0 q = Return q"
| "rotate_back z (Suc k) q =
     (let modBits = int (length (buf q)) - 1;
          q1 = q\<lparr>head := (head q - 1) AND modBits, tail := (tail q - 1) AND modBits\<rparr> in
      obind (idx_get (buf q1) (tail q1)) (\<lambda>v.
      obind (idx_set (buf q1) (head q1) v) (\<lambda>b.
      obind (idx_set b (tail q1) z) (\<lambda>b'. rotate_back z k (q1\<lparr>buf := b'\<rparr>)))))"

fun rotate_front :: "'a \<Rightarrow> nat \<Rightarrow> 'a deque \<Rightarrow> 'a deque outcome" where
  "rotate_front z 0 q = Return q"
| "rotate_front z (Suc k) q =
     (let modBits = int (length (buf q)) - 1 in
      obind (idx_get (buf q) (head q)) (\<lambda>v.
      obind (idx_set (buf q) (tail q) v) (\<lambda>b.
      obind (idx_set b (head q) z) (\<lambda>b'.
      rotate_front z k (q\<lparr>buf := b', head := (head q + 1) AND modBits,
                          tail := (tail q + 1) AND modBits\<rparr>)))))"

definition Rotate :: "'a \<Rightarrow> 'a deque \<Rightarrow> int \<Rightarrow> 'a deque outcome" where
  "Rotate z q n =
     (if Len (Some q) \<le> 1 then Return q
      else let n1 = go_rem n (count q) in
        if n1 = 0 then Return q
        else let modBits = int (length (buf q)) - 1 in
          if head q = tail q then
            (let h = (head q + n1) AND modBits in Return (q\<lparr>head := h, tail := h\<rparr>))
          else if n1 < 0 then rotate_back z (nat (- n1)) q
          else rotate_front z (nat n1) q)"

fun index_loop :: "'a deque \<Rightarrow> ('a \<Rightarrow> bool) \<Rightarrow> nat \<Rightarrow> int \<Rightarrow> int outcome" where
  "index_loop q f 0 i = Return (- 1)"
| "index_loop q f (Suc k) i =
     obind (idx_get (buf q) ((head q + i) AND (int (length (buf q)) - 1))) (\<lambda>v.
     if f v then Return i else index_loop q f k (i + 1))"

definition Index :: "'a deque option \<Rightarrow> ('a \<Rightarrow> bool) \<Rightarrow> int outcome" where
  "Index qo f = (case qo of None \<Rightarrow> Return (- 1) | Some q \<Rightarrow>
     if Len (Some q) > 0 then index_loop q f (nat (count q)) 0 else Return (- 1))"

fun rindex_loop :: "'a deque \<Rightarrow> ('a \<Rightarrow> bool) \<Rightarrow> nat \<Rightarrow> int outcome" where
  "rindex_loop q f 0 = Return (- 1)"
| "rindex_loop q f (Suc k) =
     obind (idx_get (buf q) ((head q + int k) AND (int (length (buf q)) - 1))) (\<lambda>v.
     if f v then Return (int k) else rindex_loop q f k)"

definition RIndex :: "'a deque option \<Rightarrow> ('a \<Rightarrow> bool) \<Rightarrow> int outcome" where
  "RIndex qo f = (case qo of None \<Rightarrow> Return (- 1) | Some q \<Rightarrow>
     if Len (Some q) > 0 then rindex_loop q f (nat (count q)) else Return (- 1))"

text \<open>The two swap loops that \<open>Insert\<close> and \<open>Remove\<close> use to move one element along.\<close>

fun swap_next :: "nat \<Rightarrow> int \<Rightarrow> 'a deque \<Rightarrow> 'a deque outcome" where
  "swap_next 0 p q = Return q"
| "swap_next (Suc k) p q =
     (let n = next_pos q p in
      obind (idx_swap (buf q) p n) (\<lambda>b. swap_next k n (q\<lparr>buf := b\<rparr>)))"

fun swap_prev :: "nat \<Rightarrow> int \<Rightarrow> 'a deque \<Rightarrow> 'a deque outcome" where
  "swap_prev 0 p q = Return q"
| "swap_prev (Suc k) p q =
     (let n = prev_pos q p in
      obind (idx_swap (buf q) p n) (\<lambda>b. swap_prev k n (q\<lparr>buf := b\<rparr>)))"

definition Insert :: "'a \<Rightarrow> 'a deque \<Rightarrow> int \<Rightarrow> 'a \<Rightarrow> 'a deque outcome" where
  "Insert z q at item =
     (if at \<le> 0 then PushFront z q item
      else if at \<ge> Len (Some q) then PushBack z q item
      else if at * 2 < count q then
        obind (PushFront z q item) (\<lambda>q1. swap_next (nat at) (head q1) q1)
      else obind (PushBack z q item) (\<lambda>q1.
           swap_prev (nat (count q - at)) (prev_pos q1 (tail q1)) q1))"

definition Remove :: "'a \<Rightarrow> 'a deque \<Rightarrow> int \<Rightarrow> ('a \<times> 'a deque) outcome" where
  "Remove z q at =
     obind (checkRange q at) (\<lambda>_.
     let rm = (head q + at) AND (int (length (buf q)) - 1) in
     if at * 2 < count q then obind (swap_prev (nat at) rm q) (PopFront z)
     else obind (swap_next (nat (count q - at - 1)) rm q) (PopBack z))"

definition SetBaseCap :: "'a deque \<Rightarrow> int \<Rightarrow> 'a deque outcome" where
  "SetBaseCap q baseCap =
     obind (of_loop (double_until minCapacity baseCap)) (\<lambda>m. Return (q\<lparr>minCap := m\<rparr>))"

definition Swap :: "'a deque \<Rightarrow> int \<Rightarrow> int \<Rightarrow> 'a deque outcome" where
  "Swap q idxA idxB =
     obind (checkRange q idxA) (\<lambda>_. obind (checkRange q idxB) (\<lambda>_.
     if idxA = idxB then Return q
     else let realA = (head q + idxA) AND (int (length (buf q)) - 1);
              realB = (head q + idxB) AND (int (length (buf q)) - 1) in
          obind (idx_swap (buf q) realA realB) (\<lambda>b. Return (q\<lparr>buf := b\<rparr>))))"

section \<open>Abstraction\<close>

text \<open>
  The sequence a deque stands for, the invariant of the ring buffer, and the two combined.
  Slots outside the live range hold the zero value \<open>z\<close>, so that the garbage collector
  can reclaim what was removed.  \<open>ring\<close> is the form of \<open>represents\<close> for an
  allocated buffer.
\<close>

definition maxCap :: int where
  "maxCap = 2 ^ 62"

definition is_cap :: "int \<Rightarrow> bool" where
  "is_cap n \<longleftrightarrow> is_pow2 n \<and> n \<le> maxCap"

definition contents :: "'a deque \<Rightarrow> 'a list" where
  "contents q = take (nat (count q)) (rotate (nat (head q)) (buf q))"

definition deque_inv :: "'a \<Rightarrow> 'a deque \<Rightarrow> bool" where
  "deque_inv z q \<longleftrightarrow>
     (minCap q = 0 \<or> is_cap (minCap q)) \<and> 0 \<le> count q \<and> count q \<le> int (length (buf q)) \<and>
     (if buf q = [] then head q = 0 \<and> tail q = 0
      else is_cap (int (length (buf q))) \<and> 0 \<le> head q \<and> head q < int (length (buf q)) \<and>
           tail q = (head q + count q) mod int (length (buf q)) \<and>
           drop (nat (count q)) (rotate (nat (head q)) (buf q))
             = replicate (length (buf q) - nat (count q)) z)"

definition represents :: "'a \<Rightarrow> 'a deque \<Rightarrow> 'a list \<Rightarrow> bool" where
  "represents z q xs \<longleftrightarrow> deque_inv z q \<and> contents q = xs"

definition ring :: "'a \<Rightarrow> 'a deque \<Rightarrow> 'a list \<Rightarrow> bool" where
  "ring z q xs \<longleftrightarrow> (minCap q = 0 \<or> is_cap (minCap q)) \<and> is_cap (int (length (buf q))) \<and>
     0 \<le> head q \<and> head q < int (length (buf q)) \<and> count q = int (length xs) \<and>
     length xs \<le> length (buf q) \<and> tail q = (head q + count q) mod int (length (buf q)) \<and>
     rotate (nat (head q)) (buf q) = xs @ replicate (length (buf q) - length xs) z"

text \<open>
  A callback that only looks at the elements, as the \<open>yield\<close> argument of an iterator: it may
  stop the iteration but leaves the deque alone.
\<close>

definition observer :: "('a \<Rightarrow> 's \<Rightarrow> bool \<times> 's) \<Rightarrow> 'a \<Rightarrow> 'a deque \<Rightarrow> 's \<Rightarrow> bool \<times> 'a deque \<times> 's" where
  "observer f v q s = (case f v s of (go_on, s') \<Rightarrow> (go_on, q, s'))"

section \<open>The deque as a list with operations\<close>

text \<open>
  One constructor per method that adds, removes, reads, replaces or moves elements or sets a
  capacity; \<open>deque_step\<close> runs the method of the code, \<open>list_step\<close> is the same operation on a list
  of at most \<open>maxCap\<close> elements.  The bulk methods \<open>Copy\<close> and \<open>CopyInSlice\<close>, whose effect depends on
  the capacity, and the iterators have facts of their own.
\<close>

datatype 'a deque_op =
    OpPushBack 'a | OpPushFront 'a | OpPopFront | OpPopBack | OpFront | OpBack
  | OpAt int | OpSet int 'a | OpInsert int 'a | OpRemove int | OpSwap int int
  | OpRotate int | OpClear | OpGrow int | OpSetBaseCap int

fun deque_step :: "'a \<Rightarrow> 'a deque_op \<Rightarrow> 'a deque \<Rightarrow> ('a option \<times> 'a deque) outcome" where
  "deque_step z (OpPushBack v) q = obind (PushBack z q v) (\<lambda>q'. Return (None, q'))"
| "deque_step z (OpPushFront v) q = obind (PushFront z q v) (\<lambda>q'. Return (None, q'))"
| "deque_step z OpPopFront q = obind (PopFront z q) (\<lambda>(v, q'). Return (Some v, q'))"
| "deque_step z OpPopBack q = obind (PopBack z q) (\<lambda>(v, q'). Return (Some v, q'))"
| "deque_step z OpFront q = obind (Front q) (\<lambda>v. Return (Some v, q))"
| "deque_step z OpBack q = obind (Back q) (\<lambda>v. Return (Some v, q))"
| "deque_step z (OpAt i) q = obind (At q i) (\<lambda>v. Return (Some v, q))"
| "deque_step z (OpSet i v) q = obind (Set q i v) (\<lambda>q'. Return (None, q'))"
| "deque_step z (OpInsert i v) q = obind (Insert z q i v) (\<lambda>q'. Return (None, q'))"
| "deque_step z (OpRemove i) q = obind (Remove z q i) (\<lambda>(v, q'). Return (Some v, q'))"
| "deque_step z (OpSwap i j) q = obind (Swap q i j) (\<lambda>q'. Return (None, q'))"
| "deque_step z (OpRotate n) q = obind (Rotate z q n) (\<lambda>q'. Return (None, q'))"
| "deque_step z OpClear q = obind (Clear z q) (\<lambda>q'. Return (None, q'))"
| "deque_step z (OpGrow n) q = obind (Grow z q n) (\<lambda>q'. Return (None, q'))"
| "deque_step z (OpSetBaseCap c) q = obind (SetBaseCap q c) (\<lambda>q'. Return (None, q'))"

definition in_range :: "int \<Rightarrow> 'a list \<Rightarrow> bool" where
  "in_range i xs \<longleftrightarrow> 0 \<le> i \<and> i < int (length xs)"

definition list_insert :: "int \<Rightarrow> 'a \<Rightarrow> 'a list \<Rightarrow> 'a list" where
  "list_insert i v xs = take (nat i) xs @ v # drop (nat i) xs"

text \<open>An element more than the largest buffer holds: the doubled length is negative.\<close>

definition add_element :: "'a list \<Rightarrow> 'a list \<Rightarrow> ('a option \<times> 'a list) outcome" where
  "add_element xs ys =
     (if int (length xs) < maxCap then Return (None, ys) else Panic ''makeslice: len out of range'')"

fun list_step :: "'a deque_op \<Rightarrow> 'a list \<Rightarrow> ('a option \<times> 'a list) outcome" where
  "list_step (OpPushBack v) xs = add_element xs (xs @ [v])"
| "list_step (OpPushFront v) xs = add_element xs (v # xs)"
| "list_step OpPopFront xs = (if xs = [] then Panic ''deque: PopFront() called on empty queue''
                             else Return (Some (hd xs), tl xs))"
| "list_step OpPopBack xs = (if xs = [] then Panic ''deque: PopBack() called on empty queue''
                            else Return (Some (last xs), butlast xs))"
| "list_step OpFront xs = (if xs = [] then Panic ''deque: Front() called when empty''
                          else Return (Some (hd xs), xs))"
| "list_step OpBack xs = (if xs = [] then Panic ''deque: Back() called when empty''
                         else Return (Some (last xs), xs))"
| "list_step (OpAt i) xs = (if in_range i xs then Return (Some (xs ! nat i), xs)
                           else Panic (range_text i (int (length xs))))"
| "list_step (OpSet i v) xs = (if in_range i xs then Return (None, xs[nat i := v])
                              else Panic (range_text i (int (length xs))))"
| "list_step (OpInsert i v) xs = add_element xs (list_insert i v xs)"
| "list_step (OpRemove i) xs =
     (if in_range i xs then Return (Some (xs ! nat i), take (nat i) xs @ drop (Suc (nat i)) xs)
      else Panic (range_text i (int (length xs))))"
| "list_step (OpSwap i j) xs =
     (if \<not> in_range i xs then Panic (range_text i (int (length xs)))
      else if \<not> in_range j xs then Panic (range_text j (int (length xs)))
      else Return (None, xs[nat i := xs ! nat j, nat j := xs ! nat i]))"
| "list_step (OpRotate n) xs = Return (None, rotate (nat (n mod int (length xs))) xs)"
| "list_step OpClear xs = Return (None, [])"
| "list_step (OpGrow n) xs =
     (if n < 0 then Panic ''deque.Grow: negative count''
      else if int (length xs) + n \<le> maxCap then Return (None, xs) else Diverges)"
| "list_step (OpSetBaseCap c) xs = (if c \<le> maxCap then Return (None, xs) else Diverges)"

text \<open>
  A call that asks \<open>Grow\<close> for fewer than \<open>maxCap\<close> elements, so that the new length does not wrap
  around.
\<close>

fun moderate :: "'a deque_op \<Rightarrow> bool" where
  "moderate (OpGrow n) = (n < maxCap)"
| "moderate _ = True"

end
