(* ===== verification/Deque_Proofs.thy ===== *)
theory Deque_Proofs
  imports Deque
begin

text \<open>
  Correctness of the ring-buffer deque of \<open>Deque\<close>: every method preserves the invariant
  and acts on the represented list as its documentation says.  The facts on the ring come
  first (reading, writing and rotating a slot), then one \<open>_ok\<close> lemma per method, then
  the simulation that runs any sequence of calls beside the same calls on a list.
\<close>

unbundle bit_operations_syntax

declare double_until.simps [code]

section \<open>The ring\<close>

lemma ring_iff:
  assumes "buf q \<noteq> []"
  shows "represents z q xs \<longleftrightarrow> ring z q xs"
proof
  assume "represents z q xs"
  then have inv: "deque_inv z q" and c: "contents q = xs" by (auto simp: represents_def)
  have n: "nat (count q) \<le> length (buf q)" "count q = int (nat (count q))"
    using inv by (auto simp: deque_inv_def)
  have len: "length xs = nat (count q)" using c n by (auto simp: contents_def)
  have "rotate (nat (head q)) (buf q) = xs @ replicate (length (buf q) - length xs) z"
    using c inv assms len append_take_drop_id [of "nat (count q)" "rotate (nat (head q)) (buf q)"]
    by (simp add: contents_def deque_inv_def)
  then show "ring z q xs" using inv assms len n by (auto simp: ring_def deque_inv_def)
next
  assume "ring z q xs"
  then show "represents z q xs" using assms
    by (auto simp: ring_def represents_def deque_inv_def contents_def)
qed

lemma represents_Nil_buf:
  "buf q = [] \<Longrightarrow> represents z q xs \<longleftrightarrow>
     xs = [] \<and> count q = 0 \<and> head q = 0 \<and> tail q = 0 \<and> (minCap q = 0 \<or> is_cap (minCap q))"
  by (auto simp: represents_def deque_inv_def contents_def)

lemma represents_count: "represents z q xs \<Longrightarrow> count q = int (length xs)"
  by (cases "buf q = []") (auto simp: represents_Nil_buf ring_iff ring_def)

lemma ring_posn:
  assumes "ring z q xs"
  shows "(head q + i) AND (int (length (buf q)) - 1) = (head q + i) mod int (length (buf q))"
    and "next_pos q i = (i + 1) mod int (length (buf q))"
    and "prev_pos q i = (i - 1) mod int (length (buf q))"
    and "0 < int (length (buf q))"
  using assms by (auto simp: ring_def is_cap_def and_pow2_mask next_pos_def prev_pos_def is_pow2_pos)

text \<open>Reading and writing slot i of the ring.\<close>

lemma ring_slot:
  assumes "ring z q xs"
  shows "0 \<le> (head q + i) mod int (length (buf q))"
    and "(head q + i) mod int (length (buf q)) < int (length (buf q))"
    and "0 \<le> i \<Longrightarrow> nat ((head q + i) mod int (length (buf q))) = (nat (head q) + nat i) mod length (buf q)"
  using ring_posn(4)[OF assms] assms
  by (auto simp: ring_def nat_mod_distrib nat_add_distrib)

lemma ring_get:
  assumes "ring z q xs" "0 \<le> i" "i < int (length xs)"
  shows "idx_get (buf q) ((head q + i) mod int (length (buf q))) = Return (xs ! nat i)"
proof -
  have "rotate (nat (head q)) (buf q) ! nat i = xs ! nat i"
    using assms by (auto simp: ring_def nth_append)
  moreover have "nat i < length (buf q)" using assms by (auto simp: ring_def)
  ultimately show ?thesis
    using ring_slot[OF assms(1), of i] assms(2) by (simp add: idx_get_Return nth_rotate)
qed

lemma ring_set_view:
  assumes "ring z q xs" "0 \<le> i" "i < int (length (buf q))"
  shows "idx_set (buf q) ((head q + i) mod int (length (buf q))) v
           = Return ((buf q)[(nat (head q) + nat i) mod length (buf q) := v])"
    and "rotate (nat (head q)) ((buf q)[(nat (head q) + nat i) mod length (buf q) := v])
           = (xs @ replicate (length (buf q) - length xs) z)[nat i := v]"
proof -
  show "idx_set (buf q) ((head q + i) mod int (length (buf q))) v
           = Return ((buf q)[(nat (head q) + nat i) mod length (buf q) := v])"
    using ring_slot[OF assms(1), of i] assms(2) by (simp add: idx_set_Return)
  have "nat i < length (buf q)" using assms by linarith
  then show "rotate (nat (head q)) ((buf q)[(nat (head q) + nat i) mod length (buf q) := v])
           = (xs @ replicate (length (buf q) - length xs) z)[nat i := v]"
    using assms(1) by (simp add: rotate_list_update ring_def)
qed
lemma rotate_head_add:
  fixes h i :: int
  assumes "0 \<le> h" "0 \<le> i" "b \<noteq> []"
  shows "rotate (nat ((h + i) mod int (length b))) b = rotate (nat i) (rotate (nat h) b)"
proof -
  have "nat ((h + i) mod int (length b)) = (nat h + nat i) mod length b"
    using assms by (simp add: nat_mod_distrib nat_add_distrib)
  then have "rotate (nat ((h + i) mod int (length b))) b = rotate (nat h + nat i) b"
    by (metis rotate_conv_mod)
  then show ?thesis by (simp add: rotate_rotate add.commute)
qed

lemma rotate_head_next:
  fixes h :: int
  assumes "0 \<le> h" "b \<noteq> []"
  shows "rotate (nat ((h + 1) mod int (length b))) b = rotate1 (rotate (nat h) b)"
  using rotate_head_add [OF assms(1) _ assms(2), of 1] by simp

lemma rotate1_eq_snoc: "rotate1 ys = xs @ [x] \<Longrightarrow> ys = x # xs"
  by (cases ys) auto

lemma rotate_head_prev:
  fixes h :: int
  assumes "0 \<le> h" "h < int (length b)" "rotate (nat h) b = xs @ [x]"
  shows "rotate (nat ((h - 1) mod int (length b))) b = x # xs"
proof (rule rotate1_eq_snoc)
  have b: "b \<noteq> []" using assms by auto
  have p: "0 \<le> (h - 1) mod int (length b)" using b by simp
  have "((h - 1) mod int (length b) + 1) mod int (length b) = h"
    using assms by (simp add: mod_add_left_eq)
  then show "rotate1 (rotate (nat ((h - 1) mod int (length b))) b) = xs @ [x]"
    using rotate_head_next [OF p b] assms(3) by simp
qed

lemma replicate_snoc: "0 < n \<Longrightarrow> replicate n z = replicate (n - 1) z @ [z]"
  by (cases n) (auto simp: replicate_append_same)

lemma ring_nonempty: "ring z q xs \<Longrightarrow> buf q \<noteq> []"
  by (auto simp: ring_def is_cap_def is_pow2_def)

lemma ringD:
  assumes "ring z q xs"
  shows "count q = int (length xs)" "length xs \<le> length (buf q)" "0 \<le> head q"
    "head q < int (length (buf q))" "is_cap (int (length (buf q)))"
    "minCap q = 0 \<or> is_cap (minCap q)"
    "tail q = (head q + int (length xs)) mod int (length (buf q))"
    "rotate (nat (head q)) (buf q) = xs @ replicate (length (buf q) - length xs) z"
  using assms unfolding ring_def by simp_all

lemma ring_push_back:
  assumes r: "ring z q xs" and room: "length xs < length (buf q)"
  shows "\<exists>b. idx_set (buf q) (tail q) x = Return b \<and>
     ring z (q\<lparr>buf := b, tail := next_pos q (tail q), count := count q + 1\<rparr>) (xs @ [x])"
proof -
  let ?L = "int (length (buf q))" and ?n = "int (length xs)"
  let ?b = "(buf q)[(nat (head q) + nat ?n) mod length (buf q) := x]"
  have t: "tail q = (head q + ?n) mod ?L" using r by (auto simp: ring_def)
  have set: "idx_set (buf q) (tail q) x = Return ?b"
    and view: "rotate (nat (head q)) ?b = (xs @ replicate (length (buf q) - length xs) z)[nat ?n := x]"
    using ring_set_view [OF r, of ?n x] room by (auto simp: t)
  have "replicate (length (buf q) - length xs) z = z # replicate (length (buf q) - Suc (length xs)) z"
    using room by (cases "length (buf q) - length xs") (auto simp: Suc_diff_Suc)
  then have view': "rotate (nat (head q)) ?b = (xs @ [x]) @ replicate (length (buf q) - length (xs @ [x])) z"
    using view by (simp add: list_update_append)
  have c: "count q = ?n" using r by (simp add: ring_def)
  have "next_pos q (tail q) = (head q + (count q + 1)) mod ?L"
    unfolding ring_posn(2)[OF r] t c add.assoc [symmetric] by (rule mod_add_left_eq)
  then have "ring z (q\<lparr>buf := ?b, tail := next_pos q (tail q), count := count q + 1\<rparr>) (xs @ [x])"
    using r room view' unfolding ring_def by simp
  then show ?thesis using set by blast
qed

lemma ring_push_front:
  assumes r: "ring z q xs" and room: "length xs < length (buf q)"
  shows "\<exists>b. idx_set (buf q) (prev_pos q (head q)) x = Return b \<and>
     ring z (q\<lparr>head := prev_pos q (head q), buf := b, count := count q + 1\<rparr>) (x # xs)"
proof -
  let ?L = "int (length (buf q))" and ?h = "prev_pos q (head q)"
  let ?b = "(buf q)[nat ?h := x]"
  have h: "?h = (head q - 1) mod ?L" by (rule ring_posn(3)[OF r])
  have hb: "0 \<le> ?h" "?h < ?L" using ring_posn(4)[OF r] by (auto simp: h)
  have view: "rotate (nat (head q)) (buf q) = (xs @ replicate (length (buf q) - length xs - 1) z) @ [z]"
    using r room replicate_snoc [of "length (buf q) - length xs" z] by (auto simp: ring_def)
  have v: "rotate (nat ?h) (buf q) = z # xs @ replicate (length (buf q) - length xs - 1) z"
    using rotate_head_prev [OF _ _ view] r by (simp add: ring_def h)
  have "(nat ?h + 0) mod length (buf q) = nat ?h" using hb by simp
  then have view': "rotate (nat ?h) ?b = x # xs @ replicate (length (buf q) - length (x # xs)) z"
    using rotate_list_update [of 0 "buf q" "nat ?h" x] ring_nonempty [OF r] v by simp
  have "(?h + (count q + 1)) mod ?L = ((head q - 1) + (count q + 1)) mod ?L"
    unfolding h by (rule mod_add_left_eq)
  then have "tail q = (?h + (count q + 1)) mod ?L"
    using r by (simp add: ring_def)
  then have "ring z (q\<lparr>head := ?h, buf := ?b, count := count q + 1\<rparr>) (x # xs)"
    using r room hb view' unfolding ring_def by simp
  then show ?thesis using hb by (auto simp: idx_set_Return)
qed

lemma ring_pop_front:
  assumes r: "ring z q (x # xs)"
  shows "idx_get (buf q) (head q) = Return x"
    and "\<exists>b. idx_set (buf q) (head q) z = Return b \<and>
     ring z (q\<lparr>buf := b, head := next_pos q (head q), count := count q - 1\<rparr>) xs"
proof -
  let ?L = "int (length (buf q))"
  have hm: "(head q + 0) mod ?L = head q" using r by (simp add: ring_def)
  show "idx_get (buf q) (head q) = Return x" using ring_get [OF r, of 0] hm by simp
  let ?b = "(buf q)[(nat (head q) + nat 0) mod length (buf q) := z]"
  have set: "idx_set (buf q) (head q) z = Return ?b"
    and view: "rotate (nat (head q)) ?b = z # xs @ replicate (length (buf q) - Suc (length xs)) z"
    using ring_set_view [OF r, of 0 z] ring_posn(4)[OF r] hm by auto
  have h: "next_pos q (head q) = (head q + 1) mod ?L" by (rule ring_posn(2)[OF r])
  have h0: "0 \<le> head q" and len: "Suc (length xs) \<le> length (buf q)" using r by (auto simp: ring_def)
  have bne: "?b \<noteq> []" using ring_nonempty [OF r] by simp
  have "rotate (nat (next_pos q (head q))) ?b = rotate1 (rotate (nat (head q)) ?b)"
    using rotate_head_next [OF h0 bne] by (simp only: h length_list_update)
  then have "rotate (nat (next_pos q (head q))) ?b
          = xs @ replicate (length (buf q) - Suc (length xs)) z @ [z]"
    unfolding view by simp
  moreover have "replicate (length (buf q) - Suc (length xs)) z @ [z] = replicate (length (buf q) - length xs) z"
    using replicate_snoc [of "length (buf q) - length xs" z] len by simp
  ultimately have view': "rotate (nat (next_pos q (head q))) ?b = xs @ replicate (length (buf q) - length xs) z"
    by simp
  have "(next_pos q (head q) + (count q - 1)) mod ?L = (head q + 1 + (count q - 1)) mod ?L"
    unfolding h by (rule mod_add_left_eq)
  then have "tail q = (next_pos q (head q) + (count q - 1)) mod ?L"
    using r by (simp add: ring_def)
  moreover have "0 \<le> next_pos q (head q)" "next_pos q (head q) < ?L"
    using ring_posn(4)[OF r] by (auto simp: h)
  ultimately have "ring z (q\<lparr>buf := ?b, head := next_pos q (head q), count := count q - 1\<rparr>) xs"
    using r view' len unfolding ring_def by simp
  then show "\<exists>b. idx_set (buf q) (head q) z = Return b \<and>
     ring z (q\<lparr>buf := b, head := next_pos q (head q), count := count q - 1\<rparr>) xs"
    using set by blast
qed

lemma ring_pop_back:
  assumes r: "ring z q (xs @ [x])"
  shows "idx_get (buf q) (prev_pos q (tail q)) = Return x"
    and "\<exists>b. idx_set (buf q) (prev_pos q (tail q)) z = Return b \<and>
     ring z (q\<lparr>tail := prev_pos q (tail q), buf := b, count := count q - 1\<rparr>) xs"
proof -
  let ?L = "int (length (buf q))" and ?n = "int (length xs)"
  have cnt: "count q = ?n + 1" and tq: "tail q = (head q + count q) mod ?L" using r by (auto simp: ring_def)
  have "(tail q - 1) mod ?L = (head q + count q - 1) mod ?L"
    unfolding tq by (rule mod_diff_left_eq)
  then have t: "prev_pos q (tail q) = (head q + ?n) mod ?L"
    using ring_posn(3)[OF r] cnt by simp
  show "idx_get (buf q) (prev_pos q (tail q)) = Return x"
    using ring_get [OF r, of ?n] by (simp add: t)
  let ?b = "(buf q)[(nat (head q) + nat ?n) mod length (buf q) := z]"
  have lt: "?n < ?L" using r by (auto simp: ring_def)
  have set: "idx_set (buf q) (prev_pos q (tail q)) z = Return ?b"
    and view: "rotate (nat (head q)) ?b = xs @ z # replicate (length (buf q) - Suc (length xs)) z"
    using ring_set_view [OF r, of ?n z] lt by (auto simp: t list_update_append)
  have "z # replicate (length (buf q) - Suc (length xs)) z = replicate (length (buf q) - length xs) z"
    using lt by (cases "length (buf q) - length xs") (auto simp: Suc_diff_Suc)
  then have view': "rotate (nat (head q)) ?b = xs @ replicate (length (buf q) - length xs) z"
    using view by simp
  have "ring z (q\<lparr>tail := prev_pos q (tail q), buf := ?b, count := count q - 1\<rparr>) xs"
    using r view' t lt cnt unfolding ring_def by simp
  then show "\<exists>b. idx_set (buf q) (prev_pos q (tail q)) z = Return b \<and>
     ring z (q\<lparr>tail := prev_pos q (tail q), buf := b, count := count q - 1\<rparr>) xs"
    using set by blast
qed

text \<open>Doubling capacities within the type, and the loop that doubles beyond it.\<close>

lemma is_cap_pos: "is_cap n \<Longrightarrow> 0 < n"
  by (simp add: is_cap_def is_pow2_pos)

lemma is_cap_le: "is_cap n \<Longrightarrow> n \<le> maxCap"
  by (simp add: is_cap_def)

lemma is_cap_8: "is_cap 8"
  by (simp add: is_cap_def is_pow2_8 maxCap_def)

lemma is_cap_double:
  assumes "is_cap n" "n < maxCap"
  shows "is_cap (n * 2)" "int64 (n * 2) = n * 2"
proof -
  obtain k where k: "n = 2 ^ k" using assms(1) by (auto simp: is_cap_def is_pow2_def)
  have "k < 62"
  proof (rule ccontr)
    assume "\<not> k < 62"
    then have "(2::int) ^ 62 \<le> 2 ^ k" by (intro power_increasing) simp_all
    then show False using assms(2) by (simp add: k maxCap_def)
  qed
  then have "(2::int) ^ Suc k \<le> 2 ^ 62" by (intro power_increasing) simp_all
  then have le: "n * 2 \<le> maxCap" by (simp add: k maxCap_def)
  then show "is_cap (n * 2)" using is_pow2_double [of n] assms(1) by (simp add: is_cap_def mult.commute)
  show "int64 (n * 2) = n * 2" using le is_cap_pos [OF assms(1)] by (intro int64_id) (simp_all add: maxCap_def)
qed

lemma double_until_Some:
  assumes "is_cap c" "n \<le> maxCap"
  shows "\<exists>c'. double_until c n = Some c' \<and> n \<le> c' \<and> c \<le> c' \<and> is_cap c' \<and> (n \<le> c \<longrightarrow> c' = c)"
  using assms(1)
proof (induction "nat (n - c)" arbitrary: c rule: less_induct)
  case less
  show ?case
  proof (cases "c < n")
    case True
    note d = is_cap_double [OF less.prems] and p = is_cap_pos [OF less.prems]
    have "nat (n - c * 2) < nat (n - c)" using p True by linarith
    then obtain c' where "double_until (c * 2) n = Some c'" "n \<le> c'" "c * 2 \<le> c'" "is_cap c'"
      using less.hyps [of "c * 2"] d(1) True assms(2) by auto
    then show ?thesis using True p d(2) assms(2) by (auto simp: double_until.simps [of c n])
  next
    case False
    then show ?thesis using less.prems by (simp add: double_until.simps [of c n])
  qed
qed

lemma double_until_zero:
  assumes "0 < n"
  shows "double_until 0 n = None"
proof (rule ccontr)
  assume "double_until 0 n \<noteq> None"
  then obtain r where r: "double_until 0 n = Some r" by auto
  have "c = 0 \<longrightarrow> 0 < m \<longrightarrow> False" if "double_until c m = Some r" for c m r
    by (rule double_until.raw_induct [where P = "\<lambda>c m r. c = 0 \<longrightarrow> 0 < m \<longrightarrow> False", OF _ that])
       (auto simp: int64_def split: if_splits)
  then show False using r assms by blast
qed

lemma double_until_diverges:
  assumes "is_cap c" "maxCap < n"
  shows "double_until c n = None"
  using assms(1)
proof (induction "nat (maxCap - c)" arbitrary: c rule: less_induct)
  case less
  have lt: "c < n" using is_cap_le [OF less.prems] assms(2) by linarith
  show ?case
  proof (cases "c < maxCap")
    case True
    note d = is_cap_double [OF less.prems True]
    have "nat (maxCap - c * 2) < nat (maxCap - c)" using is_cap_pos [OF less.prems] True by linarith
    then show ?thesis using less.hyps [OF _ d(1)] d(2) lt by (simp add: double_until.simps [of c n])
  next
    case False
    then have c: "c = 2 ^ 62" using is_cap_le [OF less.prems] by (simp add: maxCap_def)
    have n: "0 < n" "- (2 ^ 63) < n" using assms(2) by (simp_all add: maxCap_def)
    have "double_until (- (2 ^ 63)) n = double_until 0 n"
      using n by (subst double_until.simps) (simp add: int64_def)
    moreover have "int64 (c * 2) = - (2 ^ 63)" by (simp add: c int64_def)
    ultimately show ?thesis using lt double_until_zero [OF n(1)] by (simp add: double_until.simps [of c n])
  qed
qed

lemma ring_segments:
  assumes r: "ring z q xs" and ne: "xs \<noteq> []"
  shows "0 \<le> tail q" "tail q < int (length (buf q))"
    and "head q < tail q \<Longrightarrow> take (nat (tail q - head q)) (drop (nat (head q)) (buf q)) = xs"
    and "tail q \<le> head q \<Longrightarrow> drop (nat (head q)) (buf q) @ take (nat (tail q)) (buf q) = xs"
proof -
  define h n L where "h = nat (head q)" and "n = length xs" and "L = length (buf q)"
  have hL: "h < L" and hd: "head q = int h" and n: "0 < n" "n \<le> L"
    using ringD(2-4)[OF r] ne by (simp_all add: h_def n_def L_def nat_less_iff)
  have "rotate h (buf q) = drop h (buf q) @ take h (buf q)"
    using hL by (simp add: rotate_drop_take L_def)
  moreover have "take n (rotate h (buf q)) = xs"
    using ringD(8)[OF r] by (simp add: h_def n_def)
  ultimately have xs: "take n (drop h (buf q) @ take h (buf q)) = xs" by simp
  have tl: "tail q = int ((h + n) mod L)"
    unfolding ringD(7)[OF r] hd n_def L_def by (simp add: zmod_int)
  have "(h + n) mod L < L" using hL by (intro mod_less_divisor) simp
  then show "0 \<le> tail q" "tail q < int (length (buf q))" using tl by (simp_all add: L_def)
  show "take (nat (tail q - head q)) (drop (nat (head q)) (buf q)) = xs" if lt: "head q < tail q"
  proof -
    have "h + n < L"
    proof (rule ccontr)
      assume "\<not> h + n < L"
      then have "(h + n) mod L = h + n - L" using n hL by (simp add: le_mod_geq)
      then show False using lt tl hd n by linarith
    qed
    then have "tail q = int (h + n)" using tl by simp
    then have "nat (tail q - head q) = n" using hd by simp
    then show ?thesis using xs \<open>h + n < L\<close> by (simp add: hd L_def)
  qed
  show "drop (nat (head q)) (buf q) @ take (nat (tail q)) (buf q) = xs" if le: "tail q \<le> head q"
  proof -
    have ge: "L \<le> h + n"
    proof (rule ccontr)
      assume "\<not> L \<le> h + n"
      then show False using le tl hd n by simp
    qed
    have "(h + n) mod L = h + n - L" using ge n hL by (simp add: le_mod_geq)
    then have t: "nat (tail q) = n - (L - h)" using tl ge hL by simp
    have "min (n - (L - h)) h = n - (L - h)" using n hL by simp
    then have "take n (drop h (buf q) @ take h (buf q)) = drop h (buf q) @ take (n - (L - h)) (buf q)"
      using ge hL by (simp add: L_def)
    then show ?thesis using xs t by (simp add: hd)
  qed
qed

lemma ring_resize:
  assumes r: "ring z q xs" and ne: "xs \<noteq> []" and c: "is_cap c" "int (length xs) < c"
  shows "\<exists>q'. resize z q c = Return q' \<and> ring z q' xs \<and> length (buf q') = nat c \<and> minCap q' = minCap q"
proof -
  define b where "b = xs @ replicate (nat c - length xs) z"
  have c0: "0 \<le> c" and len: "length xs \<le> nat c" using c by auto
  note h = ringD(3,4)[OF r]
  note seg = ring_segments [OF r ne]
  have "resize z q c = Return (q\<lparr>head := 0, tail := count q, buf := b\<rparr>)"
  proof (cases "head q < tail q")
    case True
    have sl: "slice_of (buf q) (head q) (tail q) = Return xs"
      using h(1) seg(2) True by (simp add: slice_of_Return seg(3)[OF True])
    show ?thesis using True c0 len
      by (simp add: resize_def make_slice_Return sl go_copy_fits b_def)
  next
    case False
    then have le: "tail q \<le> head q" by simp
    define s1 s2 where "s1 = drop (nat (head q)) (buf q)" and "s2 = take (nat (tail q)) (buf q)"
    have s12: "s1 @ s2 = xs" using seg(4)[OF le] by (simp add: s1_def s2_def)
    have l: "length s1 \<le> nat c" "length s2 \<le> nat c - length s1" "length s1 + length s2 = length xs"
      using len by (auto simp: s12 [symmetric])
    have sl: "slice_of (buf q) (head q) (int (length (buf q))) = Return s1"
             "slice_of (buf q) 0 (tail q) = Return s2"
      using h seg(1,2) by (auto simp: slice_of_Return s1_def s2_def)
    show ?thesis
      using False c0 l s12 by (simp add: resize_def make_slice_Return sl go_copy_fits b_def)
  qed
  moreover have "ring z (q\<lparr>head := 0, tail := count q, buf := b\<rparr>) xs"
    using ringD(1,6)[OF r] c len c0 unfolding ring_def by (simp add: b_def)
  ultimately show ?thesis using len by (auto simp: b_def)
qed

lemma growIfFull_ok:
  assumes "represents z q xs" and small: "int (length xs) < maxCap"
  shows "\<exists>q'. growIfFull z q = Return q' \<and> ring z q' xs \<and> length xs < length (buf q')"
proof (cases "buf q = []")
  case True
  define m where "m = (if minCap q = 0 then minCapacity else minCap q)"
  have m: "is_cap m" using assms True is_cap_8 by (auto simp: m_def minCapacity_def represents_Nil_buf)
  note m0 = is_cap_pos [OF m]
  let ?q = "q\<lparr>minCap := m, buf := replicate (nat m) z\<rparr>"
  have "growIfFull z q = Return ?q"
    using assms True m0 by (auto simp: growIfFull_def Let_def represents_Nil_buf make_slice_Return m_def)
  moreover have "ring z ?q xs" using assms True m m0 by (auto simp: ring_def represents_Nil_buf)
  ultimately show ?thesis using m0 assms True by (auto simp: represents_Nil_buf)
next
  case False
  then have r: "ring z q xs" using assms by (simp add: ring_iff)
  show ?thesis
  proof (cases "count q = int (length (buf q))")
    case True
    then have full: "length xs = length (buf q)" using ringD(1)[OF r] by simp
    then have ne: "xs \<noteq> []" using False by auto
    have cap: "is_cap (count q)" "count q < maxCap" using ringD(5)[OF r] True small full by simp_all
    note dbl = is_cap_double [OF cap]
    moreover have "int (length xs) < count q * 2" using ringD(1)[OF r] ne by simp
    ultimately obtain q' where q': "resize z q (count q * 2) = Return q'" "ring z q' xs"
        "length (buf q') = nat (count q * 2)"
      using ring_resize [OF r ne] by blast
    have "0 < length xs" using ne by simp
    then have "length xs < length (buf q')" using q'(3) ringD(1)[OF r] by linarith
    then show ?thesis using True False q' dbl(2) by (simp add: growIfFull_def)
  next
    case noteq: False
    then have "length xs < length (buf q)" using ringD(1,2)[OF r] by simp
    then show ?thesis using r noteq by (simp add: growIfFull_def)
  qed
qed

lemma represents_bound: "represents z q xs \<Longrightarrow> int (length xs) \<le> maxCap"
  using is_cap_le ringD(2,5)[of z q xs]
  by (cases "buf q = []") (fastforce simp: represents_Nil_buf ring_iff maxCap_def)+

lemma growIfFull_full:
  assumes "represents z q xs" "int (length xs) = maxCap"
  shows "growIfFull z q = Panic ''makeslice: len out of range''"
proof -
  have ne: "buf q \<noteq> []" using assms by (auto simp: represents_Nil_buf maxCap_def)
  then have r: "ring z q xs" using assms(1) by (simp add: ring_iff)
  have "int (length (buf q)) = maxCap" using ringD(2)[OF r] is_cap_le [OF ringD(5)[OF r]] assms(2) by linarith
  moreover have "count q = maxCap" using ringD(1)[OF r] assms(2) by simp
  moreover have "int64 (maxCap * 2) < 0" by (simp add: maxCap_def int64_def)
  ultimately show ?thesis using ne by (simp add: growIfFull_def resize_def make_slice_def)
qed

text \<open>A count shifted by two, as the shrinking methods compare it.\<close>

lemma int64_quarter:
  assumes "0 \<le> c" "c \<le> l" "0 < l" "l \<le> maxCap"
  shows "int64 (c * 4) = l \<longleftrightarrow> c * 4 = l"
proof (cases "c * 4 < 2 ^ 63")
  case True
  then show ?thesis using assms(1) by (simp add: int64_id)
next
  case False
  have "int64 (c * 4) = c * 4 - 2 ^ 64"
    using False assms by (simp add: int64_def maxCap_def mod_pos_geq mod_pos_pos_trivial)
  then show ?thesis using False assms by (simp add: maxCap_def)
qed

lemma shrinkIfExcess_ok:
  assumes "ring z q xs"
  shows "\<exists>q'. shrinkIfExcess z q = Return q' \<and> ring z q' xs"
proof (cases "int (length (buf q)) > minCap q \<and> count q * 4 = int (length (buf q))")
  case True
  have c: "count q = int (length xs)" by (rule ringD(1)[OF assms])
  have ne: "xs \<noteq> []" using True c ring_nonempty [OF assms] by auto
  obtain k where k: "int (length (buf q)) = 2 ^ k" using ringD(5)[OF assms] by (auto simp: is_cap_def is_pow2_def)
  have kk: "count q * 4 = 2 ^ k" using True k by simp
  have "k \<noteq> 0"
  proof
    assume "k = 0"
    then have "count q * 4 = 1" using kk by simp
    then show False by presburger
  qed
  moreover have "k \<noteq> 1"
  proof
    assume "k = 1"
    then have "count q * 4 = 2" using kk by simp
    then show False by presburger
  qed
  ultimately obtain j where "k = Suc (Suc j)" by (metis One_nat_def not0_implies_Suc)
  then have "count q * 2 = 2 ^ Suc j" using kk by simp
  then have "is_pow2 (count q * 2)" unfolding is_pow2_def by blast
  moreover have le: "count q * 2 \<le> maxCap" using True is_cap_le [OF ringD(5)[OF assms]] c by linarith
  ultimately have p: "is_cap (count q * 2)" by (simp add: is_cap_def)
  have i: "int64 (count q * 2) = count q * 2" "int64 (count q * 4) = count q * 4"
    using le c True is_cap_le [OF ringD(5)[OF assms]] by (auto simp: maxCap_def intro!: int64_id)
  have "int (length xs) < count q * 2" using c ne by simp
  then show ?thesis using ring_resize [OF assms ne p] True i by (auto simp: shrinkIfExcess_def)
next
  case False
  have "int64 (count q * 4) = int (length (buf q)) \<longleftrightarrow> count q * 4 = int (length (buf q))"
    using ringD(1,2)[OF assms] is_cap_pos [OF ringD(5)[OF assms]] is_cap_le [OF ringD(5)[OF assms]]
    by (intro int64_quarter) simp_all
  then have "shrinkIfExcess z q = Return q" using False unfolding shrinkIfExcess_def by (auto simp del: int64_def)
  then show ?thesis using assms by blast
qed

lemma ring_represents: "ring z q xs \<Longrightarrow> represents z q xs"
  by (simp add: ring_iff ring_nonempty)

lemma represents_ring: "represents z q xs \<Longrightarrow> xs \<noteq> [] \<Longrightarrow> ring z q xs"
  by (cases "buf q = []") (simp_all add: represents_Nil_buf ring_iff)

lemma PushBack_ok:
  assumes "represents z q xs" "int (length xs) < maxCap"
  shows "\<exists>q'. PushBack z q x = Return q' \<and> represents z q' (xs @ [x])"
proof -
  obtain q1 where q1: "growIfFull z q = Return q1" "ring z q1 xs" "length xs < length (buf q1)"
    using growIfFull_ok [OF assms] by blast
  obtain b where "idx_set (buf q1) (tail q1) x = Return b"
      "ring z (q1\<lparr>buf := b, tail := next_pos q1 (tail q1), count := count q1 + 1\<rparr>) (xs @ [x])"
    using ring_push_back [OF q1(2,3)] by blast
  then show ?thesis using q1 by (auto simp: PushBack_def intro: ring_represents)
qed

lemma push_full:
  assumes "represents z q xs" "int (length xs) = maxCap"
  shows "PushBack z q x = Panic ''makeslice: len out of range''" "PushFront z q x = Panic ''makeslice: len out of range''"
  using growIfFull_full [OF assms] by (simp_all add: PushBack_def PushFront_def)

lemma PushFront_ok:
  assumes "represents z q xs" "int (length xs) < maxCap"
  shows "\<exists>q'. PushFront z q x = Return q' \<and> represents z q' (x # xs)"
proof -
  obtain q1 where q1: "growIfFull z q = Return q1" "ring z q1 xs" "length xs < length (buf q1)"
    using growIfFull_ok [OF assms] by blast
  obtain b where "idx_set (buf q1) (prev_pos q1 (head q1)) x = Return b"
      "ring z (q1\<lparr>head := prev_pos q1 (head q1), buf := b, count := count q1 + 1\<rparr>) (x # xs)"
    using ring_push_front [OF q1(2,3)] by blast
  then show ?thesis using q1 by (auto simp: PushFront_def Let_def intro!: ring_represents)
qed

lemma PopFront_ok:
  assumes "represents z q (x # xs)"
  shows "\<exists>q'. PopFront z q = Return (x, q') \<and> represents z q' xs"
proof -
  have r: "ring z q (x # xs)" using assms by (rule represents_ring) simp
  obtain b where b: "idx_set (buf q) (head q) z = Return b"
      "ring z (q\<lparr>buf := b, head := next_pos q (head q), count := count q - 1\<rparr>) xs"
    using ring_pop_front(2)[OF r] by blast
  obtain q' where "shrinkIfExcess z (q\<lparr>buf := b, head := next_pos q (head q), count := count q - 1\<rparr>) = Return q'"
      "ring z q' xs" using shrinkIfExcess_ok [OF b(2)] by blast
  then show ?thesis using represents_count [OF assms] ring_pop_front(1)[OF r] b(1)
    by (auto simp: PopFront_def intro: ring_represents)
qed

lemma PopBack_ok:
  assumes "represents z q (xs @ [x])"
  shows "\<exists>q'. PopBack z q = Return (x, q') \<and> represents z q' xs"
proof -
  have r: "ring z q (xs @ [x])" using assms by (rule represents_ring) simp
  obtain b where b: "idx_set (buf q) (prev_pos q (tail q)) z = Return b"
      "ring z (q\<lparr>tail := prev_pos q (tail q), buf := b, count := count q - 1\<rparr>) xs"
    using ring_pop_back(2)[OF r] by blast
  obtain q' where "shrinkIfExcess z (q\<lparr>tail := prev_pos q (tail q), buf := b, count := count q - 1\<rparr>) = Return q'"
      "ring z q' xs" using shrinkIfExcess_ok [OF b(2)] by blast
  then show ?thesis using represents_count [OF assms] ring_pop_back(1)[OF r] b(1)
    by (auto simp: PopBack_def Let_def intro: ring_represents)
qed

section \<open>Access by index\<close>

lemma ring_slot_eq: "ring z q xs \<Longrightarrow> (head q + i) AND (int (length (buf q)) - 1) = (head q + i) mod int (length (buf q))"
  by (rule ring_posn(1))

lemma ring_set:
  assumes r: "ring z q xs" and i: "0 \<le> i" "i < int (length xs)"
  shows "\<exists>b. idx_set (buf q) ((head q + i) mod int (length (buf q))) v = Return b \<and>
             length b = length (buf q) \<and> ring z (q\<lparr>buf := b\<rparr>) (xs[nat i := v])"
proof -
  have iL: "i < int (length (buf q))" using i ringD(2)[OF r] by linarith
  let ?b = "(buf q)[(nat (head q) + nat i) mod length (buf q) := v]"
  have "rotate (nat (head q)) ?b = xs[nat i := v] @ replicate (length (buf q) - length (xs[nat i := v])) z"
    using ring_set_view(2)[OF r i(1) iL, of v] i by (simp add: list_update_append nat_less_iff)
  then have "ring z (q\<lparr>buf := ?b\<rparr>) (xs[nat i := v])"
    using ringD[OF r] unfolding ring_def by simp
  then show ?thesis using ring_set_view(1)[OF r i(1) iL, of v] by auto
qed

lemma ring_swap:
  assumes r: "ring z q xs" and i: "0 \<le> i" "i < int (length xs)" and j: "0 \<le> j" "j < int (length xs)"
  shows "\<exists>b. idx_swap (buf q) ((head q + i) mod int (length (buf q))) ((head q + j) mod int (length (buf q))) = Return b \<and>
             length b = length (buf q) \<and> ring z (q\<lparr>buf := b\<rparr>) (xs[nat i := xs ! nat j, nat j := xs ! nat i])"
proof -
  obtain b1 where b1: "idx_set (buf q) ((head q + i) mod int (length (buf q))) (xs ! nat j) = Return b1"
      "length b1 = length (buf q)" "ring z (q\<lparr>buf := b1\<rparr>) (xs[nat i := xs ! nat j])"
    using ring_set [OF r i] by blast
  obtain b2 where b2: "idx_set b1 ((head q + j) mod int (length (buf q))) (xs ! nat i) = Return b2"
      "length b2 = length (buf q)" "ring z (q\<lparr>buf := b2\<rparr>) (xs[nat i := xs ! nat j, nat j := xs ! nat i])"
    using ring_set [OF b1(3), of j "xs ! nat i"] j b1(2) by auto
  show ?thesis
    using b2 by (simp add: idx_swap_def ring_get [OF r i] ring_get [OF r j] b1(1))
qed

lemma swap_adjacent:
  "(ys @ a # b # cs)[Suc (length ys) := (ys @ a # b # cs) ! length ys,
                     length ys := (ys @ a # b # cs) ! Suc (length ys)] = ys @ b # a # cs"
  by (induction ys) auto

lemma swap_next_ok:
  assumes "ring z q (as @ x # bs @ cs)"
  shows "\<exists>q'. swap_next (length bs) ((head q + int (length as)) mod int (length (buf q))) q = Return q'
              \<and> ring z q' (as @ bs @ x # cs)"
  using assms
proof (induction bs arbitrary: as q)
  case Nil
  then show ?case by simp
next
  case (Cons b bs)
  let ?L = "int (length (buf q))" and ?n = "int (length as)"
  let ?xs = "as @ x # (b # bs) @ cs"
  have r: "ring z q ?xs" by (rule Cons.prems)
  obtain bu where bu: "idx_swap (buf q) ((head q + ?n) mod ?L) ((head q + (?n + 1)) mod ?L) = Return bu"
      "length bu = length (buf q)"
      "ring z (q\<lparr>buf := bu\<rparr>) (?xs[nat ?n := ?xs ! nat (?n + 1), nat (?n + 1) := ?xs ! nat ?n])"
    using ring_swap [OF r, of ?n "?n + 1"] by auto
  have "?xs[nat ?n := ?xs ! nat (?n + 1), nat (?n + 1) := ?xs ! nat ?n] = (as @ [b]) @ x # bs @ cs"
    by (simp add: nat_add_distrib list_update_append nth_append)
  then have r': "ring z (q\<lparr>buf := bu\<rparr>) ((as @ [b]) @ x # bs @ cs)" using bu(3) by simp
  have "next_pos q ((head q + ?n) mod ?L) = (head q + (?n + 1)) mod ?L"
    unfolding ring_posn(2)[OF r] add.assoc [symmetric] by (rule mod_add_left_eq)
  then show ?case using bu(1,2) Cons.IH [OF r'] by (simp add: add.assoc add.commute)
qed

lemma swap_prev_ok:
  assumes "ring z q (as @ bs @ x # cs)"
  shows "\<exists>q'. swap_prev (length bs) ((head q + int (length as + length bs)) mod int (length (buf q))) q = Return q'
              \<and> ring z q' (as @ x # bs @ cs)"
  using assms
proof (induction bs arbitrary: cs q rule: rev_induct)
  case Nil
  then show ?case by simp
next
  case (snoc b bs)
  let ?L = "int (length (buf q))" and ?n = "int (length as + length bs)"
  let ?xs = "as @ (bs @ [b]) @ x # cs"
  have r: "ring z q ?xs" by (rule snoc.prems)
  obtain bu where bu: "idx_swap (buf q) ((head q + (?n + 1)) mod ?L) ((head q + ?n) mod ?L) = Return bu"
      "length bu = length (buf q)"
      "ring z (q\<lparr>buf := bu\<rparr>) (?xs[nat (?n + 1) := ?xs ! nat ?n, nat ?n := ?xs ! nat (?n + 1)])"
    using ring_swap [OF r, of "?n + 1" ?n] by auto
  have n: "nat ?n = length (as @ bs)" "nat (?n + 1) = Suc (length (as @ bs))" by auto
  have "?xs[nat (?n + 1) := ?xs ! nat ?n, nat ?n := ?xs ! nat (?n + 1)] = as @ bs @ x # (b # cs)"
    using swap_adjacent [of "as @ bs" b x cs] unfolding n by simp
  then have r': "ring z (q\<lparr>buf := bu\<rparr>) (as @ bs @ x # (b # cs))" using bu(3) by simp
  have "prev_pos q ((head q + (?n + 1)) mod ?L) = (head q + ?n) mod ?L"
  proof -
    have "((head q + (?n + 1)) mod ?L - 1) mod ?L = ((head q + (?n + 1)) - 1) mod ?L" by (rule mod_diff_left_eq)
    then show ?thesis unfolding ring_posn(3)[OF r] by (simp add: algebra_simps)
  qed
  then show ?case using bu(1,2) snoc.IH [OF r'] by (simp add: add.assoc add.commute)
qed

lemma represents_ring_at:
  "represents z q xs \<Longrightarrow> 0 \<le> i \<Longrightarrow> i < int (length xs) \<Longrightarrow> ring z q xs"
  by (rule represents_ring) auto

lemma represents_range: "represents z q xs \<Longrightarrow> checkRange q i =
   (if 0 \<le> i \<and> i < int (length xs) then Return () else Panic (range_text i (int (length xs))))"
  by (simp add: checkRange_def represents_count)

lemma At_ok:
  assumes "represents z q xs"
  shows "At q i = (if 0 \<le> i \<and> i < int (length xs) then Return (xs ! nat i)
                   else Panic (range_text i (int (length xs))))"
proof (cases "0 \<le> i \<and> i < int (length xs)")
  case True
  then have "ring z q xs" using represents_ring_at [OF assms] by blast
  then show ?thesis using True
    by (simp add: At_def represents_range [OF assms] ring_posn(1) ring_get)
next
  case False
  then show ?thesis by (auto simp: At_def represents_range [OF assms])
qed

lemma Set_ok:
  assumes "represents z q xs" "0 \<le> i" "i < int (length xs)"
  shows "\<exists>q'. Set q i v = Return q' \<and> represents z q' (xs[nat i := v])"
proof -
  have r: "ring z q xs" using assms(1-3) by (rule represents_ring_at)
  obtain b where "idx_set (buf q) ((head q + i) mod int (length (buf q))) v = Return b"
      "ring z (q\<lparr>buf := b\<rparr>) (xs[nat i := v])" using ring_set [OF r assms(2,3)] by blast
  then show ?thesis using assms(2,3)
    by (simp add: Set_def represents_range [OF assms(1)] ring_posn(1)[OF r] ring_represents)
qed

lemma Swap_ok:
  assumes "represents z q xs" "0 \<le> i" "i < int (length xs)" "0 \<le> j" "j < int (length xs)"
  shows "\<exists>q'. Swap q i j = Return q' \<and> represents z q' (xs[nat i := xs ! nat j, nat j := xs ! nat i])"
proof (cases "i = j")
  case True
  then show ?thesis using assms by (simp add: Swap_def represents_range [OF assms(1)])
next
  case False
  have r: "ring z q xs" using assms(1-3) by (rule represents_ring_at)
  obtain b where "idx_swap (buf q) ((head q + i) mod int (length (buf q))) ((head q + j) mod int (length (buf q))) = Return b"
      "ring z (q\<lparr>buf := b\<rparr>) (xs[nat i := xs ! nat j, nat j := xs ! nat i])"
    using ring_swap [OF r assms(2-5)] by blast
  then show ?thesis using assms(2-5) False
    by (simp add: Swap_def Let_def represents_range [OF assms(1)] ring_posn(1)[OF r] ring_represents)
qed

lemma Front_ok: "represents z q (x # xs) \<Longrightarrow> Front q = Return x"
  using represents_count [of z q "x # xs"] ring_pop_front(1)[OF represents_ring [of z q "x # xs"]]
  by (simp add: Front_def)

lemma Back_ok: "represents z q (xs @ [x]) \<Longrightarrow> Back q = Return x"
  using represents_count [of z q "xs @ [x]"] ring_pop_back(1)[OF represents_ring [of z q "xs @ [x]"]]
  by (simp add: Back_def)

lemma empty_panics:
  assumes "represents z q []"
  shows "PopFront z q = Panic ''deque: PopFront() called on empty queue''"
    and "PopBack z q = Panic ''deque: PopBack() called on empty queue''"
    and "Front q = Panic ''deque: Front() called when empty''"
    and "Back q = Panic ''deque: Back() called when empty''"
  using represents_count [OF assms] by (simp_all add: PopFront_def PopBack_def Front_def Back_def)

lemma index_loop_ok:
  assumes r: "ring z q (ys @ xs)"
  shows "index_loop q f (length xs) (int (length ys)) =
     Return (let k = length (takeWhile (\<lambda>x. \<not> f x) xs)
             in if k < length xs then int (length ys + k) else - 1)"
  using r
proof (induction xs arbitrary: ys)
  case Nil
  then show ?case by simp
next
  case (Cons x xs)
  have g: "idx_get (buf q) ((head q + int (length ys)) mod int (length (buf q))) = Return x"
    using ring_get [OF Cons.prems, of "int (length ys)"] by simp
  have "ring z q ((ys @ [x]) @ xs)" using Cons.prems by simp
  from Cons.IH [OF this] show ?case
    by (simp add: ring_posn(1)[OF Cons.prems] g Let_def add.commute)
qed

lemma Index_ok:
  assumes "represents z q xs"
  shows "Index (Some q) f = Return (let k = length (takeWhile (\<lambda>x. \<not> f x) xs)
             in if k < length xs then int k else - 1)"
proof (cases "xs = []")
  case True
  then show ?thesis using represents_count [OF assms] by (simp add: Index_def)
next
  case False
  have "ring z q ([] @ xs)" using represents_ring [OF assms False] by simp
  from index_loop_ok [OF this, of f] show ?thesis
    using represents_count [OF assms] False by (simp add: Index_def Let_def)
qed

lemma rindex_loop_ok:
  assumes r: "ring z q (xs @ ys)"
  shows "rindex_loop q f (length xs) =
     Return (let k = length (takeWhile (\<lambda>x. \<not> f x) (rev xs))
             in int (length xs) - 1 - int k)"
  using r
proof (induction xs arbitrary: ys rule: rev_induct)
  case Nil
  then show ?case by simp
next
  case (snoc x xs)
  have g: "idx_get (buf q) ((head q + int (length xs)) mod int (length (buf q))) = Return x"
    using ring_get [OF snoc.prems, of "int (length xs)"] by simp
  have "ring z q (xs @ (x # ys))" using snoc.prems by simp
  from snoc.IH [OF this] show ?case
    by (simp add: ring_posn(1)[OF snoc.prems] g Let_def)
qed

lemma RIndex_ok:
  assumes "represents z q xs"
  shows "RIndex (Some q) f = Return (int (length xs) - 1 - int (length (takeWhile (\<lambda>x. \<not> f x) (rev xs))))"
proof (cases "xs = []")
  case True
  then show ?thesis using represents_count [OF assms] by (simp add: RIndex_def)
next
  case False
  have "ring z q (xs @ [])" using represents_ring [OF assms False] by simp
  from rindex_loop_ok [OF this, of f] show ?thesis
    using represents_count [OF assms] False by (simp add: RIndex_def Let_def)
qed

section \<open>Insertion, removal and rotation\<close>

lemma Insert_ok:
  assumes rep: "represents z q xs" "int (length xs) < maxCap" and i: "0 \<le> i" "i \<le> int (length xs)"
  shows "\<exists>q'. Insert z q i x = Return q' \<and> represents z q' (take (nat i) xs @ x # drop (nat i) xs)"
proof -
  have c: "count q = int (length xs)" by (rule represents_count [OF rep(1)])
  consider "i = 0" | "i = int (length xs)" "i \<noteq> 0" | "0 < i" "i < int (length xs)" "i * 2 < count q"
    | "0 < i" "i < int (length xs)" "\<not> i * 2 < count q"
    using i by linarith
  then show ?thesis
  proof cases
    case 1
    then show ?thesis using PushFront_ok [OF rep, of x] by (simp add: Insert_def)
  next
    case 2
    then show ?thesis using PushBack_ok [OF rep, of x] c by (simp add: Insert_def)
  next
    case 3
    let ?as = "take (nat i) xs" and ?cs = "drop (nat i) xs"
    have len: "min (length xs) (nat i) = nat i" using 3 by simp
    obtain q1 where q1: "PushFront z q x = Return q1" "represents z q1 (x # xs)"
      using PushFront_ok [OF rep] by blast
    have "ring z q1 ([] @ x # ?as @ ?cs)" using represents_ring [OF q1(2)] by simp
    from swap_next_ok [OF this] obtain q2 where
      "swap_next (nat i) ((head q1 + 0) mod int (length (buf q1))) q1 = Return q2" "ring z q2 (?as @ x # ?cs)"
      by (auto simp: len)
    moreover have "(head q1 + 0) mod int (length (buf q1)) = head q1"
      using ringD(3,4)[OF represents_ring [OF q1(2)]] by simp
    ultimately show ?thesis using 3 q1(1) c by (auto simp: Insert_def intro: ring_represents)
  next
    case 4
    let ?as = "take (nat i) xs" and ?bs = "drop (nat i) xs"
    have len: "length ?bs = nat (count q - i)" "length ?as + nat (count q - i) = length xs"
      using 4 c by auto
    obtain q1 where q1: "PushBack z q x = Return q1" "represents z q1 (xs @ [x])"
      using PushBack_ok [OF rep] by blast
    have r: "ring z q1 (?as @ ?bs @ x # [])"
      using represents_ring [OF q1(2)] by (simp flip: append_assoc)
    have r1: "ring z q1 (xs @ [x])" using represents_ring [OF q1(2)] by simp
    have p: "prev_pos q1 (tail q1) = (head q1 + int (length xs)) mod int (length (buf q1))"
    proof -
      have "((head q1 + int (length (xs @ [x]))) mod int (length (buf q1)) - 1) mod int (length (buf q1))
        = (head q1 + int (length (xs @ [x])) - 1) mod int (length (buf q1))" by (rule mod_diff_left_eq)
      then show ?thesis unfolding ring_posn(3)[OF r1] ringD(7)[OF r1] by simp
    qed
    from swap_prev_ok [OF r] obtain q2 where
      "swap_prev (nat (count q - i)) (prev_pos q1 (tail q1)) q1 = Return q2" "ring z q2 (?as @ x # ?bs @ [])"
      unfolding len p by blast
    then show ?thesis using 4 q1(1) c by (auto simp: Insert_def intro: ring_represents)
  qed
qed

lemma Insert_clamps:
  "i \<le> 0 \<Longrightarrow> Insert z q i x = PushFront z q x"
  "0 < i \<Longrightarrow> count q \<le> i \<Longrightarrow> Insert z q i x = PushBack z q x"
  by (simp_all add: Insert_def)

lemma Remove_ok:
  assumes rep: "represents z q xs" and i: "0 \<le> i" "i < int (length xs)"
  shows "\<exists>q'. Remove z q i = Return (xs ! nat i, q') \<and> represents z q' (take (nat i) xs @ drop (Suc (nat i)) xs)"
proof -
  have c: "count q = int (length xs)" by (rule represents_count [OF rep])
  have r: "ring z q xs" using rep i by (rule represents_ring_at)
  let ?as = "take (nat i) xs" and ?x = "xs ! nat i" and ?cs = "drop (Suc (nat i)) xs"
  have split: "xs = ?as @ ?x # ?cs" using i by (simp add: id_take_nth_drop nat_less_iff)
  have len: "length ?as = nat i" "length ?cs = nat (count q - i - 1)" using i c by auto
  show ?thesis
  proof (cases "i * 2 < count q")
    case True
    have "ring z q ([] @ ?as @ ?x # ?cs)" using r split by simp
    from swap_prev_ok [OF this] obtain q1 where
      q1: "swap_prev (nat i) ((head q + i) mod int (length (buf q))) q = Return q1" "ring z q1 (?x # ?as @ ?cs)"
      using i len by auto
    obtain q2 where "PopFront z q1 = Return (?x, q2)" "represents z q2 (?as @ ?cs)"
      using PopFront_ok [OF ring_represents [OF q1(2)]] by blast
    then show ?thesis using True i q1(1)
      by (simp add: Remove_def represents_range [OF rep] ring_posn(1)[OF r])
  next
    case False
    have "ring z q (?as @ ?x # ?cs @ [])" using r split by simp
    from swap_next_ok [OF this] obtain q1 where
      q1: "swap_next (nat (count q - i - 1)) ((head q + i) mod int (length (buf q))) q = Return q1"
          "ring z q1 ((?as @ ?cs) @ [?x])"
      using i len by auto
    obtain q2 where "PopBack z q1 = Return (?x, q2)" "represents z q2 (?as @ ?cs)"
      using PopBack_ok [OF ring_represents [OF q1(2)]] by blast
    then show ?thesis using False i q1(1)
      by (simp add: Remove_def represents_range [OF rep] ring_posn(1)[OF r])
  qed
qed

lemma rotate_front_ok:
  assumes "ring z q xs" "xs \<noteq> []" "length xs < length (buf q)"
  shows "\<exists>q'. rotate_front z k q = Return q' \<and> ring z q' (rotate k xs)"
  using assms
proof (induction k arbitrary: q xs)
  case 0
  then show ?case by simp
next
  case (Suc k)
  obtain y ys where xs: "xs = y # ys" using Suc.prems(2) by (cases xs) auto
  have r: "ring z q (y # ys)" using Suc.prems(1) xs by simp
  obtain b where b: "idx_set (buf q) (tail q) y = Return b"
      "ring z (q\<lparr>buf := b, tail := next_pos q (tail q), count := count q + 1\<rparr>) (y # ys @ [y])"
    using ring_push_back [OF Suc.prems(1,3), of y] xs by auto
  have lb: "length b = length (buf q)" using b(1) by (auto simp: idx_set_def split: if_splits)
  let ?q1 = "q\<lparr>buf := b, tail := next_pos q (tail q), count := count q + 1\<rparr>"
  obtain b' where b': "idx_set b (head q) z = Return b'"
      "ring z (?q1\<lparr>buf := b', head := next_pos ?q1 (head ?q1), count := count ?q1 - 1\<rparr>) (ys @ [y])"
    using ring_pop_front(2)[OF b(2)] by auto
  have lb': "length b' = length b" using b'(1) by (auto simp: idx_set_def split: if_splits)
  let ?q2 = "q\<lparr>buf := b', head := (head q + 1) AND (int (length (buf q)) - 1),
                 tail := (tail q + 1) AND (int (length (buf q)) - 1)\<rparr>"
  have "?q1\<lparr>buf := b', head := next_pos ?q1 (head ?q1), count := count ?q1 - 1\<rparr> = ?q2"
    by (simp add: next_pos_def lb)
  then have r2: "ring z ?q2 (rotate1 xs)" using b'(2) xs by simp
  have "rotate1 xs \<noteq> []" "length (rotate1 xs) < length (buf ?q2)" using Suc.prems(2,3) lb lb' by auto
  from Suc.IH [OF r2 this] obtain q' where "rotate_front z k ?q2 = Return q'" "ring z q' (rotate k (rotate1 xs))"
    by blast
  then show ?case using ring_pop_front(1)[OF r] b(1) b'(1)
    by (simp add: Let_def rotate1_rotate_swap)
qed

lemma rotate_back_ok:
  assumes "ring z q xs" "xs \<noteq> []" "length xs < length (buf q)"
  shows "\<exists>q' ys. rotate_back z k q = Return q' \<and> ring z q' ys \<and> rotate k ys = xs"
  using assms
proof (induction k arbitrary: q xs)
  case 0
  then show ?case by simp
next
  case (Suc k)
  obtain y ys where xs: "xs = ys @ [y]" using Suc.prems(2) by (cases xs rule: rev_cases) auto
  have r: "ring z q (ys @ [y])" using Suc.prems(1) xs by simp
  obtain b where b: "idx_set (buf q) (prev_pos q (head q)) y = Return b"
      "ring z (q\<lparr>head := prev_pos q (head q), buf := b, count := count q + 1\<rparr>) ((y # ys) @ [y])"
    using ring_push_front [OF Suc.prems(1,3), of y] xs by auto
  have lb: "length b = length (buf q)" using b(1) by (auto simp: idx_set_def split: if_splits)
  let ?q1 = "q\<lparr>head := prev_pos q (head q), buf := b, count := count q + 1\<rparr>"
  obtain b' where b': "idx_set b (prev_pos q (tail q)) z = Return b'"
      "ring z (?q1\<lparr>tail := prev_pos ?q1 (tail ?q1), buf := b', count := count ?q1 - 1\<rparr>) (y # ys)"
    using ring_pop_back(2)[OF b(2)] by (auto simp: prev_pos_def lb)
  have lb': "length b' = length b" using b'(1) by (auto simp: idx_set_def split: if_splits)
  let ?q0 = "q\<lparr>head := prev_pos q (head q), tail := prev_pos q (tail q)\<rparr>"
  have "?q1\<lparr>tail := prev_pos ?q1 (tail ?q1), buf := b', count := count ?q1 - 1\<rparr> = ?q0\<lparr>buf := b'\<rparr>"
    by (simp add: prev_pos_def lb)
  then have r2: "ring z (?q0\<lparr>buf := b'\<rparr>) (y # ys)" using b'(2) by simp
  have "y # ys \<noteq> []" "length (y # ys) < length (buf (?q0\<lparr>buf := b'\<rparr>))" using Suc.prems(3) lb lb' xs by auto
  from Suc.IH [OF r2 this] obtain q' ws where
    "rotate_back z k (?q0\<lparr>buf := b'\<rparr>) = Return q'" "ring z q' ws" "rotate k ws = y # ys"
    by blast
  moreover have "rotate_back z (Suc k) q = rotate_back z k (?q0\<lparr>buf := b'\<rparr>)"
    using ring_pop_back(1)[OF r] b(1) b'(1) by (simp add: Let_def prev_pos_def)
  ultimately show ?case using xs by auto
qed

lemma go_rem_mod:
  assumes "0 < c"
  shows "0 \<le> n \<Longrightarrow> go_rem n c = n mod c"
    and "n < 0 \<Longrightarrow> go_rem n c = (if n mod c = 0 then 0 else n mod c - c)"
    and "go_rem n c mod c = n mod c"
proof -
  show "0 \<le> n \<Longrightarrow> go_rem n c = n mod c" using assms by (simp add: go_rem_def)
  show neg: "n < 0 \<Longrightarrow> go_rem n c = (if n mod c = 0 then 0 else n mod c - c)"
    using assms by (simp add: go_rem_def zmod_zminus1_eq_if)
  show "go_rem n c mod c = n mod c"
    using assms neg by (cases "0 \<le> n") (auto simp: go_rem_def)
qed

lemma rotate_inverse:
  assumes "rotate k ys = xs" "k \<le> length xs"
  shows "ys = rotate (length xs - k) xs"
proof -
  have l: "length ys = length xs" using assms(1) by auto
  have "rotate (length xs - k) xs = rotate (length xs - k + k) ys"
    using assms(1) by (simp add: rotate_rotate [symmetric])
  also have "\<dots> = ys" using assms(2) l by simp
  finally show ?thesis by simp
qed

lemma ring_full_iff:
  assumes rg: "ring z q xs" and ne: "xs \<noteq> []"
  shows "head q = tail q \<longleftrightarrow> length xs = length (buf q)"
proof
  let ?L = "int (length (buf q))"
  show "head q = tail q" if "length xs = length (buf q)"
    using that ringD(3,4,7)[OF rg] by simp
  show "length xs = length (buf q)" if eq: "head q = tail q"
  proof (rule ccontr)
    assume "length xs \<noteq> length (buf q)"
    then have lt: "int (length xs) < ?L" using ringD(2)[OF rg] by simp
    have "head q = (head q + int (length xs)) mod ?L" using eq ringD(7)[OF rg] by simp
    then have "?L dvd int (length xs)"
      using ringD(3,4)[OF rg] by (metis add_diff_cancel_left' mod_eq_dvd_iff mod_pos_pos_trivial)
    then show False using lt ne by (auto dest: zdvd_imp_le)
  qed
qed

lemma ring_rotate_full:
  assumes rg: "ring z q xs" and full: "length xs = length (buf q)"
  shows "ring z (q\<lparr>head := (head q + r) AND (int (length (buf q)) - 1),
                   tail := (head q + r) AND (int (length (buf q)) - 1)\<rparr>)
              (rotate (nat (r mod int (length xs))) xs)"
proof -
  let ?L = "int (length (buf q))" and ?m = "r mod int (length xs)"
  let ?h = "(head q + r) AND (?L - 1)"
  have ne: "buf q \<noteq> []" by (rule ring_nonempty [OF rg])
  have h: "?h = (head q + ?m) mod ?L"
    unfolding ring_posn(1)[OF rg] full by (rule mod_add_right_eq [symmetric])
  have m0: "0 \<le> ?m" using ne full by simp
  have "rotate (nat ?h) (buf q) = rotate (nat ?m) (rotate (nat (head q)) (buf q))"
    unfolding h using rotate_head_add [OF ringD(3)[OF rg] m0 ne] .
  then have view: "rotate (nat ?h) (buf q) = rotate (nat ?m) xs"
    using ringD(8)[OF rg] full by simp
  have hb: "0 \<le> ?h" "?h < ?L" using ne by (auto simp: h)
  have "(?h + count q) mod ?L = ?h" using ringD(1)[OF rg] full hb by simp
  then show ?thesis using ringD(1,5,6)[OF rg] hb full view unfolding ring_def by simp
qed

lemma Rotate_ok:
  assumes rep: "represents z q xs"
  shows "\<exists>q'. Rotate z q n = Return q' \<and> represents z q' (rotate (nat (n mod int (length xs))) xs)"
proof -
  have c: "count q = int (length xs)" by (rule represents_count [OF rep])
  define m r where "m = n mod int (length xs)" and "r = go_rem n (count q)"
  show ?thesis
  proof (cases "length xs \<le> 1")
    case True
    then show ?thesis using rep c by (simp add: Rotate_def rotate_length01)
  next
    case False
    then have ne: "xs \<noteq> []" and c0: "0 < count q" using c by auto
    have rg: "ring z q xs" by (rule represents_ring [OF rep ne])
    have mb: "0 \<le> m" "m < count q" using ne c by (auto simp: m_def)
    have rm: "r mod int (length xs) = m" using go_rem_mod(3)[OF c0, of n] c by (simp add: r_def m_def)
    have rc: "r = (if 0 \<le> n then m else if m = 0 then 0 else m - count q)"
      using go_rem_mod(1,2)[OF c0, of n] c by (auto simp: r_def m_def)
    have room: "length xs < length (buf q)" if "head q \<noteq> tail q"
      using that ring_full_iff [OF rg ne] ringD(2)[OF rg] by simp
    consider "r = 0" | "r \<noteq> 0" "head q = tail q" | "r < 0" "head q \<noteq> tail q" | "0 < r" "head q \<noteq> tail q"
      by linarith
    then have "\<exists>q'. Rotate z q n = Return q' \<and> represents z q' (rotate (nat m) xs)"
    proof cases
      case 1
      then show ?thesis using rep c False rm by (simp add: Rotate_def r_def Let_def)
    next
      case 2
      then show ?thesis using ring_rotate_full [OF rg, of r] ring_full_iff [OF rg ne] c False rm
        by (auto simp: Rotate_def Let_def r_def intro: ring_represents)
    next
      case 3
      obtain q' ys where q': "rotate_back z (nat (- r)) q = Return q'" "ring z q' ys" "rotate (nat (- r)) ys = xs"
        using rotate_back_ok [OF rg ne room [OF 3(2)]] by blast
      have "r = m - count q" using rc 3 mb by (auto split: if_splits)
      then have "ys = rotate (nat m) xs"
        using rotate_inverse [OF q'(3)] mb c by (simp add: nat_diff_distrib)
      then show ?thesis using 3 c False q' by (auto simp: Rotate_def Let_def r_def intro: ring_represents)
    next
      case 4
      have "r = m" using rc 4 mb by (auto split: if_splits)
      then show ?thesis using 4 c False rotate_front_ok [OF rg ne room [OF 4(2)], of "nat r"]
        by (auto simp: Rotate_def Let_def r_def intro: ring_represents)
    qed
    then show ?thesis by (simp add: m_def)
  qed
qed

section \<open>Bulk operations\<close>

lemma zero_segments:
  assumes r: "ring z q xs" and ne: "xs \<noteq> []"
  shows "head q < tail q \<Longrightarrow>
           take (nat (head q)) (buf q) @ replicate (nat (tail q) - nat (head q)) z @ drop (nat (tail q)) (buf q)
             = replicate (length (buf q)) z"
    and "tail q \<le> head q \<Longrightarrow> drop (nat (tail q)) (take (nat (head q)) (buf q))
             = replicate (nat (head q) - nat (tail q)) z"
proof -
  define h t b where "h = nat (head q)" and "t = nat (tail q)" and "b = buf q"
  note seg = ring_segments [OF r ne]
  have hL: "h < length b" "t < length b" "0 \<le> tail q" "0 \<le> head q"
    using ringD(3,4)[OF r] seg(1,2) by (simp_all add: h_def t_def b_def nat_less_iff)
  have "drop h b @ take h b = rotate h b" using hL(1) by (simp add: rotate_drop_take)
  then have rot: "drop h b @ take h b = xs @ replicate (length b - length xs) z"
    using ringD(8)[OF r] by (simp add: h_def b_def)
  {
    assume lt: "head q < tail q"
    have th: "h < t" "nat (tail q - head q) = t - h"
      using lt hL(3,4) by (simp_all add: h_def t_def nat_diff_distrib)
    have "take (t - h) (drop h b) = xs" using seg(3)[OF lt] unfolding th b_def h_def .
    moreover have "drop (t - h) (drop h b) = drop t b" using th(1) by simp
    ultimately have split: "drop h b = xs @ drop t b" by (metis append_take_drop_id)
    have z: "drop t b @ take h b = replicate (length b - length xs) z" using rot split by simp
    have all: "\<forall>x\<in>set (drop t b @ take h b). x = z" unfolding z by simp
    have dt: "drop t b = replicate (length b - t) z" "take h b = replicate h z"
      using all hL(1) by (auto intro!: replicate_eqI)
    have "take h b @ replicate (t - h) z @ drop t b = replicate (length b) z"
      unfolding dt using th(1) hL by (simp flip: replicate_add)
    then show "take (nat (head q)) (buf q) @ replicate (nat (tail q) - nat (head q)) z @ drop (nat (tail q)) (buf q)
             = replicate (length (buf q)) z" by (simp add: h_def t_def b_def)
  }
  {
    assume le: "tail q \<le> head q"
    have th: "t \<le> h" using le by (simp add: h_def t_def)
    have xs: "drop h b @ take t b = xs" using seg(4)[OF le] by (simp add: h_def t_def b_def)
    have "take h b = take t b @ drop t (take h b)"
      using th append_take_drop_id [of t "take h b"] by (simp add: min_def)
    then have "drop h b @ take t b @ drop t (take h b) = xs @ replicate (length b - length xs) z"
      using rot by simp
    then have "drop t (take h b) = replicate (length b - length xs) z" unfolding xs [symmetric] by simp
    then have "\<forall>x\<in>set (drop t (take h b)). x = z" by simp
    then show "drop (nat (tail q)) (take (nat (head q)) (buf q)) = replicate (nat (head q) - nat (tail q)) z"
      using hL(1) by (auto intro!: replicate_eqI simp: h_def t_def b_def)
  }
qed

lemma Clear_ok:
  assumes rep: "represents z q xs"
  shows "\<exists>q'. Clear z q = Return q' \<and> represents z q' [] \<and> length (buf q') = length (buf q) \<and> minCap q' = minCap q"
proof (cases "xs = []")
  case True
  then show ?thesis using rep represents_count [OF rep] by (simp add: Clear_def)
next
  case False
  have r: "ring z q xs" by (rule represents_ring [OF rep False])
  note seg = ring_segments(1,2)[OF r False] and h = ringD(3,4)[OF r]
  let ?q = "q\<lparr>count := 0, head := 0, tail := 0, buf := replicate (length (buf q)) z\<rparr>"
  have rq: "ring z ?q []" using ringD(5,6)[OF r] ring_nonempty [OF r] unfolding ring_def by simp
  have "Clear z q = Return ?q"
  proof (cases "head q < tail q")
    case True
    then have "nat (tail q - head q) = nat (tail q) - nat (head q)" using h by (simp add: nat_diff_distrib)
    then show ?thesis using represents_count [OF rep] False seg h True zero_segments(1)[OF r False True]
      by (simp add: Clear_def Let_def clearSlice_def slice_of_Return)
  next
    case ge: False
    then have le: "tail q \<le> head q" by simp
    let ?h = "nat (head q)" and ?t = "nat (tail q)"
    have c1: "clearSlice z (buf q) (head q) (int (length (buf q)))
        = Return (take ?h (buf q) @ replicate (length (buf q) - ?h) z)"
      using h by (simp add: clearSlice_def slice_of_Return nat_diff_distrib)
    let ?b = "take ?h (buf q) @ replicate (length (buf q) - ?h) z"
    have "?h < length (buf q)" "?t \<le> ?h" using h le by auto
    then have "replicate ?t z @ drop ?t ?b = replicate (length (buf q)) z"
      using zero_segments(2)[OF r False le] by (simp flip: replicate_add)
    moreover have "clearSlice z ?b 0 (tail q) = Return (replicate ?t z @ drop ?t ?b)"
      using seg \<open>?h < length (buf q)\<close> by (simp add: clearSlice_def slice_of_Return)
    ultimately show ?thesis using represents_count [OF rep] False ge c1
      by (simp add: Clear_def Let_def)
  qed
  then show ?thesis using ring_represents [OF rq] by auto
qed

lemma AppendToSlice_ok:
  assumes rep: "represents z q xs"
  shows "AppendToSlice q out = Return (out @ xs)"
proof (cases "xs = []")
  case True
  then show ?thesis using represents_count [OF rep] by (simp add: AppendToSlice_def)
next
  case False
  have r: "ring z q xs" by (rule represents_ring [OF rep False])
  note seg = ring_segments[OF r False] and h = ringD(3,4)[OF r]
  show ?thesis
  proof (cases "head q < tail q")
    case True
    then have "slice_of (buf q) (head q) (tail q) = Return xs"
      using h seg(2) by (simp add: slice_of_Return seg(3))
    then show ?thesis using True False represents_count [OF rep] by (simp add: AppendToSlice_def)
  next
    case ge: False
    then have "slice_of (buf q) (head q) (int (length (buf q))) = Return (drop (nat (head q)) (buf q))"
        "slice_of (buf q) 0 (tail q) = Return (take (nat (tail q)) (buf q))"
      using h seg(1,2) by (simp_all add: slice_of_Return)
    then show ?thesis using ge False represents_count [OF rep] seg(4) by (simp add: AppendToSlice_def)
  qed
qed

lemma CopyOutSlice_ok:
  assumes rep: "represents z q xs"
  shows "CopyOutSlice q out = Return (go_copy out xs)"
proof (cases "xs = [] \<or> out = []")
  case True
  then show ?thesis using represents_count [OF rep] by (auto simp: CopyOutSlice_def go_copy_def)
next
  case False
  then have ne: "xs \<noteq> []" by simp
  have r: "ring z q xs" by (rule represents_ring [OF rep ne])
  note seg = ring_segments[OF r ne] and h = ringD(3,4)[OF r]
  show ?thesis
  proof (cases "head q < tail q")
    case True
    then have "slice_of (buf q) (head q) (tail q) = Return xs"
      using h seg(2) by (simp add: slice_of_Return seg(3))
    then show ?thesis using True False represents_count [OF rep] by (simp add: CopyOutSlice_def)
  next
    case ge: False
    define s1 s2 where "s1 = drop (nat (head q)) (buf q)" and "s2 = take (nat (tail q)) (buf q)"
    have sl: "slice_of (buf q) (head q) (int (length (buf q))) = Return s1"
        "slice_of (buf q) 0 (tail q) = Return s2"
      using h seg(1,2) by (simp_all add: slice_of_Return s1_def s2_def)
    have xs: "xs = s1 @ s2" using ge seg(4) by (simp add: s1_def s2_def)
    have "CopyOutSlice q out = (case go_copy out s1 of (out1, n) \<Rightarrow>
          if length (drop n out1) = 0 then Return (out1, n)
          else (case go_copy (drop n out1) s2 of (out2, n2) \<Rightarrow> Return (take n out1 @ out2, n + n2)))"
      using ge False represents_count [OF rep]
      by (cases "go_copy out s1") (simp add: CopyOutSlice_def sl)
    also have "\<dots> = Return (go_copy out (s1 @ s2))"
      by (cases "length out \<le> length s1") (auto simp: go_copy_def Let_def min_def add.commute)
    finally show ?thesis using xs by simp
  qed
qed

lemma grow_base:
  assumes "represents z q xs"
  shows "is_cap (if Cap (Some q) = 0 then minCapacity else Cap (Some q))"
  using assms ringD(5)[of z q xs] by (cases "buf q = []") (simp_all add: minCapacity_def is_cap_8 ring_iff)

lemma Grow_diverges:
  assumes rep: "represents z q xs" and n: "n < maxCap" "maxCap < int (length xs) + n"
  shows "Grow z q n = Diverges"
proof -
  have c: "count q = int (length xs)" "count q \<le> maxCap" using represents_count [OF rep] represents_bound [OF rep] by simp_all
  have "Cap (Some q) \<le> maxCap" using is_cap_le [OF grow_base [OF rep]] by (auto simp: maxCap_def split: if_splits)
  moreover have "int64 (count q + n) = count q + n" using c n by (intro int64_id) (simp_all add: maxCap_def)
  ultimately show ?thesis using double_until_diverges [OF grow_base [OF rep], of "count q + n"] c n
    by (cases "buf q = []") (simp_all add: Grow_def Let_def)
qed

lemma Grow_ok:
  assumes rep: "represents z q xs" and n: "0 \<le> n" "int (length xs) + n \<le> maxCap"
  shows "\<exists>q'. Grow z q n = Return q' \<and> represents z q' xs \<and> n \<le> Cap (Some q') - Len (Some q') \<and>
            Cap (Some q) \<le> Cap (Some q')"
proof (cases "n \<le> Cap (Some q) - Len (Some q)")
  case True
  then show ?thesis using rep n by (auto simp: Grow_def)
next
  case False
  have cnt: "count q = int (length xs)" by (rule represents_count [OF rep])
  define c1 where "c1 = (if Cap (Some q) = 0 then minCapacity else Cap (Some q))"
  have p1: "is_cap c1" unfolding c1_def by (rule grow_base [OF rep])
  have sum: "int64 (count q + n) = count q + n" using cnt n by (intro int64_id) (simp_all add: maxCap_def)
  obtain c2 where c2: "double_until c1 (count q + n) = Some c2" "count q + n \<le> c2" "c1 \<le> c2" "is_cap c2"
    using double_until_Some [OF p1, of "count q + n"] cnt n by auto
  have cap: "Cap (Some q) \<le> c2" using c2(3) is_cap_pos [OF c2(4)] by (auto simp: c1_def split: if_splits)
  have step: "Grow z q n = (if count q = 0 then obind (make_slice z c2) (\<lambda>b. Return (q\<lparr>buf := b, head := 0, tail := 0\<rparr>))
          else resize z q c2)"
    using False n c2(1) sum unfolding c1_def [symmetric] by (auto simp: Grow_def Let_def c1_def split: if_splits)
  show ?thesis
  proof (cases "xs = []")
    case True
    let ?q = "q\<lparr>buf := replicate (nat c2) z, head := 0, tail := 0\<rparr>"
    have m: "minCap q = 0 \<or> is_cap (minCap q)" using rep by (auto simp: represents_def deque_inv_def)
    have "ring z ?q []" using m cnt True c2(4) is_cap_pos [OF c2(4)] unfolding ring_def by simp
    then show ?thesis using step True cnt c2 is_cap_pos [OF c2(4)] cap
      by (auto simp: make_slice_Return intro: ring_represents)
  next
    case ne: False
    have "int (length xs) < c2"
      using False c2(2) cnt ringD(2)[OF represents_ring [OF rep ne]] by simp
    then obtain q' where "resize z q c2 = Return q'" "ring z q' xs" "length (buf q') = nat c2"
      using ring_resize [OF represents_ring [OF rep ne] ne c2(4)] by blast
    then show ?thesis using step ne cnt c2(2) cap ringD(1)[of z q' xs] by (auto intro: ring_represents)
  qed
qed

lemma represents_loaded:
  assumes "minCap q = 0 \<or> is_cap (minCap q)" "is_cap (int (length b))" "length ys < length b"
    and "b = ys @ replicate (length b - length ys) z"
  shows "represents z (q\<lparr>buf := b, count := int (length ys), tail := int (length ys), head := 0\<rparr>) ys"
proof -
  have "b \<noteq> []" using assms(3) by auto
  then show ?thesis using assms by (intro ring_represents) (simp add: ring_def)
qed

lemma represents_empty_buf:
  assumes "represents z q []"
  shows "buf q = replicate (length (buf q)) z" and "buf q \<noteq> [] \<Longrightarrow> is_cap (int (length (buf q)))"
    and "minCap q = 0 \<or> is_cap (minCap q)"
proof -
  show "buf q \<noteq> [] \<Longrightarrow> is_cap (int (length (buf q)))" using assms ringD(5) by (simp add: ring_iff)
  show "minCap q = 0 \<or> is_cap (minCap q)" using assms by (auto simp: represents_def deque_inv_def)
  show "buf q = replicate (length (buf q)) z"
  proof (cases "buf q = []")
    case False
    then have "rotate (nat (head q)) (buf q) = replicate (length (buf q)) z"
      using assms ringD(8) [of z q "[]"] by (simp add: ring_iff)
    then have "set (buf q) \<subseteq> {z}" by (metis set_replicate_conv_if set_rotate subset_insertI subset_singleton_iff order_refl)
    then show ?thesis by (simp add: replicate_eqI subset_iff)
  qed simp
qed

lemma Copy_ok:
  assumes rep: "represents z q xs" and src: "represents z src ys"
  shows "\<exists>q'. Copy z q src = Return (length ys, q') \<and> length ys \<le> length (buf q') \<and>
           (length ys < length (buf q') \<or> ys = [] \<longrightarrow> represents z q' ys)"
proof -
  obtain q1 where q1: "Clear z q = Return q1" "represents z q1 []" using Clear_ok [OF rep] by blast
  have ys: "count src = int (length ys)" by (rule represents_count [OF src])
  obtain q2 where q2: "Grow z q1 (int (length ys)) = Return q2" "represents z q2 []"
      "int (length ys) \<le> Cap (Some q2) - Len (Some q2)"
    using Grow_ok [OF q1(2), of "int (length ys)"] represents_bound [OF src] by auto
  have len: "length ys \<le> length (buf q2)" using q2(3) represents_count [OF q2(2)] by simp
  note e = represents_empty_buf [OF q2(2)]
  define b where "b = ys @ replicate (length (buf q2) - length ys) z"
  have lb: "length b = length (buf q2)" using len by (simp add: b_def)
  have "go_copy (buf q2) ys = (b, length ys)"
    using len arg_cong [OF e(1), of "drop (length ys)"] by (simp add: go_copy_fits b_def)
  then have res: "Copy z q src
      = Return (length ys, q2\<lparr>buf := b, count := int (length ys), tail := int (length ys), head := 0\<rparr>)"
    using q1(1) q2(1) ys CopyOutSlice_ok [OF src, of "buf q2"] by (simp add: Copy_def)
  have "represents z (q2\<lparr>buf := b, count := int (length ys), tail := int (length ys), head := 0\<rparr>) ys"
    if lt: "length ys < length b"
  proof (rule represents_loaded [OF e(3) _ lt])
    show "is_cap (int (length b))" using lt lb e(2) by (cases "buf q2 = []") simp_all
    show "b = ys @ replicate (length b - length ys) z" using lb by (simp add: b_def)
  qed
  moreover have "represents z (q2\<lparr>buf := b, count := int (length ys), tail := int (length ys), head := 0\<rparr>) ys"
    if "ys = []" "b = []"
    using that e(3) by (simp add: represents_Nil_buf)
  moreover have "length ys < length b" if "ys = []" "b \<noteq> []" using that by simp
  ultimately have "represents z (q2\<lparr>buf := b, count := int (length ys), tail := int (length ys), head := 0\<rparr>) ys"
    if "length ys < length b \<or> ys = []" using that by blast
  note fin = this
  show ?thesis by (intro exI conjI impI, rule res, simp add: len lb, rule fin, simp)
qed

lemma CopyInSlice_ok:
  assumes rep: "represents z q xs" and small: "int (length ys) \<le> maxCap"
  shows "\<exists>q'. CopyInSlice z q ys = Return q' \<and> length ys \<le> length (buf q') \<and>
           (length ys < length (buf q') \<longrightarrow> represents z q' ys)"
proof -
  have m: "minCap q = 0 \<or> is_cap (minCap q)" using rep by (auto simp: represents_def deque_inv_def)
  have fin: "\<exists>q'. (case go_copy (buf q2) ys of (b, n) \<Rightarrow>
          Return (q2\<lparr>buf := b, count := int n, tail := int n, head := 0\<rparr>)) = Return q' \<and>
          length ys \<le> length (buf q') \<and> (length ys < length (buf q') \<longrightarrow> represents z q' ys)"
    if "length ys \<le> length (buf q2)" "minCap q2 = 0 \<or> is_cap (minCap q2)"
      "length ys < length (buf q2) \<longrightarrow> buf q2 = replicate (length (buf q2)) z \<and> is_cap (int (length (buf q2)))"
    for q2 :: "'a deque"
  proof -
    note rm = that
    let ?b = "ys @ drop (length ys) (buf q2)"
    have "represents z (q2\<lparr>buf := ?b, count := int (length ys), tail := int (length ys), head := 0\<rparr>) ys"
      if lt: "length ys < length (buf q2)"
    proof (rule represents_loaded)
      have "drop (length ys) (buf q2) = drop (length ys) (replicate (length (buf q2)) z)"
        using rm(3) lt by simp
      then show "?b = ys @ replicate (length ?b - length ys) z" by simp
    qed (use rm lt in simp_all)
    then show ?thesis using that(1) by (simp add: go_copy_fits)
  qed
  consider "length (buf q) < length ys" | "length ys < length (buf q)" | "length (buf q) = length ys" by linarith
  then show ?thesis
  proof cases
    case 1
    define c0 where "c0 = (if length (buf q) = 0 then minCapacity else int (length (buf q)))"
    define q1 where "q1 = (if length (buf q) = 0 then q\<lparr>minCap := minCapacity\<rparr> else q)"
    have p: "is_cap c0"
      using rep ringD(5)[of z q xs] is_cap_8 by (cases "buf q = []") (auto simp: c0_def minCapacity_def ring_iff)
    obtain c where c: "double_until c0 (int (length ys)) = Some c" "int (length ys) \<le> c" "is_cap c"
      using double_until_Some [OF p small] by auto
    let ?q = "q1\<lparr>buf := replicate (nat c) z\<rparr>"
    have "CopyInSlice z q ys = (case go_copy (buf ?q) ys of (b, n) \<Rightarrow>
          Return (?q\<lparr>buf := b, count := int n, tail := int n, head := 0\<rparr>))"
      using 1 c(1) is_cap_pos [OF c(3)]
      by (simp add: CopyInSlice_def Let_def c0_def [symmetric] q1_def [symmetric] make_slice_Return del: length_0_conv)
    moreover have "minCap ?q = 0 \<or> is_cap (minCap ?q)"
      using m is_cap_8 by (auto simp: q1_def minCapacity_def)
    ultimately show ?thesis using fin [of ?q] c is_cap_pos [OF c(3)] by simp
  next
    case 2
    obtain q1 where q1: "Clear z q = Return q1" "represents z q1 []" "length (buf q1) = length (buf q)"
      using Clear_ok [OF rep] by blast
    have "buf q1 \<noteq> []" using 2 q1(3) by auto
    then show ?thesis using fin [of q1] 2 q1 represents_empty_buf [OF q1(2)]
      by (simp add: CopyInSlice_def)
  next
    case 3
    then show ?thesis using fin [of q] m by (simp add: CopyInSlice_def)
  qed
qed

lemma CopyInSlice_fills:
  assumes "CopyInSlice z q xs = Return q'" "length (buf q') = length xs"
  shows "buf q' = xs" "count q' = int (length xs)" "tail q' = int (length xs)" "head q' = 0"
proof -
  obtain q2 where "q' = q2\<lparr>buf := fst (go_copy (buf q2) xs), count := int (snd (go_copy (buf q2) xs)),
      tail := int (snd (go_copy (buf q2) xs)), head := 0\<rparr>"
    using assms(1) by (auto simp: CopyInSlice_def obind_eq_Return split_beta)
  then show "buf q' = xs" "count q' = int (length xs)" "tail q' = int (length xs)" "head q' = 0"
    using assms(2) by (auto simp: go_copy_def Let_def min_def split: if_splits)
qed

section \<open>Iterators\<close>

lemma observer_app: "f v s = (c, s') \<Longrightarrow> observer f v q s = (c, q, s')"
  by (simp add: observer_def)

lemma iter_loop_ok:
  assumes r: "ring z q xs"
  shows "i \<le> length xs \<Longrightarrow> length xs - i < fuel \<Longrightarrow>
    iter_loop (head q) (tail q) (observer f) fuel q s (int i) ((head q + int i) mod int (length (buf q)))
      = Return (q, visit f (drop i xs) s)"
proof (induction fuel arbitrary: i s)
  case (Suc fuel)
  have c: "count q = int (length xs)" by (rule ringD(1)[OF r])
  show ?case
  proof (cases "i < length xs")
    case True
    have g: "idx_get (buf q) ((head q + int i) mod int (length (buf q))) = Return (xs ! i)"
      using ring_get [OF r, of "int i"] True by simp
    have n: "next_pos q ((head q + int i) mod int (length (buf q))) = (head q + int (Suc i)) mod int (length (buf q))"
      unfolding ring_posn(2)[OF r] mod_add_left_eq by (simp add: ac_simps)
    have d: "drop i xs = xs ! i # drop (Suc i) xs" using True by (simp add: Cons_nth_drop_Suc)
    have IH: "iter_loop (head q) (tail q) (observer f) fuel q s' (int (Suc i)) ((head q + int (Suc i)) mod int (length (buf q)))
      = Return (q, visit f (drop (Suc i) xs) s')" for s'
      using True Suc.prems by (intro Suc.IH) simp_all
    show ?thesis unfolding d using True c g n IH
      by (cases "f (xs ! i) s") (simp add: observer_app ac_simps)
  qed (use Suc c in simp)
qed simp

lemma Iter_ok:
  assumes rep: "represents z q xs" and fuel: "length xs < fuel"
  shows "Iter (observer f) fuel q s = Return (q, visit f xs s)"
proof (cases "xs = []")
  case True
  then show ?thesis using represents_count [OF rep] fuel by (cases fuel) (simp_all add: Iter_def)
next
  case False
  have r: "ring z q xs" by (rule represents_ring [OF rep False])
  have "head q mod int (length (buf q)) = head q" using ringD(3,4)[OF r] by simp
  then show ?thesis using iter_loop_ok [OF r, of 0 fuel f s] fuel by (simp add: Iter_def)
qed

lemma riter_loop_ok:
  assumes r: "ring z q xs"
  shows "i \<le> length xs \<Longrightarrow> length xs - i < fuel \<Longrightarrow>
    riter_loop (head q) (tail q) (observer f) fuel q s (int i)
      ((head q + int (length xs - i)) mod int (length (buf q)))
      = Return (q, visit f (rev (take (length xs - i) xs)) s)"
proof (induction fuel arbitrary: i s)
  case (Suc fuel)
  have c: "count q = int (length xs)" by (rule ringD(1)[OF r])
  show ?case
  proof (cases "i < length xs")
    case True
    define k where "k = length xs - Suc i"
    have k: "length xs - i = Suc k" "k < length xs" using True by (auto simp: k_def)
    have n: "prev_pos q ((head q + int (Suc k)) mod int (length (buf q))) = (head q + int k) mod int (length (buf q))"
      unfolding ring_posn(3)[OF r] mod_diff_left_eq by simp
    have g: "idx_get (buf q) ((head q + int k) mod int (length (buf q))) = Return (xs ! k)"
      using ring_get [OF r, of "int k"] k(2) by simp
    have IH: "riter_loop (head q) (tail q) (observer f) fuel q s' (int (Suc i)) ((head q + int k) mod int (length (buf q)))
      = Return (q, visit f (rev (take k xs)) s')" for s'
      using Suc.IH [of "Suc i" s'] Suc.prems True by (simp add: k_def)
    have d: "rev (take (Suc k) xs) = xs ! k # rev (take k xs)" using k(2) by (simp add: take_Suc_conv_app_nth)
    show ?thesis unfolding k(1) d using True c g n IH
      by (cases "f (xs ! k) s") (simp add: observer_app Let_def ac_simps)
  qed (use Suc c in simp)
qed simp

lemma RIter_ok:
  assumes rep: "represents z q xs" and fuel: "length xs < fuel"
  shows "RIter (observer f) fuel q s = Return (q, visit f (rev xs) s)"
proof (cases "xs = []")
  case True
  then show ?thesis using represents_count [OF rep] fuel by (cases fuel) (simp_all add: RIter_def)
next
  case False
  have r: "ring z q xs" by (rule represents_ring [OF rep False])
  then show ?thesis using riter_loop_ok [OF r, of 0 fuel f s] fuel ringD(7)[OF r] by (simp add: RIter_def)
qed

lemma iterPopFront_loop_ok:
  assumes "ring z q xs" "length xs < fuel"
  shows "\<exists>q'. iterPopFront_loop z (observer (\<lambda>v s. (True, f v s))) fuel q s = Return (q', fold f xs s) \<and> ring z q' []"
  using assms
proof (induction xs arbitrary: q fuel s)
  case Nil
  then show ?case using ringD(1)[OF Nil(1)] by (cases fuel) auto
next
  case (Cons x xs)
  obtain fuel' where fuel: "fuel = Suc fuel'" "length xs < fuel'" using Cons.prems(2) by (cases fuel) auto
  note p = ring_pop_front[OF Cons.prems(1)]
  obtain b where b: "idx_set (buf q) (head q) z = Return b"
      "ring z (q\<lparr>buf := b, head := next_pos q (head q), count := count q - 1\<rparr>) xs"
    using p(2) by blast
  show ?case using Cons.IH [OF b(2) fuel(2), of "f x s"] b(1) p(1) ringD(1)[OF Cons.prems(1)]
    by (simp add: fuel(1) observer_def)
qed

lemma iterPopBack_loop_ok:
  assumes "ring z q xs" "length xs < fuel"
  shows "\<exists>q'. iterPopBack_loop z (observer (\<lambda>v s. (True, f v s))) fuel q s = Return (q', fold f (rev xs) s) \<and> ring z q' []"
  using assms
proof (induction xs arbitrary: q fuel s rule: rev_induct)
  case Nil
  then show ?case using ringD(1)[OF Nil(1)] by (cases fuel) auto
next
  case (snoc x xs)
  obtain fuel' where fuel: "fuel = Suc fuel'" "length xs < fuel'" using snoc.prems(2) by (cases fuel) auto
  note p = ring_pop_back[OF snoc.prems(1)]
  obtain b where b: "idx_set (buf q) (prev_pos q (tail q)) z = Return b"
      "ring z (q\<lparr>tail := prev_pos q (tail q), buf := b, count := count q - 1\<rparr>) xs"
    using p(2) by blast
  show ?case using snoc.IH [OF b(2) fuel(2), of "f x s"] b(1) p(1) ringD(1)[OF snoc.prems(1)]
    by (simp add: fuel(1) observer_def Let_def)
qed

lemma shrinkToFit_empty:
  assumes "ring z q []"
  shows "\<exists>q'. shrinkToFit z q = Return q' \<and> represents z q' []"
proof (cases "int (length (buf q)) > minCap q")
  case True
  have c: "count q = 0" and m: "minCap q = 0 \<or> is_cap (minCap q)" using ringD(1,6)[OF assms] by simp_all
  have i: "int64 0 = 0" by (rule int64_id) simp_all
  let ?q = "q\<lparr>head := 0, tail := 0, buf := replicate (nat (minCap q)) z\<rparr>"
  have "shrinkToFit z q = Return ?q" using True c m i is_cap_pos [of "minCap q"]
    by (auto simp: shrinkToFit_def make_slice_Return)
  moreover have "represents z ?q []"
  proof (cases "minCap q = 0")
    case False
    then have "ring z ?q []" using m c is_cap_pos [of "minCap q"] unfolding ring_def by simp
    then show ?thesis by (rule ring_represents)
  qed (use c in \<open>simp add: represents_Nil_buf\<close>)
  ultimately show ?thesis by blast
next
  case False
  then show ?thesis using ring_represents [OF assms] by (simp add: shrinkToFit_def)
qed

lemma IterPopFront_ok:
  assumes rep: "represents z q xs" and fuel: "length xs < fuel"
  shows "\<exists>q'. IterPopFront z (observer (\<lambda>v s. (True, f v s))) fuel q s = Return (q', fold f xs s) \<and> represents z q' []"
proof (cases "xs = []")
  case True
  then show ?thesis using represents_count [OF rep] rep by (simp add: IterPopFront_def)
next
  case False
  obtain q1 where q1: "iterPopFront_loop z (observer (\<lambda>v s. (True, f v s))) fuel q s = Return (q1, fold f xs s)" "ring z q1 []"
    using iterPopFront_loop_ok [OF represents_ring [OF rep False] fuel, of f s] by auto
  then show ?thesis using shrinkToFit_empty [OF q1(2)] represents_count [OF rep] False
    by (auto simp: IterPopFront_def)
qed

lemma IterPopBack_ok:
  assumes rep: "represents z q xs" and fuel: "length xs < fuel"
  shows "\<exists>q'. IterPopBack z (observer (\<lambda>v s. (True, f v s))) fuel q s = Return (q', fold f (rev xs) s) \<and> represents z q' []"
proof (cases "xs = []")
  case True
  then show ?thesis using represents_count [OF rep] rep by (simp add: IterPopBack_def)
next
  case False
  obtain q1 where q1: "iterPopBack_loop z (observer (\<lambda>v s. (True, f v s))) fuel q s = Return (q1, fold f (rev xs) s)" "ring z q1 []"
    using iterPopBack_loop_ok [OF represents_ring [OF rep False] fuel, of f s] by auto
  then show ?thesis using shrinkToFit_empty [OF q1(2)] represents_count [OF rep] False
    by (auto simp: IterPopBack_def)
qed

lemma SetBaseCap_ok:
  assumes rep: "represents z q xs" and small: "baseCap \<le> maxCap"
  shows "\<exists>q'. SetBaseCap q baseCap = Return q' \<and> represents z q' xs \<and> baseCap \<le> minCap q' \<and>
           minCapacity \<le> minCap q' \<and> is_cap (minCap q') \<and> buf q' = buf q"
proof -
  have "is_cap minCapacity" by (simp add: minCapacity_def is_cap_8)
  then obtain m where m: "double_until minCapacity baseCap = Some m" "baseCap \<le> m" "minCapacity \<le> m" "is_cap m"
    using double_until_Some [OF _ small] by blast
  have "represents z (q\<lparr>minCap := m\<rparr>) xs" using rep m(4)
    by (simp add: represents_def deque_inv_def contents_def)
  then show ?thesis using m by (simp add: SetBaseCap_def)
qed

lemma SetBaseCap_diverges: "maxCap < baseCap \<Longrightarrow> SetBaseCap q baseCap = Diverges"
  using double_until_diverges [of minCapacity baseCap] by (simp add: SetBaseCap_def minCapacity_def is_cap_8)

section \<open>Any sequence of calls\<close>

lemma Insert_list:
  assumes "represents z q xs" "int (length xs) < maxCap"
  shows "\<exists>q'. Insert z q i x = Return q' \<and> represents z q' (list_insert i x xs)"
proof -
  consider "i < 0" | "0 \<le> i \<and> i \<le> int (length xs)" | "int (length xs) < i" by linarith
  then show ?thesis
  proof cases
    case 1
    then show ?thesis using PushFront_ok [OF assms, of x] by (simp add: Insert_clamps(1) list_insert_def)
  next
    case 2
    then show ?thesis using Insert_ok [OF assms, of i x] by (simp add: list_insert_def)
  next
    case 3
    then show ?thesis using PushBack_ok [OF assms, of x] represents_count [OF assms(1)]
      by (simp add: Insert_clamps(2) list_insert_def)
  qed
qed

lemma Insert_full:
  assumes "represents z q xs" "int (length xs) = maxCap"
  shows "Insert z q i x = Panic ''makeslice: len out of range''"
  using push_full [OF assms] by (simp add: Insert_def)

lemma range_panics:
  assumes rep: "represents z q xs"
  shows "\<not> in_range i xs \<Longrightarrow> Set q i v = Panic (range_text i (int (length xs)))"
    and "\<not> in_range i xs \<Longrightarrow> Remove z q i = Panic (range_text i (int (length xs)))"
    and "\<not> in_range i xs \<Longrightarrow> Swap q i j = Panic (range_text i (int (length xs)))"
    and "in_range i xs \<Longrightarrow> \<not> in_range j xs \<Longrightarrow> Swap q i j = Panic (range_text j (int (length xs)))"
  using represents_range [OF rep, folded in_range_def]
  by (auto simp: Set_def Remove_def Swap_def simp del: if_split split: if_split_asm)

lemma deque_simulates:
  assumes rep: "represents z q xs" and op: "moderate op"
  shows "simulated (represents z) (deque_step z op q) (list_step op xs)"
proof (cases op)
  case OpPopFront
  then show ?thesis using PopFront_ok [of z q "hd xs" "tl xs"] empty_panics(1)[of z q] rep
    by (cases xs) auto
next
  case OpPopBack
  then show ?thesis using PopBack_ok [of z q "butlast xs" "last xs"] empty_panics(2)[of z q] rep
    by (cases "xs = []") auto
next
  case OpFront
  then show ?thesis using Front_ok [of z q "hd xs" "tl xs"] empty_panics(3)[of z q] rep
    by (cases xs) auto
next
  case OpBack
  then show ?thesis using Back_ok [of z q "butlast xs" "last xs"] empty_panics(4)[of z q] rep
    by (cases "xs = []") auto
next
  case (OpSet i v)
  then show ?thesis using Set_ok [OF rep, of i v] range_panics(1)[OF rep, of i v]
    by (auto simp: in_range_def)
next
  case (OpRemove i)
  then show ?thesis using Remove_ok [OF rep, of i] range_panics(2)[OF rep, of i]
    by (auto simp: in_range_def)
next
  case (OpSwap i j)
  then show ?thesis using Swap_ok [OF rep, of i j] range_panics(3,4)[OF rep, of i j]
    by (auto simp: in_range_def)
next
  case (OpGrow n)
  then show ?thesis using Grow_ok [OF rep, of n] Grow_diverges [OF rep, of n] op
    by (cases "int (length xs) + n \<le> maxCap") (auto simp: Grow_def[of z q n])
next
  case (OpPushBack v)
  then show ?thesis using PushBack_ok [OF rep, of v] push_full(1)[OF rep, of v] represents_bound [OF rep]
    by (auto simp: add_element_def)
next
  case (OpPushFront v)
  then show ?thesis using PushFront_ok [OF rep, of v] push_full(2)[OF rep, of v] represents_bound [OF rep]
    by (auto simp: add_element_def)
next
  case (OpAt i)
  then show ?thesis using rep by (simp add: At_ok [OF rep] in_range_def)
next
  case (OpInsert i v)
  then show ?thesis using Insert_list [OF rep, of i v] Insert_full [OF rep, of i v] represents_bound [OF rep]
    by (auto simp: add_element_def)
next
  case (OpRotate n)
  then show ?thesis using Rotate_ok [OF rep, of n] by auto
next
  case OpClear
  then show ?thesis using Clear_ok [OF rep] by auto
next
  case (OpSetBaseCap c)
  then show ?thesis using SetBaseCap_ok [OF rep, of c] SetBaseCap_diverges [of c q]
    by (cases "c \<le> maxCap") auto
qed

interpretation dq: simulation "represents z" "deque_step z" list_step moderate for z
  by unfold_locales (rule deque_simulates)

lemma new_deque_represents: "represents z new_deque []"
  by (simp add: new_deque_def represents_Nil_buf)

section \<open>Properties\<close>

text \<open>
  C4.  Any sequence of calls of \<open>PushBack\<close>, \<open>PushFront\<close>, \<open>PopFront\<close>, \<open>PopBack\<close>, \<open>Front\<close>, \<open>Back\<close>,
  \<open>At\<close>, \<open>Set\<close>, \<open>Insert\<close>, \<open>Remove\<close>, \<open>Swap\<close>, \<open>Rotate\<close>, \<open>Clear\<close>, \<open>Grow\<close> (for fewer than
  \<open>2\<^sup>6\<^sup>2\<close> elements) and \<open>SetBaseCap\<close> on a new deque returns the same answers as the same calls on a
  list of at most \<open>2\<^sup>6\<^sup>2\<close> elements, panics with the same message at the same call, and hangs at the
  same call, which only a request for more than \<open>2\<^sup>6\<^sup>2\<close> elements does: growing, shrinking, wrapping
  around and the swap loops are invisible.
\<close>

theorem deque_runs_like_list:
  assumes "list_all moderate ops"
  shows "answers (deque_step z) ops new_deque = answers list_step ops []"
  by (rule dq.same_answers [OF new_deque_represents assms])

theorem deque_runs_like_list_witness:
  "answers (deque_step (0::int)) [OpPushBack 1, OpPushFront 2, OpGrow 20, OpRotate 1, OpPopFront, OpAt 1] new_deque =
   Panic ''deque: index out of range 1 with length 1''"
proof -
  let ?ops = "[OpPushBack (1::int), OpPushFront 2, OpGrow 20, OpRotate 1, OpPopFront, OpAt 1]"
  have l: "answers list_step ?ops [] = Panic ''deque: index out of range 1 with length 1''" by code_simp
  have m: "list_all moderate ?ops" by (simp add: maxCap_def)
  show ?thesis using deque_runs_like_list [OF m, of 0] l by (simp only:)
qed

text \<open>
  C30.  \<open>Iter\<close> and \<open>RIter\<close> hand a callback that leaves the deque alone the elements front to
  back and back to front, stop as soon as the callback returns false, end, and leave the deque
  as it was.
\<close>

theorem iterators_visit_in_order:
  assumes "represents z q xs" and "length xs < fuel"
  shows "Iter (observer f) fuel q s = Return (q, visit f xs s) \<and>
         RIter (observer f) fuel q s = Return (q, visit f (rev xs) s)"
  using Iter_ok [OF assms, of f s] RIter_ok [OF assms, of f s] by simp

theorem iterators_visit_in_order_witness:
  "Iter (observer (\<lambda>v s. (v < 2, v # s))) 4
     (\<lparr>buf = [3, 0, 0, 0, 0, 0, 1, 2], head = 6, tail = 1, count = 3, minCap = 8\<rparr> :: int deque) []
   = Return (\<lparr>buf = [3, 0, 0, 0, 0, 0, 1, 2], head = 6, tail = 1, count = 3, minCap = 8\<rparr>, [2, 1])"
proof -
  have "represents 0 (\<lparr>buf = [3, 0, 0, 0, 0, 0, 1, 2], head = 6, tail = 1, count = 3, minCap = 8\<rparr> :: int deque)
      [1, 2, 3]"
    using is_cap_8 by (simp add: represents_def deque_inv_def contents_def eval_nat_numeral)
  from iterators_visit_in_order [OF this, of 4 "\<lambda>v s. (v < 2, v # s)" "[]"] show ?thesis by simp
qed

text \<open>
  C31.  \<open>IterPopFront\<close> and \<open>IterPopBack\<close>, run to the end by a callback that never stops them,
  hand over every element in queue order and in reverse order, and leave a well-formed empty deque.
\<close>

theorem draining_iterators:
  assumes "represents z q xs" and "length xs < fuel"
  shows "(\<exists>q'. IterPopFront z (observer (\<lambda>v s. (True, f v s))) fuel q s = Return (q', fold f xs s) \<and>
              represents z q' []) \<and>
         (\<exists>q'. IterPopBack z (observer (\<lambda>v s. (True, f v s))) fuel q s = Return (q', fold f (rev xs) s) \<and>
              represents z q' [])"
  using IterPopFront_ok [OF assms, of f s] IterPopBack_ok [OF assms, of f s] by blast

theorem draining_iterators_witness:
  "\<exists>q'. IterPopBack 0 (observer (\<lambda>v s. (True, s @ [v]))) 4
     (\<lparr>buf = [3, 0, 0, 0, 0, 0, 1, 2], head = 6, tail = 1, count = 3, minCap = 8\<rparr> :: int deque) []
     = Return (q', [3, 2, 1]) \<and> represents 0 q' []"
proof -
  have "represents 0 (\<lparr>buf = [3, 0, 0, 0, 0, 0, 1, 2], head = 6, tail = 1, count = 3, minCap = 8\<rparr> :: int deque)
      [1, 2, 3]"
    using is_cap_8 by (simp add: represents_def deque_inv_def contents_def eval_nat_numeral)
  from draining_iterators [OF this, of 4 "\<lambda>v s. s @ [v]" "[]"] show ?thesis by simp
qed

text \<open>
  C32.  \<open>CopyInSlice\<close> of exactly as many elements as the buffer then holds leaves the tail index one
  past the end of the buffer: taking one element off the front and pushing another at the back then
  indexes out of range, on a deque that is not full.
\<close>

theorem CopyInSlice_full_then_push_panics:
  assumes "CopyInSlice z q xs = Return q'" "length (buf q') = length xs" "xs \<noteq> []"
    and "int (length xs) \<le> maxCap"
  shows "tail q' = int (length (buf q')) \<and>
    (\<exists>q1. PopFront z q' = Return (hd xs, q1) \<and> count q1 < int (length (buf q1)) \<and>
          PushBack z q1 v = Panic ''index out of range'')"
proof -
  note q' = CopyInSlice_fills [OF assms(1,2)]
  let ?q1 = "q'\<lparr>buf := xs[0 := z], head := next_pos q' 0, count := int (length xs) - 1\<rparr>"
  have n: "0 < length xs" using assms(3) by simp
  have "int64 ((int (length xs) - 1) * 4) \<noteq> int (length xs)"
    using int64_quarter [of "int (length xs) - 1" "int (length xs)"] n assms(4) by auto presburger
  then have "shrinkIfExcess z ?q1 = Return ?q1" by (simp add: shrinkIfExcess_def)
  then have pop: "PopFront z q' = Return (hd xs, ?q1)"
    using n q' by (simp add: PopFront_def outcome_simps hd_conv_nth)
  have "PushBack z ?q1 v = Panic ''index out of range''"
    using n q' by (simp add: PushBack_def growIfFull_def idx_set_def)
  then show ?thesis using pop q' assms(2) n by (intro conjI exI[of _ ?q1]) simp_all
qed

theorem CopyInSlice_full_then_push_panics_witness:
  "\<exists>q' q1. CopyInSlice (0::int) new_deque [1, 2, 3, 4, 5, 6, 7, 8] = Return q' \<and> PopFront 0 q' = Return (1, q1) \<and>
     PushBack 0 q1 9 = Panic ''index out of range''"
proof -
  let ?q = "\<lparr>buf = [1, 2, 3, 4, 5, 6, 7, 8], head = 0, tail = 8, count = 8, minCap = 8\<rparr> :: int deque"
  have c: "CopyInSlice 0 new_deque [1, 2, 3, 4, 5, 6, 7, 8] = Return ?q" by code_simp
  from CopyInSlice_full_then_push_panics [OF c, of 9] show ?thesis using c by (auto simp: maxCap_def)
qed

end
