(* ===== verification/Lru.thy ===== *)
theory Lru
  imports Prelude "HOL-Library.Monad_Syntax"
begin

text \<open>
  The LRU cache of \<open>common/lru/lrucache.go\<close>.

  The doubly linked list of the cache is a third-party package; its operations are the argument
  \<open>L\<close> of every definition that calls it, and \<open>list_laws\<close> states what its documentation
  promises.  Cache entries are reached through pointers (an element of the list holds a
  \<open>*entry\<close>, and \<open>CloneTo\<close> makes two caches share their entries), so they live in an explicit
  store: a list of entries whose index is the address.  The store comes with the state \<open>env\<close> that
  the evict callback may change.  \<open>clk i\<close> is the i-th reading of the clock, in seconds, within
  one call.  A loop over the list is a \<open>partial_function\<close>, so \<open>None\<close> means that the call does
  not return.  The mutex is not modelled: each call is one atomic step.
\<close>

section \<open>The linked list\<close>

record ('l, 'h) list_ops =
  l_New :: 'l
  l_PushBack :: "'l \<Rightarrow> nat \<Rightarrow> 'h \<times> 'l"
  l_MoveToBack :: "'l \<Rightarrow> 'h \<Rightarrow> 'l"
  l_Remove :: "'l \<Rightarrow> 'h \<Rightarrow> 'l"
  l_Front :: "'l \<Rightarrow> 'h option"
  l_Next :: "'l \<Rightarrow> 'h \<Rightarrow> 'h option"
  l_Len :: "'l \<Rightarrow> nat"
  l_Value :: "'h \<Rightarrow> nat"

text \<open>
  \<open>ok l\<close> says that \<open>l\<close> is a list the package has built, and \<open>seq l\<close> lists its elements
  from front to back with the pointer each holds.
\<close>

definition list_laws :: "('l, 'h) list_ops \<Rightarrow> ('l \<Rightarrow> bool) \<Rightarrow> ('l \<Rightarrow> ('h \<times> nat) list) \<Rightarrow> bool" where
  "list_laws L ok seq \<longleftrightarrow>
     ok (l_New L) \<and> seq (l_New L) = [] \<and>
     (\<forall>l e. ok l \<longrightarrow> (case l_PushBack L l e of (h, l') \<Rightarrow>
        ok l' \<and> seq l' = seq l @ [(h, e)] \<and> h \<notin> fst ` set (seq l))) \<and>
     (\<forall>l h e. ok l \<and> (h, e) \<in> set (seq l) \<longrightarrow>
        ok (l_MoveToBack L l h) \<and>
        seq (l_MoveToBack L l h) = filter (\<lambda>x. fst x \<noteq> h) (seq l) @ [(h, e)] \<and>
        ok (l_Remove L l h) \<and> seq (l_Remove L l h) = filter (\<lambda>x. fst x \<noteq> h) (seq l) \<and>
        l_Value L h = e) \<and>
     (\<forall>l. ok l \<longrightarrow> l_Front L l = (case seq l of [] \<Rightarrow> None | x # _ \<Rightarrow> Some (fst x))) \<and>
     (\<forall>l xs h e ys. ok l \<and> seq l = xs @ (h, e) # ys \<longrightarrow>
        l_Next L l h = (case ys of [] \<Rightarrow> None | y # _ \<Rightarrow> Some (fst y))) \<and>
     (\<forall>l. ok l \<longrightarrow> l_Len L l = length (seq l))"

section \<open>The cache\<close>

record ('k, 'v) entry =
  key :: 'k
  val :: 'v
  expires :: int

record ('k, 'v, 'l, 'h, 's) LruCache =
  maxAge :: int
  maxSize :: int
  cache :: "'k \<Rightarrow> 'h option"
  lru :: 'l
  updateAgeOnGet :: bool
  staleReturn :: bool
  onEvict :: "('k \<Rightarrow> 'v \<Rightarrow> 's \<Rightarrow> 's) option"

record ('k, 'v, 's) store =
  entries :: "('k, 'v) entry list"
  env :: 's

type_synonym ('k, 'v, 'l, 'h, 's) lru_state = "('k, 'v, 'l, 'h, 's) LruCache \<times> ('k, 'v, 's) store"

definition Clear_lru :: "('l, 'h) list_ops \<Rightarrow> ('k, 'v, 'l, 'h, 's) LruCache \<Rightarrow> ('k, 'v, 'l, 'h, 's) LruCache" where
  "Clear_lru L c = c\<lparr>lru := l_New L, cache := (\<lambda>_. None)\<rparr>"

datatype ('k, 'v, 's) Option =
    WithEvict "'k \<Rightarrow> 'v \<Rightarrow> 's \<Rightarrow> 's" | WithUpdateAgeOnGet | WithAge int | WithSize int | WithStale bool

fun apply_option :: "('k, 'v, 's) Option \<Rightarrow> ('k, 'v, 'l, 'h, 's) LruCache \<Rightarrow> ('k, 'v, 'l, 'h, 's) LruCache" where
  "apply_option (WithEvict cb) c = c\<lparr>onEvict := Some cb\<rparr>"
| "apply_option WithUpdateAgeOnGet c = c\<lparr>updateAgeOnGet := True\<rparr>"
| "apply_option (WithAge a) c = c\<lparr>maxAge := a\<rparr>"
| "apply_option (WithSize n) c = c\<lparr>maxSize := n\<rparr>"
| "apply_option (WithStale b) c = c\<lparr>staleReturn := b\<rparr>"

definition New_lru :: "('l, 'h) list_ops \<Rightarrow> ('k, 'v, 's) Option list \<Rightarrow> ('k, 'v, 'l, 'h, 's) LruCache" where
  "New_lru L options = fold apply_option options
     (Clear_lru L \<lparr>maxAge = 0, maxSize = 0, cache = (\<lambda>_. None), lru = l_New L,
                    updateAgeOnGet = False, staleReturn = False, onEvict = None\<rparr>)"

definition deleteElement ::
  "('l, 'h) list_ops \<Rightarrow> 'h \<Rightarrow> ('k, 'v, 'l, 'h, 's) lru_state \<Rightarrow> ('k, 'v, 'l, 'h, 's) lru_state" where
  "deleteElement L le = (\<lambda>(c, w).
     let e = entries w ! l_Value L le;
         c' = c\<lparr>lru := l_Remove L (lru c) le, cache := (cache c)(key e := None)\<rparr>
     in case onEvict c of
          None \<Rightarrow> (c', w)
        | Some cb \<Rightarrow> (c', w\<lparr>env := cb (key e) (val e) (env w)\<rparr>))"

partial_function (option) deleteOldest_loop ::
  "('l, 'h) list_ops \<Rightarrow> int \<Rightarrow> ('k, 'v, 'l, 'h, 's) lru_state \<Rightarrow> ('k, 'v, 'l, 'h, 's) lru_state option" where
  "deleteOldest_loop L now st =
     (case l_Front L (lru (fst st)) of
        None \<Rightarrow> Some st
      | Some le \<Rightarrow>
          if expires (entries (snd st) ! l_Value L le) \<le> now
          then deleteOldest_loop L now (deleteElement L le st)
          else Some st)"

definition maybeDeleteOldest ::
  "('l, 'h) list_ops \<Rightarrow> int \<Rightarrow> ('k, 'v, 'l, 'h, 's) lru_state \<Rightarrow> ('k, 'v, 'l, 'h, 's) lru_state option" where
  "maybeDeleteOldest L now st =
     (if \<not> staleReturn (fst st) \<and> maxAge (fst st) > 0 then deleteOldest_loop L now st else Some st)"

text \<open>The entry that \<open>get\<close> returns is a pointer (\<open>None\<close> is nil).\<close>

definition get ::
  "('l, 'h) list_ops \<Rightarrow> (nat \<Rightarrow> int) \<Rightarrow> 'k \<Rightarrow> ('k, 'v, 'l, 'h, 's) lru_state
     \<Rightarrow> (nat option \<times> ('k, 'v, 'l, 'h, 's) lru_state) option" where
  "get L clk k = (\<lambda>(c, w).
     case cache c k of
       None \<Rightarrow> Some (None, (c, w))
     | Some le \<Rightarrow>
         if \<not> staleReturn c \<and> maxAge c > 0 \<and> expires (entries w ! l_Value L le) \<le> clk 0 then
           do { st \<leftarrow> maybeDeleteOldest L (clk 1) (deleteElement L le (c, w)); Some (None, st) }
         else
           let c' = c\<lparr>lru := l_MoveToBack L (lru c) le\<rparr>; el = l_Value L le in
           if maxAge c > 0 \<and> updateAgeOnGet c
           then Some (Some el, (c', w\<lparr>entries := (entries w)[el := (entries w ! el)\<lparr>expires := clk 1 + maxAge c\<rparr>]\<rparr>))
           else Some (Some el, (c', w)))"

definition setWithExpire ::
  "('l, 'h) list_ops \<Rightarrow> int \<Rightarrow> 'k \<Rightarrow> 'v \<Rightarrow> int \<Rightarrow> ('k, 'v, 'l, 'h, 's) lru_state
     \<Rightarrow> ('k, 'v, 'l, 'h, 's) lru_state option" where
  "setWithExpire L now k v ex = (\<lambda>(c, w).
     do { st \<leftarrow>
       (case cache c k of
          Some le \<Rightarrow>
            let e = l_Value L le in
            Some (c\<lparr>lru := l_MoveToBack L (lru c) le\<rparr>,
                  w\<lparr>entries := (entries w)[e := (entries w ! e)\<lparr>val := v, expires := ex\<rparr>]\<rparr>)
        | None \<Rightarrow>
            let e = length (entries w);
                w' = w\<lparr>entries := entries w @ [\<lparr>key = k, val = v, expires = ex\<rparr>]\<rparr>;
                (le, l') = l_PushBack L (lru c) e;
                c' = c\<lparr>lru := l', cache := (cache c)(k \<mapsto> le)\<rparr>
            in if maxSize c > 0 \<and> int (l_Len L l') > maxSize c
               then map_option (\<lambda>f. deleteElement L f (c', w')) (l_Front L l')
               else Some (c', w'));
       maybeDeleteOldest L now st })"

definition set_lru ::
  "('l, 'h) list_ops \<Rightarrow> (nat \<Rightarrow> int) \<Rightarrow> 'k \<Rightarrow> 'v \<Rightarrow> ('k, 'v, 'l, 'h, 's) lru_state
     \<Rightarrow> ('k, 'v, 'l, 'h, 's) lru_state option" where
  "set_lru L clk k v st =
     (if maxAge (fst st) > 0 then setWithExpire L (clk 1) k v (clk 0 + maxAge (fst st)) st
      else setWithExpire L (clk 0) k v 0 st)"

definition delete :: "('l, 'h) list_ops \<Rightarrow> 'k \<Rightarrow> ('k, 'v, 'l, 'h, 's) lru_state \<Rightarrow> ('k, 'v, 'l, 'h, 's) lru_state" where
  "delete L k st = (case cache (fst st) k of None \<Rightarrow> st | Some le \<Rightarrow> deleteElement L le st)"

section \<open>The exported methods\<close>

text \<open>
  The zero value that accompanies a false second result is left out: a miss is \<open>None\<close>.  The
  function arguments of \<open>GetOrStore\<close> and \<open>Compute\<close> are pure, the former given by its result.
\<close>

definition Get_lru ::
  "('l, 'h) list_ops \<Rightarrow> (nat \<Rightarrow> int) \<Rightarrow> 'k \<Rightarrow> ('k, 'v, 'l, 'h, 's) lru_state
     \<Rightarrow> ('v option \<times> ('k, 'v, 'l, 'h, 's) lru_state) option" where
  "Get_lru L clk k st =
     do { (el, st') \<leftarrow> get L clk k st;
          Some (map_option (\<lambda>a. val (entries (snd st') ! a)) el, st') }"

definition GetOrStore ::
  "('l, 'h) list_ops \<Rightarrow> (nat \<Rightarrow> int) \<Rightarrow> 'k \<Rightarrow> 'v \<Rightarrow> ('k, 'v, 'l, 'h, 's) lru_state
     \<Rightarrow> (('v \<times> bool) \<times> ('k, 'v, 'l, 'h, 's) lru_state) option" where
  "GetOrStore L clk k constructor st =
     do { (el, st') \<leftarrow> get L clk k st;
          case el of
            None \<Rightarrow> do { st'' \<leftarrow> set_lru L (\<lambda>i. clk (i + 2)) k constructor st'; Some ((constructor, False), st'') }
          | Some a \<Rightarrow> Some ((val (entries (snd st') ! a), True), st') }"

definition GetWithExpire ::
  "('l, 'h) list_ops \<Rightarrow> (nat \<Rightarrow> int) \<Rightarrow> 'k \<Rightarrow> ('k, 'v, 'l, 'h, 's) lru_state
     \<Rightarrow> (('v \<times> int) option \<times> ('k, 'v, 'l, 'h, 's) lru_state) option" where
  "GetWithExpire L clk k st =
     do { (el, st') \<leftarrow> get L clk k st;
          Some (map_option (\<lambda>a. (val (entries (snd st') ! a), expires (entries (snd st') ! a))) el, st') }"

definition Exist :: "'k \<Rightarrow> ('k, 'v, 'l, 'h, 's) lru_state \<Rightarrow> bool" where
  "Exist k st = (cache (fst st) k \<noteq> None)"

definition Set_lru ::
  "('l, 'h) list_ops \<Rightarrow> (nat \<Rightarrow> int) \<Rightarrow> 'k \<Rightarrow> 'v \<Rightarrow> ('k, 'v, 'l, 'h, 's) lru_state
     \<Rightarrow> ('k, 'v, 'l, 'h, 's) lru_state option" where
  "Set_lru L clk k v st = set_lru L clk k v st"

definition SetWithExpire ::
  "('l, 'h) list_ops \<Rightarrow> (nat \<Rightarrow> int) \<Rightarrow> 'k \<Rightarrow> 'v \<Rightarrow> int \<Rightarrow> ('k, 'v, 'l, 'h, 's) lru_state
     \<Rightarrow> ('k, 'v, 'l, 'h, 's) lru_state option" where
  "SetWithExpire L clk k v ex st = setWithExpire L (clk 0) k v ex st"

definition Delete_lru ::
  "('l, 'h) list_ops \<Rightarrow> 'k \<Rightarrow> ('k, 'v, 'l, 'h, 's) lru_state \<Rightarrow> ('k, 'v, 'l, 'h, 's) lru_state" where
  "Delete_lru L k st = delete L k st"

text \<open>\<open>valueFn\<close> gets the old value when there is one; \<open>None\<close> as its result asks for deletion.\<close>

definition Compute ::
  "('l, 'h) list_ops \<Rightarrow> (nat \<Rightarrow> int) \<Rightarrow> 'k \<Rightarrow> ('v option \<Rightarrow> 'v option) \<Rightarrow> ('k, 'v, 'l, 'h, 's) lru_state
     \<Rightarrow> ('v option \<times> ('k, 'v, 'l, 'h, 's) lru_state) option" where
  "Compute L clk k valueFn st =
     do { (el, st') \<leftarrow> get L clk k st;
          let actual = map_option (\<lambda>a. val (entries (snd st') ! a)) el;
          case valueFn actual of
            None \<Rightarrow> Some (None, if actual \<noteq> None then delete L k st' else st')
          | Some newValue \<Rightarrow> do { st'' \<leftarrow> set_lru L (\<lambda>i. clk (i + 2)) k newValue st'; Some (Some newValue, st'') } }"

partial_function (option) snapshot_loop ::
  "('l, 'h) list_ops \<Rightarrow> 'l \<Rightarrow> ('k, 'v) entry list \<Rightarrow> 'h option \<Rightarrow> ('k \<times> 'v \<times> int) list
     \<Rightarrow> ('k \<times> 'v \<times> int) list option" where
  "snapshot_loop L l es e items =
     (case e of
        None \<Rightarrow> Some items
      | Some le \<Rightarrow> let elm = es ! l_Value L le in
          snapshot_loop L l es (l_Next L l le) (items @ [(key elm, val elm, expires elm)]))"

definition Snapshot ::
  "('l, 'h) list_ops \<Rightarrow> ('k, 'v, 'l, 'h, 's) lru_state \<Rightarrow> ('k \<times> 'v \<times> int) list option" where
  "Snapshot L st =
     snapshot_loop L (lru (fst st)) (entries (snd st)) (l_Front L (lru (fst st))) []"

text \<open>The copy shares the entries of the original; both caches live over the same store.\<close>

partial_function (option) clone_loop ::
  "('l, 'h) list_ops \<Rightarrow> 'l \<Rightarrow> ('k, 'v) entry list \<Rightarrow> 'h option \<Rightarrow> ('k, 'v, 'l, 'h, 's) LruCache
     \<Rightarrow> ('k, 'v, 'l, 'h, 's) LruCache option" where
  "clone_loop L l es e n =
     (case e of
        None \<Rightarrow> Some n
      | Some le \<Rightarrow>
          let elm = l_Value L le;
              (le', l') = l_PushBack L (lru n) elm in
          clone_loop L l es (l_Next L l le)
            (n\<lparr>lru := l', cache := (cache n)(key (es ! elm) \<mapsto> le')\<rparr>))"

definition CloneTo ::
  "('l, 'h) list_ops \<Rightarrow> ('k, 'v, 'l, 'h, 's) LruCache \<Rightarrow> ('k, 'v, 's) store \<Rightarrow> ('k, 'v, 'l, 'h, 's) LruCache
     \<Rightarrow> ('k, 'v, 'l, 'h, 's) LruCache option" where
  "CloneTo L c w n =
     clone_loop L (lru c) (entries w) (l_Front L (lru c)) (Clear_lru L n)"

section \<open>The contract\<close>

text \<open>
  The cache as its users think of it: its settings, the entries from the least to the most
  recently used one, and what the evict callback has made of its state.
\<close>

record ('k, 'v, 's) acache =
  a_maxAge :: int
  a_maxSize :: int
  a_updateAge :: bool
  a_stale :: bool
  a_onEvict :: "('k \<Rightarrow> 'v \<Rightarrow> 's \<Rightarrow> 's) option"
  a_items :: "('k \<times> 'v \<times> int) list"
  a_env :: 's

definition a_evicted :: "('k, 'v, 's) acache \<Rightarrow> ('k \<times> 'v \<times> int) list \<Rightarrow> 's \<Rightarrow> 's" where
  "a_evicted A xs = (case a_onEvict A of None \<Rightarrow> id | Some cb \<Rightarrow> fold (\<lambda>(k, v, _). cb k v) xs)"

definition a_drop :: "('k \<times> 'v \<times> int) list \<Rightarrow> ('k \<times> 'v \<times> int) list \<Rightarrow> ('k, 'v, 's) acache \<Rightarrow> ('k, 'v, 's) acache" where
  "a_drop gone kept A = A\<lparr>a_items := kept, a_env := a_evicted A gone (a_env A)\<rparr>"

definition a_delete :: "'k \<Rightarrow> ('k, 'v, 's) acache \<Rightarrow> ('k, 'v, 's) acache" where
  "a_delete k A = a_drop (filter (\<lambda>x. fst x = k) (a_items A)) (filter (\<lambda>x. fst x \<noteq> k) (a_items A)) A"

definition a_ages :: "('k, 'v, 's) acache \<Rightarrow> bool" where
  "a_ages A \<longleftrightarrow> \<not> a_stale A \<and> a_maxAge A > 0"

definition expired :: "int \<Rightarrow> 'k \<times> 'v \<times> int \<Rightarrow> bool" where
  "expired now x \<longleftrightarrow> snd (snd x) \<le> now"

definition a_sweep :: "int \<Rightarrow> ('k, 'v, 's) acache \<Rightarrow> ('k, 'v, 's) acache" where
  "a_sweep now A =
     (if a_ages A then a_drop (takeWhile (expired now) (a_items A)) (dropWhile (expired now) (a_items A)) A
      else A)"

definition a_touch :: "'k \<Rightarrow> 'v \<Rightarrow> int \<Rightarrow> ('k, 'v, 's) acache \<Rightarrow> ('k, 'v, 's) acache" where
  "a_touch k v ex A = A\<lparr>a_items := filter (\<lambda>x. fst x \<noteq> k) (a_items A) @ [(k, v, ex)]\<rparr>"

definition a_get :: "(nat \<Rightarrow> int) \<Rightarrow> 'k \<Rightarrow> ('k, 'v, 's) acache \<Rightarrow> ('v \<times> int) option \<times> ('k, 'v, 's) acache" where
  "a_get clk k A =
     (case map_of (a_items A) k of
        None \<Rightarrow> (None, A)
      | Some (v, ex) \<Rightarrow>
          if a_ages A \<and> ex \<le> clk 0 then (None, a_sweep (clk 1) (a_delete k A))
          else let ex' = (if a_maxAge A > 0 \<and> a_updateAge A then clk 1 + a_maxAge A else ex)
               in (Some (v, ex'), a_touch k v ex' A))"

definition a_put :: "int \<Rightarrow> 'k \<Rightarrow> 'v \<Rightarrow> int \<Rightarrow> ('k, 'v, 's) acache \<Rightarrow> ('k, 'v, 's) acache" where
  "a_put now k v ex A =
     a_sweep now
       (if map_of (a_items A) k \<noteq> None then a_touch k v ex A
        else let ys = a_items A @ [(k, v, ex)]
             in if a_maxSize A > 0 \<and> int (length ys) > a_maxSize A
                then a_drop [hd ys] (tl ys) A else A\<lparr>a_items := ys\<rparr>)"

definition a_set :: "(nat \<Rightarrow> int) \<Rightarrow> 'k \<Rightarrow> 'v \<Rightarrow> ('k, 'v, 's) acache \<Rightarrow> ('k, 'v, 's) acache" where
  "a_set clk k v A =
     (if a_maxAge A > 0 then a_put (clk 1) k v (clk 0 + a_maxAge A) A else a_put (clk 0) k v 0 A)"

definition a_empty :: "'s \<Rightarrow> ('k, 'v, 's) acache" where
  "a_empty s = \<lparr>a_maxAge = 0, a_maxSize = 0, a_updateAge = False, a_stale = False, a_onEvict = None,
               a_items = [], a_env = s\<rparr>"

fun a_option :: "('k, 'v, 's) Option \<Rightarrow> ('k, 'v, 's) acache \<Rightarrow> ('k, 'v, 's) acache" where
  "a_option (WithEvict cb) A = A\<lparr>a_onEvict := Some cb\<rparr>"
| "a_option WithUpdateAgeOnGet A = A\<lparr>a_updateAge := True\<rparr>"
| "a_option (WithAge n) A = A\<lparr>a_maxAge := n\<rparr>"
| "a_option (WithSize n) A = A\<lparr>a_maxSize := n\<rparr>"
| "a_option (WithStale b) A = A\<lparr>a_stale := b\<rparr>"

definition a_new :: "('k, 'v, 's) Option list \<Rightarrow> 's \<Rightarrow> ('k, 'v, 's) acache" where
  "a_new opts s = fold a_option opts (a_empty s)"

text \<open>One entry per key, and no more of them than the size limit, when there is one.\<close>

definition a_bounded :: "('k, 'v, 's) acache \<Rightarrow> bool" where
  "a_bounded A \<longleftrightarrow> distinct (map fst (a_items A)) \<and>
     (a_maxSize A > 0 \<longrightarrow> int (length (a_items A)) \<le> a_maxSize A)"

section \<open>Abstraction\<close>

definition view :: "('k, 'v) entry list \<Rightarrow> ('h \<times> nat) list \<Rightarrow> ('k \<times> 'v \<times> int) list" where
  "view es sq = map (\<lambda>x. (key (es ! snd x), val (es ! snd x), expires (es ! snd x))) sq"

definition key_index :: "('k, 'v) entry list \<Rightarrow> ('h \<times> nat) list \<Rightarrow> 'k \<Rightarrow> 'h option" where
  "key_index es sq = map_of (map (\<lambda>x. (key (es ! snd x), fst x)) sq)"

definition elems_ok :: "('k, 'v) entry list \<Rightarrow> ('h \<times> nat) list \<Rightarrow> bool" where
  "elems_ok es sq \<longleftrightarrow> distinct (map fst sq) \<and> distinct (map snd sq) \<and>
     (\<forall>x\<in>set sq. snd x < length es) \<and> distinct (map (\<lambda>x. key (es ! snd x)) sq)"

definition abs_lru :: "('l \<Rightarrow> ('h \<times> nat) list) \<Rightarrow> ('k, 'v, 'l, 'h, 's) lru_state \<Rightarrow> ('k, 'v, 's) acache" where
  "abs_lru seq = (\<lambda>(c, w). \<lparr>a_maxAge = maxAge c, a_maxSize = maxSize c, a_updateAge = updateAgeOnGet c,
     a_stale = staleReturn c, a_onEvict = onEvict c, a_items = view (entries w) (seq (lru c)), a_env = env w\<rparr>)"

text \<open>
  The map and the list hold the same entries, one per key, and no two elements of the list point
  to the same entry.
\<close>

definition lru_inv ::
  "('l \<Rightarrow> bool) \<Rightarrow> ('l \<Rightarrow> ('h \<times> nat) list) \<Rightarrow> ('k, 'v, 'l, 'h, 's) lru_state \<Rightarrow> bool" where
  "lru_inv ok seq = (\<lambda>(c, w). ok (lru c) \<and> elems_ok (entries w) (seq (lru c)) \<and>
     cache c = key_index (entries w) (seq (lru c)))"

definition lru_rep ::
  "('l \<Rightarrow> bool) \<Rightarrow> ('l \<Rightarrow> ('h \<times> nat) list) \<Rightarrow> ('k, 'v, 'l, 'h, 's) lru_state \<Rightarrow> ('k, 'v, 's) acache \<Rightarrow> bool" where
  "lru_rep ok seq st A \<longleftrightarrow> lru_inv ok seq st \<and> abs_lru seq st = A"

section \<open>The cache as a step function\<close>

datatype ('k, 'v) lru_op =
    OpGet "nat \<Rightarrow> int" 'k | OpGetOrStore "nat \<Rightarrow> int" 'k 'v | OpGetWithExpire "nat \<Rightarrow> int" 'k
  | OpExist 'k | OpSet "nat \<Rightarrow> int" 'k 'v | OpSetWithExpire "nat \<Rightarrow> int" 'k 'v int
  | OpDelete 'k | OpCompute "nat \<Rightarrow> int" 'k "'v option \<Rightarrow> 'v option" | OpSnapshot | OpClearAll

datatype ('k, 'v) lru_answer =
    AValue "'v option" | AStored 'v bool | AExpire "('v \<times> int) option" | ABool bool
  | AItems "('k \<times> 'v \<times> int) list" | ADone

definition answer :: "('b \<Rightarrow> 'c) \<Rightarrow> ('b \<times> 's) option \<Rightarrow> ('c \<times> 's) outcome" where
  "answer f r = (case r of None \<Rightarrow> Diverges | Some (x, s) \<Rightarrow> Return (f x, s))"

fun lru_step :: "('l, 'h) list_ops \<Rightarrow> ('k, 'v) lru_op \<Rightarrow> ('k, 'v, 'l, 'h, 's) lru_state
    \<Rightarrow> (('k, 'v) lru_answer \<times> ('k, 'v, 'l, 'h, 's) lru_state) outcome" where
  "lru_step L (OpGet clk k) st = answer AValue (Get_lru L clk k st)"
| "lru_step L (OpGetOrStore clk k v) st = answer (\<lambda>(v, ok). AStored v ok) (GetOrStore L clk k v st)"
| "lru_step L (OpGetWithExpire clk k) st = answer AExpire (GetWithExpire L clk k st)"
| "lru_step L (OpExist k) st = Return (ABool (Exist k st), st)"
| "lru_step L (OpSet clk k v) st = answer (\<lambda>_. ADone) (map_option (Pair ()) (Set_lru L clk k v st))"
| "lru_step L (OpSetWithExpire clk k v ex) st = answer (\<lambda>_. ADone) (map_option (Pair ()) (SetWithExpire L clk k v ex st))"
| "lru_step L (OpDelete k) st = Return (ADone, Delete_lru L k st)"
| "lru_step L (OpCompute clk k f) st = answer AValue (Compute L clk k f st)"
| "lru_step L OpSnapshot st = answer AItems (map_option (\<lambda>x. (x, st)) (Snapshot L st))"
| "lru_step L OpClearAll st = Return (ADone, (Clear_lru L (fst st), snd st))"

fun acache_step :: "('k, 'v) lru_op \<Rightarrow> ('k, 'v, 's) acache \<Rightarrow> (('k, 'v) lru_answer \<times> ('k, 'v, 's) acache) outcome" where
  "acache_step (OpGet clk k) A = (case a_get clk k A of (r, A') \<Rightarrow> Return (AValue (map_option fst r), A'))"
| "acache_step (OpGetOrStore clk k v) A =
     (case a_get clk k A of
        (None, A') \<Rightarrow> Return (AStored v False, a_set (\<lambda>i. clk (i + 2)) k v A')
      | (Some (u, _), A') \<Rightarrow> Return (AStored u True, A'))"
| "acache_step (OpGetWithExpire clk k) A = (case a_get clk k A of (r, A') \<Rightarrow> Return (AExpire r, A'))"
| "acache_step (OpExist k) A = Return (ABool (map_of (a_items A) k \<noteq> None), A)"
| "acache_step (OpSet clk k v) A = Return (ADone, a_set clk k v A)"
| "acache_step (OpSetWithExpire clk k v ex) A = Return (ADone, a_put (clk 0) k v ex A)"
| "acache_step (OpDelete k) A = Return (ADone, a_delete k A)"
| "acache_step (OpCompute clk k f) A =
     (case a_get clk k A of (r, A') \<Rightarrow>
        (case f (map_option fst r) of
           None \<Rightarrow> Return (AValue None, a_delete k A')
         | Some v \<Rightarrow> Return (AValue (Some v), a_set (\<lambda>i. clk (i + 2)) k v A')))"
| "acache_step OpSnapshot A = Return (AItems (a_items A), A)"
| "acache_step OpClearAll A = Return (ADone, A\<lparr>a_items := []\<rparr>)"

text \<open>
  Replaying a snapshot into a cache with \<open>SetWithExpire\<close>, oldest entry first.  Every call reads
  the time for itself: \<open>clk i\<close> is the clock of the \<open>i\<close>-th call.
\<close>

fun restore :: "('l, 'h) list_ops \<Rightarrow> (nat \<Rightarrow> nat \<Rightarrow> int) \<Rightarrow> ('k \<times> 'v \<times> int) list \<Rightarrow> ('k, 'v, 'l, 'h, 's) lru_state
    \<Rightarrow> ('k, 'v, 'l, 'h, 's) lru_state option" where
  "restore L clk [] st = Some st"
| "restore L clk ((k, v, ex) # xs) st = SetWithExpire L (clk 0) k v ex st \<bind> restore L (\<lambda>i. clk (Suc i)) xs"

section \<open>A list package\<close>

text \<open>An instance of the list package, to evaluate the model on concrete inputs.\<close>

definition simple_list :: "(nat \<times> ((nat \<times> nat) \<times> nat) list, nat \<times> nat) list_ops" where
  "simple_list = \<lparr>
     l_New = (0, []),
     l_PushBack = (\<lambda>(n, xs) e. ((n, e), (Suc n, xs @ [((n, e), e)]))),
     l_MoveToBack = (\<lambda>(n, xs) h. (n, filter (\<lambda>x. fst x \<noteq> h) xs @ filter (\<lambda>x. fst x = h) xs)),
     l_Remove = (\<lambda>(n, xs) h. (n, filter (\<lambda>x. fst x \<noteq> h) xs)),
     l_Front = (\<lambda>(n, xs). case xs of [] \<Rightarrow> None | x # _ \<Rightarrow> Some (fst x)),
     l_Next = (\<lambda>(n, xs) h. case tl (dropWhile (\<lambda>x. fst x \<noteq> h) xs) of [] \<Rightarrow> None | x # _ \<Rightarrow> Some (fst x)),
     l_Len = (\<lambda>(n, xs). length xs),
     l_Value = snd\<rparr>"

definition simple_ok :: "nat \<times> ((nat \<times> nat) \<times> nat) list \<Rightarrow> bool" where
  "simple_ok l \<longleftrightarrow> distinct (map fst (snd l)) \<and>
     (\<forall>x\<in>set (snd l). fst (fst x) < fst l \<and> snd (fst x) = snd x)"

end
