(* ===== verification/Lru_Proofs.thy ===== *)
theory Lru_Proofs
  imports Lru
begin

text \<open>
  The LRU cache implements its contract.  First the facts on the list package and on the store of
  entries, then one lemma per internal operation that relates it to its counterpart on the abstract
  cache, then the simulation of whole runs and the properties of the contract itself.
\<close>

section \<open>The list package and the entries\<close>

lemma filter_key_unique: "distinct (map f xs) \<Longrightarrow> x \<in> set xs \<Longrightarrow> filter (\<lambda>y. f y = f x) xs = [x]"
proof (induction xs)
  case (Cons y xs)
  show ?case
  proof (cases "x = y")
    case True
    have "f z \<noteq> f y" if "z \<in> set xs" for z using that Cons.prems(1) by (metis distinct.simps(2) imageI list.set_map list.simps(9))
    then show ?thesis using True by (simp add: filter_empty_conv)
  next
    case False
    then have "x \<in> set xs" "f y \<noteq> f x" using Cons.prems by (auto simp: image_iff)
    then show ?thesis using Cons by simp
  qed
qed simp

lemma list_lawsD:
  assumes "list_laws L ok seq"
  shows "ok (l_New L)" "seq (l_New L) = []"
    and "ok l \<Longrightarrow> l_PushBack L l e = (h, l') \<Longrightarrow> ok l' \<and> seq l' = seq l @ [(h, e)] \<and> h \<notin> fst ` set (seq l)"
    and "ok l \<Longrightarrow> (h, e) \<in> set (seq l) \<Longrightarrow> ok (l_MoveToBack L l h)"
    and "ok l \<Longrightarrow> (h, e) \<in> set (seq l) \<Longrightarrow> seq (l_MoveToBack L l h) = filter (\<lambda>x. fst x \<noteq> h) (seq l) @ [(h, e)]"
    and "ok l \<Longrightarrow> (h, e) \<in> set (seq l) \<Longrightarrow> ok (l_Remove L l h)"
    and "ok l \<Longrightarrow> (h, e) \<in> set (seq l) \<Longrightarrow> seq (l_Remove L l h) = filter (\<lambda>x. fst x \<noteq> h) (seq l)"
    and "ok l \<Longrightarrow> (h, e) \<in> set (seq l) \<Longrightarrow> l_Value L h = e"
    and "ok l \<Longrightarrow> l_Front L l = (case seq l of [] \<Rightarrow> None | x # _ \<Rightarrow> Some (fst x))"
    and "ok l \<Longrightarrow> seq l = xs @ (h, e) # ys \<Longrightarrow> l_Next L l h = (case ys of [] \<Rightarrow> None | y # _ \<Rightarrow> Some (fst y))"
    and "ok l \<Longrightarrow> l_Len L l = length (seq l)"
proof -
  have push: "\<forall>l e. ok l \<longrightarrow> (case l_PushBack L l e of (h, l') \<Rightarrow>
        ok l' \<and> seq l' = seq l @ [(h, e)] \<and> h \<notin> fst ` set (seq l))"
    using assms unfolding list_laws_def by (elim conjE)
  show "ok l' \<and> seq l' = seq l @ [(h, e)] \<and> h \<notin> fst ` set (seq l)"
    if "ok l" "l_PushBack L l e = (h, l')" using push [rule_format, OF that(1), of e] that(2) by simp
qed (use assms in \<open>simp_all only: list_laws_def\<close>)

lemma simple_list_laws: "list_laws simple_list simple_ok snd"
proof -
  have move: "filter (\<lambda>x. fst x = h) xs = [(h, e)]"
    if "distinct (map fst xs)" "(h, e) \<in> set xs" for h :: "nat \<times> nat" and e :: nat and xs
    using filter_key_unique [OF that] by simp
  have dw: "dropWhile (\<lambda>x. fst x \<noteq> h) (xs @ (h, e) # ys) = (h, e) # ys"
    if "distinct (map fst (xs @ (h, e) # ys))" for h :: "nat \<times> nat" and e :: nat and xs ys
    using that by (subst dropWhile_append2) (auto simp: image_iff)
  have push: "simple_ok l \<longrightarrow> (case l_PushBack simple_list l e of (h, l') \<Rightarrow>
        simple_ok l' \<and> snd l' = snd l @ [(h, e)] \<and> h \<notin> fst ` set (snd l))" for l e
    by (cases l) (fastforce simp: simple_list_def simple_ok_def)
  have rem: "simple_ok l \<and> (h, e) \<in> set (snd l) \<longrightarrow>
        simple_ok (l_MoveToBack simple_list l h) \<and>
        snd (l_MoveToBack simple_list l h) = filter (\<lambda>x. fst x \<noteq> h) (snd l) @ [(h, e)] \<and>
        simple_ok (l_Remove simple_list l h) \<and> snd (l_Remove simple_list l h) = filter (\<lambda>x. fst x \<noteq> h) (snd l) \<and>
        l_Value simple_list h = e" for l h e
    using move [of "snd l" h e]
    by (cases l) (fastforce simp: simple_list_def simple_ok_def distinct_map_filter)
  show ?thesis unfolding list_laws_def
    by (intro conjI allI push rem) (auto simp: simple_list_def simple_ok_def dw split_beta simp del: dropWhile_append)
qed

lemma elems_ok_key_inj:
  "elems_ok es sq \<Longrightarrow> x \<in> set sq \<Longrightarrow> y \<in> set sq \<Longrightarrow> (key (es ! snd x) = key (es ! snd y)) = (x = y)"
  "elems_ok es sq \<Longrightarrow> x \<in> set sq \<Longrightarrow> y \<in> set sq \<Longrightarrow> (fst x = fst y) = (x = y)"
  "elems_ok es sq \<Longrightarrow> x \<in> set sq \<Longrightarrow> y \<in> set sq \<Longrightarrow> (snd x = snd y) = (x = y)"
  by (auto simp: elems_ok_def distinct_map dest: inj_onD)

lemma key_index_Some:
  "elems_ok es sq \<Longrightarrow> key_index es sq k = Some h \<longleftrightarrow> (\<exists>a. (h, a) \<in> set sq \<and> key (es ! a) = k)"
  by (force simp: key_index_def elems_ok_def comp_def intro!: map_of_is_SomeI dest!: map_of_SomeD)

lemma key_index_None: "key_index es sq k = None \<longleftrightarrow> k \<notin> fst ` set (view es sq)"
  by (auto simp: key_index_def view_def map_of_eq_None_iff image_iff)

lemma view_lookup:
  assumes "elems_ok es sq" "(h, a) \<in> set sq"
  shows "map_of (view es sq) (key (es ! a)) = Some (val (es ! a), expires (es ! a))"
  using assms by (intro map_of_is_SomeI) (force simp: elems_ok_def view_def comp_def)+

lemma handle_filter:
  assumes "elems_ok es sq" "(h, a) \<in> set sq"
  shows "filter (\<lambda>x. fst x \<noteq> h) sq = filter (\<lambda>x. key (es ! snd x) \<noteq> key (es ! a)) sq"
  by (rule filter_cong) (use assms elems_ok_key_inj[OF assms(1) _ assms(2)] in auto)

lemma view_append: "view es (xs @ ys) = view es xs @ view es ys"
  by (simp add: view_def)

lemma view_one: "view es [x] = [(key (es ! snd x), val (es ! snd x), expires (es ! snd x))]"
  by (simp add: view_def)

lemma view_filter:
  assumes "elems_ok es sq" "(h, a) \<in> set sq"
  shows "view es (filter (\<lambda>x. fst x \<noteq> h) sq) = filter (\<lambda>x. fst x \<noteq> key (es ! a)) (view es sq)"
  unfolding handle_filter [OF assms] by (simp add: view_def filter_map comp_def)

lemma view_only:
  assumes "elems_ok es sq" "(h, a) \<in> set sq"
  shows "filter (\<lambda>x. fst x = key (es ! a)) (view es sq) = [(key (es ! a), val (es ! a), expires (es ! a))]"
proof -
  have "filter (\<lambda>x. key (es ! snd x) = key (es ! a)) sq = [(h, a)]"
    using filter_key_unique [of "\<lambda>x. key (es ! snd x)" sq "(h, a)"] assms by (simp add: elems_ok_def)
  then show ?thesis by (simp add: view_def filter_map comp_def)
qed

lemma elems_ok_filter: "elems_ok es sq \<Longrightarrow> elems_ok es (filter P sq)"
  by (auto simp: elems_ok_def distinct_map_filter)

lemma map_of_filter_keys: "map_of (filter (\<lambda>x. fst x \<noteq> k) xs) = (map_of xs)(k := None)"
  by (induction xs) (auto simp: fun_eq_iff)

lemma key_index_filter:
  assumes "elems_ok es sq" "(h, a) \<in> set sq"
  shows "key_index es (filter (\<lambda>x. fst x \<noteq> h) sq) = (key_index es sq)(key (es ! a) := None)"
proof -
  have "map (\<lambda>x. (key (es ! snd x), fst x)) (filter (\<lambda>x. fst x \<noteq> h) sq)
      = filter (\<lambda>x. fst x \<noteq> key (es ! a)) (map (\<lambda>x. (key (es ! snd x), fst x)) sq)"
    unfolding handle_filter [OF assms] by (simp add: filter_map comp_def)
  then show ?thesis by (simp add: key_index_def map_of_filter_keys)
qed

lemma key_index_snoc:
  "elems_ok es (sq @ [(h, a)]) \<Longrightarrow> key_index es (sq @ [(h, a)]) = (key_index es sq)(key (es ! a) \<mapsto> h)"
  by (auto simp: key_index_def elems_ok_def map_add_def fun_eq_iff split: option.split dest!: map_of_SomeD)

lemma entry_update:
  assumes "elems_ok es sq" "(h, a) \<in> set sq" "key e = key (es ! a)"
  defines "sq' \<equiv> filter (\<lambda>x. fst x \<noteq> h) sq @ [(h, a)]"
  shows "elems_ok (es[a := e]) sq'" "key_index (es[a := e]) sq' = key_index es sq"
    "view (es[a := e]) sq' = filter (\<lambda>x. fst x \<noteq> key e) (view es sq) @ [(key e, val e, expires e)]"
proof -
  have a: "a < length es" using assms(1,2) by (auto simp: elems_ok_def)
  have other: "snd x \<noteq> a" if "x \<in> set sq" "fst x \<noteq> h" for x
    using elems_ok_key_inj(3)[OF assms(1) that(1) assms(2)] that(2) by auto
  have same_key: "key (es[a := e] ! n) = key (es ! n)" for n
    using assms(3) a by (cases "n = a") simp_all
  have old: "elems_ok es sq'"
  proof -
    have "set sq' = set sq" using assms(2) elems_ok_key_inj(2)[OF assms(1) _ assms(2)] by (auto simp: sq'_def)
    moreover have "distinct sq'" using assms(1,2) by (auto simp: sq'_def elems_ok_def distinct_map)
    ultimately show ?thesis using assms(1) by (auto simp: elems_ok_def distinct_map)
  qed
  then show "elems_ok (es[a := e]) sq'" by (simp add: elems_ok_def same_key)
  have "key_index es sq' = key_index es sq"
    unfolding sq'_def by (subst key_index_snoc)
      (use old key_index_filter [OF assms(1,2)] key_index_Some [OF assms(1), of "key (es ! a)" h] assms(2) in
       \<open>auto simp: sq'_def\<close>)
  then show "key_index (es[a := e]) sq' = key_index es sq" by (simp add: key_index_def same_key)
  have "view (es[a := e]) (filter (\<lambda>x. fst x \<noteq> h) sq) = view es (filter (\<lambda>x. fst x \<noteq> h) sq)"
    using other by (fastforce simp: view_def)
  then show "view (es[a := e]) sq' = filter (\<lambda>x. fst x \<noteq> key e) (view es sq) @ [(key e, val e, expires e)]"
    using a view_filter [OF assms(1,2)] by (simp add: sq'_def view_append view_one assms(3))
qed

section \<open>The operations\<close>

lemma a_drop_simps [simp]:
  "a_items (a_drop g xs A) = xs" "a_maxAge (a_drop g xs A) = a_maxAge A" "a_maxSize (a_drop g xs A) = a_maxSize A"
  "a_updateAge (a_drop g xs A) = a_updateAge A" "a_stale (a_drop g xs A) = a_stale A"
  "a_onEvict (a_drop g xs A) = a_onEvict A"
  by (simp_all add: a_drop_def)

lemma a_drop_drop: "a_drop g2 xs2 (a_drop g1 xs1 A) = a_drop (g1 @ g2) xs2 A"
  by (simp add: a_drop_def a_evicted_def split: option.split)

lemma a_drop_none: "a_drop [] (a_items A) A = A"
  by (simp add: a_drop_def a_evicted_def split: option.split)

lemma deleteElement_rep:
  assumes L: "list_laws L ok seq" and inv: "lru_inv ok seq st" and x: "(h, a) \<in> set (seq (lru (fst st)))"
  shows "lru_rep ok seq (deleteElement L h st) (a_delete (key (entries (snd st) ! a)) (abs_lru seq st))"
proof -
  obtain c w where st: "st = (c, w)" by force
  let ?es = "entries w" and ?sq = "seq (lru c)"
  have i: "ok (lru c)" "elems_ok ?es ?sq" "cache c = key_index ?es ?sq" and x': "(h, a) \<in> set ?sq"
    using inv x by (simp_all add: st lru_inv_def)
  have v: "l_Value L h = a" and r: "ok (l_Remove L (lru c) h)" "seq (l_Remove L (lru c) h) = filter (\<lambda>x. fst x \<noteq> h) ?sq"
    using list_lawsD(6-8)[OF L i(1) x'] by simp_all
  have "lru_inv ok seq (deleteElement L h st)"
    using r i elems_ok_filter [OF i(2)] key_index_filter [OF i(2) x']
    by (simp add: st deleteElement_def Let_def v lru_inv_def split: option.split)
  moreover have "abs_lru seq (deleteElement L h st) = a_delete (key (?es ! a)) (abs_lru seq st)"
    using view_filter [OF i(2) x'] view_only [OF i(2) x']
    by (simp add: st deleteElement_def Let_def v abs_lru_def r a_delete_def a_drop_def a_evicted_def split: option.split)
  ultimately show ?thesis by (simp add: lru_rep_def st)
qed

lemma front_delete:
  assumes L: "list_laws L ok seq" and inv: "lru_inv ok seq st" and sq: "seq (lru (fst st)) = (h, a) # sq"
  shows "lru_rep ok seq (deleteElement L h st)
     (a_drop [hd (a_items (abs_lru seq st))] (tl (a_items (abs_lru seq st))) (abs_lru seq st))"
    and "seq (lru (fst (deleteElement L h st))) = sq"
proof -
  obtain c w where st: "st = (c, w)" by force
  have i: "ok (lru c)" "elems_ok (entries w) ((h, a) # sq)" and x: "(h, a) \<in> set (seq (lru c))"
    using inv sq by (simp_all add: st lru_inv_def)
  let ?k = "key (entries w ! a)" and ?A = "abs_lru seq st"
  have items: "a_items ?A = (?k, val (entries w ! a), expires (entries w ! a)) # view (entries w) sq"
    using sq by (simp add: st abs_lru_def view_def)
  have fresh: "\<forall>y\<in>set (view (entries w) sq). fst y \<noteq> ?k"
    using i(2) by (force simp: elems_ok_def view_def)
  have "a_delete ?k ?A = a_drop [hd (a_items ?A)] (tl (a_items ?A)) ?A"
    using fresh by (simp add: a_delete_def items filter_empty_conv filter_id_conv)
  then show "lru_rep ok seq (deleteElement L h st) (a_drop [hd (a_items ?A)] (tl (a_items ?A)) ?A)"
    using deleteElement_rep [OF L inv, of h a] x by (simp add: st)
  have "seq (l_Remove L (lru c) h) = sq"
    using list_lawsD(7)[OF L i(1) x] sq i(2) by (auto simp: st elems_ok_def filter_id_conv)
  then show "seq (lru (fst (deleteElement L h st))) = sq"
    by (simp add: st deleteElement_def Let_def split: option.split)
qed

lemma deleteOldest_loop_rep:
  assumes L: "list_laws L ok seq" and inv: "lru_inv ok seq st"
  shows "\<exists>st'. deleteOldest_loop L now st = Some st' \<and>
     lru_rep ok seq st' (a_drop (takeWhile (expired now) (a_items (abs_lru seq st)))
                            (dropWhile (expired now) (a_items (abs_lru seq st))) (abs_lru seq st))"
  using inv
proof (induction "seq (lru (fst st))" arbitrary: st)
  case Nil
  then have items: "a_items (abs_lru seq st) = []" by (simp add: abs_lru_def view_def split_beta)
  moreover have "l_Front L (lru (fst st)) = None"
    using Nil list_lawsD(9)[OF L] by (simp add: lru_inv_def split_beta)
  ultimately show ?case using Nil a_drop_none [of "abs_lru seq st"]
    by (subst deleteOldest_loop.simps) (simp add: lru_rep_def)
next
  case (Cons x sq)
  obtain h a where x: "x = (h, a)" by force
  have sq: "seq (lru (fst st)) = (h, a) # sq" using Cons(2) x by simp
  have ok: "ok (lru (fst st))" using Cons.prems by (simp add: lru_inv_def split_beta)
  have f: "l_Front L (lru (fst st)) = Some h" "l_Value L h = a"
    using list_lawsD(9)[OF L ok] list_lawsD(8)[OF L ok, of h a] sq by simp_all
  let ?A = "abs_lru seq st" and ?st = "deleteElement L h st"
  note fd = front_delete [OF L Cons.prems sq]
  have items: "a_items ?A = (key (entries (snd st) ! a), val (entries (snd st) ! a), expires (entries (snd st) ! a))
      # view (entries (snd st)) sq"
    using sq by (simp add: abs_lru_def view_def split_beta)
  show ?case
  proof (cases "expires (entries (snd st) ! a) \<le> now")
    case True
    have inv': "lru_inv ok seq ?st" and A': "abs_lru seq ?st = a_drop [hd (a_items ?A)] (tl (a_items ?A)) ?A"
      using fd(1) by (simp_all add: lru_rep_def)
    have step: "deleteOldest_loop L now st = deleteOldest_loop L now ?st"
      using True f by (subst deleteOldest_loop.simps) simp
    show ?thesis unfolding step using Cons.hyps(1)[OF fd(2)[symmetric] inv'] True
      by (simp add: A' a_drop_drop items expired_def)
  next
    case False
    then have "deleteOldest_loop L now st = Some st" using f by (subst deleteOldest_loop.simps) simp
    moreover have "lru_rep ok seq st (a_drop [] (a_items ?A) ?A)"
      using Cons.prems unfolding a_drop_none by (simp add: lru_rep_def)
    ultimately show ?thesis using False by (simp add: items expired_def)
  qed
qed

lemma maybeDeleteOldest_rep:
  assumes L: "list_laws L ok seq" and rep: "lru_rep ok seq st A"
  shows "\<exists>st'. maybeDeleteOldest L now st = Some st' \<and> lru_rep ok seq st' (a_sweep now A)"
proof -
  have inv: "lru_inv ok seq st" and A: "A = abs_lru seq st" using rep by (simp_all add: lru_rep_def)
  have "a_ages A \<longleftrightarrow> \<not> staleReturn (fst st) \<and> maxAge (fst st) > 0"
    by (simp add: A a_ages_def abs_lru_def split_beta)
  then show ?thesis using deleteOldest_loop_rep [OF L inv, of now] rep
    by (cases "a_ages A") (auto simp: maybeDeleteOldest_def a_sweep_def A simp del: split_paired_Ex)
qed

lemma cache_lookup:
  assumes L: "list_laws L ok seq" and rep: "lru_rep ok seq st A"
  shows "cache (fst st) k = None \<Longrightarrow> map_of (a_items A) k = None"
    and "cache (fst st) k = Some h \<Longrightarrow> \<exists>a. (h, a) \<in> set (seq (lru (fst st))) \<and> l_Value L h = a \<and>
           key (entries (snd st) ! a) = k \<and> a < length (entries (snd st)) \<and>
           map_of (a_items A) k = Some (val (entries (snd st) ! a), expires (entries (snd st) ! a))"
proof -
  obtain c w where st: "st = (c, w)" by force
  have i: "ok (lru c)" "elems_ok (entries w) (seq (lru c))" "cache c = key_index (entries w) (seq (lru c))"
    "a_items A = view (entries w) (seq (lru c))"
    using rep by (auto simp: lru_rep_def lru_inv_def abs_lru_def st)
  show "map_of (a_items A) k = None" if "cache (fst st) k = None"
    using that by (simp add: st i key_index_None map_of_eq_None_iff)
  show "\<exists>a. (h, a) \<in> set (seq (lru (fst st))) \<and> l_Value L h = a \<and>
           key (entries (snd st) ! a) = k \<and> a < length (entries (snd st)) \<and>
           map_of (a_items A) k = Some (val (entries (snd st) ! a), expires (entries (snd st) ! a))"
    if h: "cache (fst st) k = Some h"
  proof -
    obtain a where a: "(h, a) \<in> set (seq (lru c))" "key (entries w ! a) = k"
      using h key_index_Some [OF i(2)] by (auto simp: st i(3))
    have "a < length (entries w)" using a(1) i(2) by (auto simp: elems_ok_def)
    then show ?thesis using a list_lawsD(8)[OF L i(1) a(1)] view_lookup [OF i(2) a(1)] by (auto simp: st i(4))
  qed
qed

text \<open>Moving an element to the back and rewriting its entry.\<close>

lemma touch_rep:
  assumes L: "list_laws L ok seq" and rep: "lru_rep ok seq (c, w) A"
    and x: "(h, a) \<in> set (seq (lru c))" and e: "key e = key (entries w ! a)"
  shows "lru_rep ok seq (c\<lparr>lru := l_MoveToBack L (lru c) h\<rparr>, w\<lparr>entries := (entries w)[a := e]\<rparr>)
           (a_touch (key e) (val e) (expires e) A)"
proof -
  have i: "ok (lru c)" "elems_ok (entries w) (seq (lru c))" "cache c = key_index (entries w) (seq (lru c))"
    "A = abs_lru seq (c, w)"
    using rep by (auto simp: lru_rep_def lru_inv_def)
  show ?thesis
    using list_lawsD(4,5)[OF L i(1) x] entry_update [OF i(2) x e] i(3)
    by (simp add: lru_rep_def lru_inv_def abs_lru_def a_touch_def i(4))
qed

lemma get_rep:
  assumes L: "list_laws L ok seq" and rep: "lru_rep ok seq st A"
  shows "\<exists>r st'. get L clk k st = Some (r, st') \<and> lru_rep ok seq st' (snd (a_get clk k A)) \<and>
     map_option (\<lambda>a. (val (entries (snd st') ! a), expires (entries (snd st') ! a))) r = fst (a_get clk k A)"
proof (cases "cache (fst st) k")
  case None
  then show ?thesis using rep cache_lookup(1)[OF L rep, of k]
    by (simp add: get_def a_get_def split_beta)
next
  case (Some h)
  obtain c w where st: "st = (c, w)" by force
  have A: "A = abs_lru seq st" and inv: "lru_inv ok seq st" using rep by (simp_all add: lru_rep_def)
  from cache_lookup(2)[OF L rep Some] obtain a where a: "(h, a) \<in> set (seq (lru c))" "l_Value L h = a"
      "key (entries w ! a) = k" "a < length (entries w)" "map_of (a_items A) k = Some (val (entries w ! a), expires (entries w ! a))"
    by (auto simp: st)
  have cfg: "a_ages A \<longleftrightarrow> \<not> staleReturn c \<and> maxAge c > 0" "a_maxAge A = maxAge c" "a_updateAge A = updateAgeOnGet c"
    by (simp_all add: A st abs_lru_def a_ages_def)
  show ?thesis
  proof (cases "a_ages A \<and> expires (entries w ! a) \<le> clk 0")
    case True
    obtain st' where "maybeDeleteOldest L (clk 1) (deleteElement L h (c, w)) = Some st'"
        "lru_rep ok seq st' (a_sweep (clk 1) (a_delete k A))"
      using maybeDeleteOldest_rep [OF L deleteElement_rep [OF L inv, of h a], of "clk 1"] a(1,3)
      by (auto simp: st A)
    then show ?thesis using True cfg(1) Some by (simp add: get_def st a a_get_def)
  next
    case False
    let ?e = "if maxAge c > 0 \<and> updateAgeOnGet c then (entries w ! a)\<lparr>expires := clk 1 + maxAge c\<rparr> else entries w ! a"
    have r: "lru_rep ok seq (c\<lparr>lru := l_MoveToBack L (lru c) h\<rparr>, w\<lparr>entries := (entries w)[a := ?e]\<rparr>)
           (a_touch (key ?e) (val ?e) (expires ?e) A)"
      using rep a(1) by (intro touch_rep [OF L]) (simp_all add: st)
    have "get L clk k st = Some (Some a, (c\<lparr>lru := l_MoveToBack L (lru c) h\<rparr>, w\<lparr>entries := (entries w)[a := ?e]\<rparr>))"
      using False cfg(1) Some a(2) by (auto simp: get_def st Let_def)
    then show ?thesis using r False a cfg by (auto simp: a_get_def Let_def split: if_splits)
  qed
qed

lemma setWithExpire_rep:
  assumes L: "list_laws L ok seq" and rep: "lru_rep ok seq st A"
  shows "\<exists>st'. setWithExpire L now k v ex st = Some st' \<and> lru_rep ok seq st' (a_put now k v ex A)"
proof (cases "cache (fst st) k")
  case (Some h)
  obtain c w where st: "st = (c, w)" by force
  from cache_lookup(2)[OF L rep Some] obtain a where a: "(h, a) \<in> set (seq (lru c))" "l_Value L h = a"
      "key (entries w ! a) = k" "map_of (a_items A) k \<noteq> None"
    by (auto simp: st)
  have "lru_rep ok seq (c\<lparr>lru := l_MoveToBack L (lru c) h\<rparr>,
      w\<lparr>entries := (entries w)[a := (entries w ! a)\<lparr>val := v, expires := ex\<rparr>]\<rparr>) (a_touch k v ex A)"
    using touch_rep [OF L, of c w A h a "(entries w ! a)\<lparr>val := v, expires := ex\<rparr>"] rep a by (simp add: st)
  from maybeDeleteOldest_rep [OF L this, of now] show ?thesis
    using Some a by (simp add: setWithExpire_def st a_put_def Let_def)
next
  case None
  obtain c w where st: "st = (c, w)" by force
  have i: "ok (lru c)" "elems_ok (entries w) (seq (lru c))" "cache c = key_index (entries w) (seq (lru c))"
    "A = abs_lru seq (c, w)"
    using rep by (auto simp: lru_rep_def lru_inv_def st)
  obtain h l where push: "l_PushBack L (lru c) (length (entries w)) = (h, l)" by force
  note p = list_lawsD(3)[OF L i(1) push]
  let ?es = "entries w @ [\<lparr>key = k, val = v, expires = ex\<rparr>]" and ?ys = "a_items A @ [(k, v, ex)]"
  let ?st = "(c\<lparr>lru := l, cache := (cache c)(k \<mapsto> h)\<rparr>, w\<lparr>entries := ?es\<rparr>)"
  have lt: "\<forall>x\<in>set (seq (lru c)). snd x < length (entries w)" using i(2) by (simp add: elems_ok_def)
  have old: "view ?es (seq (lru c)) = view (entries w) (seq (lru c))" "key_index ?es (seq (lru c)) = key_index (entries w) (seq (lru c))"
      "map (\<lambda>x. key (?es ! snd x)) (seq (lru c)) = map (\<lambda>x. key (entries w ! snd x)) (seq (lru c))"
    using lt by (auto simp: view_def key_index_def nth_append cong: map_cong)
  have fresh: "k \<notin> key ` (\<lambda>x. entries w ! snd x) ` set (seq (lru c))"
    using None by (auto simp: st i(3) key_index_None view_def image_iff)
  have "elems_ok ?es (seq (lru c) @ [(h, length (entries w))])"
    using p lt i(2) fresh unfolding elems_ok_def map_append old(3) by (fastforce simp: image_iff)
  then have r: "lru_rep ok seq ?st (A\<lparr>a_items := ?ys\<rparr>)"
    using p i key_index_snoc [of ?es "seq (lru c)" h "length (entries w)"] old
    by (simp add: lru_rep_def lru_inv_def abs_lru_def view_append view_one)
  have m: "map_of (a_items A) k = None" using cache_lookup(1)[OF L rep None] .
  show ?thesis
  proof (cases "a_maxSize A > 0 \<and> int (length ?ys) > a_maxSize A")
    case False
    have "\<not> (maxSize c > 0 \<and> int (l_Len L l) > maxSize c)"
      using False p list_lawsD(11)[OF L, of l] by (auto simp: i(4) abs_lru_def view_def)
    then have "setWithExpire L now k v ex st = maybeDeleteOldest L now ?st"
      using None by (auto simp: setWithExpire_def st push Let_def)
    moreover have "a_put now k v ex A = a_sweep now (A\<lparr>a_items := ?ys\<rparr>)"
      using m False by (auto simp: a_put_def Let_def)
    ultimately show ?thesis using maybeDeleteOldest_rep [OF L r, of now] by simp
  next
    case True
    obtain h0 a0 sq where sq: "seq (lru (fst ?st)) = (h0, a0) # sq"
    proof -
      have "seq l \<noteq> []" using p by simp
      then show thesis using that by (cases "seq l") auto
    qed
    have f: "l_Front L l = Some h0" using list_lawsD(9)[OF L, of l] p sq by simp
    have inv': "lru_inv ok seq ?st" and A': "abs_lru seq ?st = A\<lparr>a_items := ?ys\<rparr>" using r by (simp_all add: lru_rep_def)
    have del: "lru_rep ok seq (deleteElement L h0 ?st) (a_drop [hd ?ys] (tl ?ys) (A\<lparr>a_items := ?ys\<rparr>))"
      using front_delete(1)[OF L inv' sq] unfolding A' by simp
    have drop: "a_drop [hd ?ys] (tl ?ys) (A\<lparr>a_items := ?ys\<rparr>) = a_drop [hd ?ys] (tl ?ys) A"
      by (simp add: a_drop_def a_evicted_def split: option.split)
    have "maxSize c > 0 \<and> int (l_Len L l) > maxSize c"
      using True p list_lawsD(11)[OF L, of l] by (auto simp: i(4) abs_lru_def view_def)
    then have "setWithExpire L now k v ex st = maybeDeleteOldest L now (deleteElement L h0 ?st)"
      using None f by (auto simp: setWithExpire_def st push Let_def)
    moreover have "a_put now k v ex A = a_sweep now (a_drop [hd ?ys] (tl ?ys) A)"
      using m True by (auto simp: a_put_def Let_def)
    ultimately show ?thesis using maybeDeleteOldest_rep [OF L del, of now] drop by simp
  qed
qed

lemma set_lru_rep:
  assumes "list_laws L ok seq" and "lru_rep ok seq st A"
  shows "\<exists>st'. set_lru L clk k v st = Some st' \<and> lru_rep ok seq st' (a_set clk k v A)"
proof -
  have "maxAge (fst st) = a_maxAge A" using assms(2) by (auto simp: lru_rep_def abs_lru_def split_beta)
  then show ?thesis using setWithExpire_rep [OF assms] by (simp add: set_lru_def a_set_def)
qed

lemma a_delete_absent: "map_of (a_items A) k = None \<Longrightarrow> a_delete k A = A"
proof -
  assume "map_of (a_items A) k = None"
  then have "\<forall>x\<in>set (a_items A). fst x \<noteq> k" by (auto simp: map_of_eq_None_iff)
  then have "a_delete k A = a_drop [] (a_items A) A" by (simp add: a_delete_def filter_empty_conv filter_id_conv)
  then show ?thesis by (simp add: a_drop_none)
qed

lemma delete_rep:
  assumes L: "list_laws L ok seq" and rep: "lru_rep ok seq st A"
  shows "lru_rep ok seq (delete L k st) (a_delete k A)"
proof (cases "cache (fst st) k")
  case None
  then show ?thesis using a_delete_absent [OF cache_lookup(1)[OF L rep]] rep by (simp add: delete_def)
next
  case (Some h)
  then show ?thesis using cache_lookup(2)[OF L rep Some] deleteElement_rep [OF L, of st h] rep
    by (auto simp: delete_def lru_rep_def)
qed

lemma snapshot_loop_view:
  assumes L: "list_laws L ok seq" and l: "ok l"
  shows "seq l = xs @ ys \<Longrightarrow>
    snapshot_loop L l es (case ys of [] \<Rightarrow> None | y # _ \<Rightarrow> Some (fst y)) items = Some (items @ view es ys)"
proof (induction ys arbitrary: xs items)
  case Nil
  then show ?case by (subst snapshot_loop.simps) (simp add: view_def)
next
  case (Cons y ys)
  obtain h a where y: "y = (h, a)" by force
  have sq: "seq l = xs @ (h, a) # ys" using Cons.prems y by simp
  then have "l_Value L h = a" "l_Next L l h = (case ys of [] \<Rightarrow> None | y # _ \<Rightarrow> Some (fst y))"
    using list_lawsD(8)[OF L l, of h a] list_lawsD(10)[OF L l sq] by simp_all
  then show ?case using Cons.IH [of "xs @ [y]"] Cons.prems y
    by (subst snapshot_loop.simps) (simp add: Let_def view_def)
qed

lemma Snapshot_rep:
  assumes "list_laws L ok seq" and "lru_rep ok seq st A"
  shows "Snapshot L st = Some (a_items A)"
proof -
  have "ok (lru (fst st))" "a_items A = view (entries (snd st)) (seq (lru (fst st)))"
    using assms(2) by (auto simp: lru_rep_def lru_inv_def abs_lru_def split_beta)
  then show ?thesis using list_lawsD(9)[OF assms(1)]
      snapshot_loop_view [OF assms(1), of "lru (fst st)" "[]" "seq (lru (fst st))" "entries (snd st)" "[]"]
    by (simp add: Snapshot_def)
qed

text \<open>The copying loop has moved a prefix of the list over.\<close>

lemma clone_loop_rep:
  assumes L: "list_laws L ok seq" and l: "ok l"
  shows "seq l = xs @ ys \<Longrightarrow> elems_ok es (seq l) \<Longrightarrow> ok (lru n) \<Longrightarrow>
    map snd (seq (lru n)) = map snd xs \<Longrightarrow> distinct (map fst (seq (lru n))) \<Longrightarrow> cache n = key_index es (seq (lru n)) \<Longrightarrow>
    \<exists>n'. clone_loop L l es (case ys of [] \<Rightarrow> None | y # _ \<Rightarrow> Some (fst y)) n = Some n' \<and>
      ok (lru n') \<and> map snd (seq (lru n')) = map snd (seq l) \<and> distinct (map fst (seq (lru n'))) \<and>
      cache n' = key_index es (seq (lru n')) \<and> n' = n\<lparr>lru := lru n', cache := cache n'\<rparr>"
proof (induction ys arbitrary: xs n)
  case Nil
  then show ?case by (subst clone_loop.simps) simp
next
  case (Cons y ys)
  obtain h a where y: "y = (h, a)" by force
  have sq: "seq l = xs @ (h, a) # ys" using Cons.prems y by simp
  have nx: "l_Value L h = a" "l_Next L l h = (case ys of [] \<Rightarrow> None | y # _ \<Rightarrow> Some (fst y))"
    using list_lawsD(8)[OF L l, of h a] list_lawsD(10)[OF L l sq] sq by simp_all
  obtain h' l' where push: "l_PushBack L (lru n) a = (h', l')" by force
  note p = list_lawsD(3)[OF L Cons.prems(3) push]
  let ?n = "n\<lparr>lru := l', cache := (cache n)(key (es ! a) \<mapsto> h')\<rparr>"
  have keys: "map (\<lambda>x. key (es ! snd x)) (seq l') = map (\<lambda>x. key (es ! snd x)) (xs @ [(h, a)])"
    using Cons.prems(4) p by (simp add: map_eq_conv flip: map_map [of "\<lambda>a. key (es ! a)" snd, unfolded comp_def])
  have "distinct (map (\<lambda>x. key (es ! snd x)) (seq l'))"
    unfolding keys using Cons.prems(2) sq by (auto simp: elems_ok_def)
  then have "key_index es (seq l') = (cache n)(key (es ! a) \<mapsto> h')"
    using p Cons.prems(6) by (auto simp: key_index_def map_add_def fun_eq_iff split: option.split dest!: map_of_SomeD)
  then have "\<exists>n'. clone_loop L l es (case ys of [] \<Rightarrow> None | y # _ \<Rightarrow> Some (fst y)) ?n = Some n' \<and>
      ok (lru n') \<and> map snd (seq (lru n')) = map snd (seq l) \<and> distinct (map fst (seq (lru n'))) \<and>
      cache n' = key_index es (seq (lru n')) \<and> n' = ?n\<lparr>lru := lru n', cache := cache n'\<rparr>"
    using p Cons.prems y by (intro Cons.IH [of "xs @ [y]"]) auto
  then show ?case using nx push y by (subst clone_loop.simps) (simp add: Let_def)
qed

lemma same_pointers:
  assumes "map snd sq' = map snd sq"
  shows "map (\<lambda>x. f (snd x)) sq' = map (\<lambda>x. f (snd x)) sq" "(\<forall>x\<in>set sq'. P (snd x)) = (\<forall>x\<in>set sq. P (snd x))"
proof -
  show "map (\<lambda>x. f (snd x)) sq' = map (\<lambda>x. f (snd x)) sq" using arg_cong [OF assms, of "map f"] by (simp add: comp_def)
  show "(\<forall>x\<in>set sq'. P (snd x)) = (\<forall>x\<in>set sq. P (snd x))"
    using arg_cong [OF assms, of "\<lambda>ys. \<forall>y\<in>set ys. P y"] by simp
qed

lemma CloneTo_rep:
  assumes L: "list_laws L ok seq" and rep: "lru_rep ok seq (c, w) A"
  shows "\<exists>n'. CloneTo L c w n = Some n' \<and> lru_rep ok seq (n', w) ((abs_lru seq (n, w))\<lparr>a_items := a_items A\<rparr>)"
proof -
  have i: "ok (lru c)" "elems_ok (entries w) (seq (lru c))" "a_items A = view (entries w) (seq (lru c))"
    using rep by (auto simp: lru_rep_def lru_inv_def abs_lru_def)
  let ?n = "Clear_lru L n"
  have n: "ok (lru ?n)" "seq (lru ?n) = []" "cache ?n = key_index (entries w) []"
    using list_lawsD(1,2)[OF L] by (auto simp: Clear_lru_def key_index_def)
  obtain n' where n': "CloneTo L c w n = Some n'" "ok (lru n')" "map snd (seq (lru n')) = map snd (seq (lru c))"
      "distinct (map fst (seq (lru n')))" "cache n' = key_index (entries w) (seq (lru n'))"
      "n' = ?n\<lparr>lru := lru n', cache := cache n'\<rparr>"
    using clone_loop_rep [OF L i(1), of "[]" "seq (lru c)" "entries w" ?n] n i(2) list_lawsD(9)[OF L i(1)]
    by (auto simp: CloneTo_def)
  have "elems_ok (entries w) (seq (lru n'))" "view (entries w) (seq (lru n')) = view (entries w) (seq (lru c))"
    using i(2) n'(3,4) same_pointers(1)[OF n'(3), of "\<lambda>a. key (entries w ! a)"]
      same_pointers(2)[OF n'(3), of "\<lambda>a. a < length (entries w)"]
      same_pointers(1)[OF n'(3), of "\<lambda>a. (key (entries w ! a), val (entries w ! a), expires (entries w ! a))"]
    by (simp_all add: elems_ok_def view_def)
  then have "lru_rep ok seq (n', w) ((abs_lru seq (n, w))\<lparr>a_items := a_items A\<rparr>)"
    using n'(2,5) i(3) by (subst n'(6)) (simp add: lru_rep_def lru_inv_def abs_lru_def Clear_lru_def)
  then show ?thesis using n'(1) by blast
qed

lemma New_lru_rep:
  assumes "list_laws L ok seq"
  shows "lru_rep ok seq (New_lru L opts, \<lparr>entries = [], env = s\<rparr>) (a_new opts s)"
proof -
  have "lru_rep ok seq (c, w) A \<Longrightarrow> lru_rep ok seq (fold apply_option opts c, w) (fold a_option opts A)" for c w A
  proof (induction opts arbitrary: c A)
    case (Cons opt opts)
    have "lru_rep ok seq (apply_option opt c, w) (a_option opt A)"
      using Cons.prems by (cases opt) (auto simp: lru_rep_def lru_inv_def abs_lru_def)
    then show ?case using Cons.IH by simp
  qed simp
  moreover have "lru_rep ok seq (Clear_lru L \<lparr>maxAge = 0, maxSize = 0, cache = (\<lambda>_. None), lru = l_New L,
                    updateAgeOnGet = False, staleReturn = False, onEvict = None\<rparr>, \<lparr>entries = [], env = s\<rparr>) (a_empty s)"
    using list_lawsD(1,2)[OF assms]
    by (simp add: lru_rep_def lru_inv_def abs_lru_def Clear_lru_def a_empty_def elems_ok_def key_index_def view_def)
  ultimately show ?thesis by (simp add: New_lru_def a_new_def)
qed

lemma a_sweep_items: "a_items (a_sweep now A) = (if a_ages A then dropWhile (expired now) (a_items A) else a_items A)"
  by (simp add: a_sweep_def)

lemma a_sweep_sub: "set (a_items (a_sweep now A)) \<subseteq> set (a_items A)"
  by (auto simp: a_sweep_items dest: set_dropWhileD)

lemma a_get_miss:
  assumes "fst (a_get clk k A) = None"
  shows "map_of (a_items (snd (a_get clk k A))) k = None"
proof (cases "map_of (a_items A) k")
  case None
  then show ?thesis by (simp add: a_get_def)
next
  case (Some p)
  then have "snd (a_get clk k A) = a_sweep (clk 1) (a_delete k A)"
    using assms by (auto simp: a_get_def Let_def split: prod.splits if_splits)
  moreover have "\<forall>x\<in>set (a_items (a_delete k A)). fst x \<noteq> k" by (simp add: a_delete_def)
  ultimately show ?thesis using a_sweep_sub [of "clk 1" "a_delete k A"] by (auto simp: map_of_eq_None_iff)
qed

lemma get_simulates:
  assumes "list_laws L ok seq" and "lru_rep ok seq st A"
  shows "\<exists>r st'. get L clk k st = Some (r, st') \<and>
    (\<exists>A'. lru_rep ok seq st' A' \<and>
       a_get clk k A = (map_option (\<lambda>a. (val (entries (snd st') ! a), expires (entries (snd st') ! a))) r, A'))"
proof -
  obtain r st' where g: "get L clk k st = Some (r, st')" "lru_rep ok seq st' (snd (a_get clk k A))"
     "map_option (\<lambda>a. (val (entries (snd st') ! a), expires (entries (snd st') ! a))) r = fst (a_get clk k A)"
    using get_rep [OF assms, of clk k] by blast
  then have "a_get clk k A = (map_option (\<lambda>a. (val (entries (snd st') ! a), expires (entries (snd st') ! a))) r,
      snd (a_get clk k A))" by simp
  with g(1,2) show ?thesis by blast
qed

lemma Compute_rep:
  assumes L: "list_laws L ok seq" and rep: "lru_rep ok seq st A"
  shows "\<exists>st'. Compute L clk k f st = Some (f (map_option fst (fst (a_get clk k A))), st') \<and>
    lru_rep ok seq st' (case f (map_option fst (fst (a_get clk k A))) of
       None \<Rightarrow> a_delete k (snd (a_get clk k A))
     | Some v \<Rightarrow> a_set (\<lambda>i. clk (i + 2)) k v (snd (a_get clk k A)))"
proof -
  from get_simulates [OF L rep, of clk k] obtain r st1 A1 where g: "get L clk k st = Some (r, st1)" "lru_rep ok seq st1 A1"
      "a_get clk k A = (map_option (\<lambda>a. (val (entries (snd st1) ! a), expires (entries (snd st1) ! a))) r, A1)" by blast
  have r: "map_option fst (fst (a_get clk k A)) = map_option (\<lambda>a. val (entries (snd st1) ! a)) r"
    by (simp add: g option.map_comp comp_def)
  show ?thesis
  proof (cases "f (map_option (\<lambda>a. val (entries (snd st1) ! a)) r)")
    case (Some v)
    then show ?thesis using g set_lru_rep [OF L g(2), of "\<lambda>i. clk (i + 2)" k v]
      unfolding r by (auto simp: Compute_def)
  next
    case None
    have "a_delete k A1 = A1" if "r = None"
      using a_get_miss [of clk k A] g(3) that by (simp add: a_delete_absent)
    then show ?thesis using None g delete_rep [OF L g(2), of k]
      unfolding r by (cases r) (auto simp: Compute_def)
  qed
qed

lemma lru_simulates:
  assumes L: "list_laws L ok seq" and rep: "lru_rep ok seq st A"
  shows "simulated (lru_rep ok seq) (lru_step L op st) (acache_step op A)"
proof (cases op)
  case (OpGet clk k)
  then show ?thesis using get_simulates [OF L rep, of clk k]
    by (auto simp: Get_lru_def answer_def option.map_comp comp_def)
next
  case (OpGetWithExpire clk k)
  then show ?thesis using get_simulates [OF L rep, of clk k] by (auto simp: GetWithExpire_def answer_def)
next
  case (OpGetOrStore clk k v)
  from get_simulates [OF L rep, of clk k] obtain r st1 A1 where g: "get L clk k st = Some (r, st1)" "lru_rep ok seq st1 A1"
      "a_get clk k A = (map_option (\<lambda>a. (val (entries (snd st1) ! a), expires (entries (snd st1) ! a))) r, A1)" by blast
  then show ?thesis using set_lru_rep [OF L g(2), of "\<lambda>i. clk (i + 2)" k v] OpGetOrStore
    by (cases r) (auto simp: GetOrStore_def answer_def)
next
  case (OpCompute clk k f)
  then show ?thesis using Compute_rep [OF L rep, of clk k f]
    by (auto simp: answer_def split_beta split: option.splits)
next
  case (OpExist k)
  then show ?thesis using cache_lookup [OF L rep, of k] rep
    by (cases "cache (fst st) k") (auto simp: Exist_def)
next
  case (OpSet clk k v)
  then show ?thesis using set_lru_rep [OF L rep, of clk k v] by (auto simp: Set_lru_def answer_def)
next
  case (OpSetWithExpire clk k v ex)
  then show ?thesis using setWithExpire_rep [OF L rep, of "clk 0" k v ex] by (auto simp: SetWithExpire_def answer_def)
next
  case (OpDelete k)
  then show ?thesis using delete_rep [OF L rep, of k] by (simp add: Delete_lru_def)
next
  case OpSnapshot
  then show ?thesis using Snapshot_rep [OF L rep] rep by (simp add: answer_def)
next
  case OpClearAll
  then show ?thesis using list_lawsD(1,2)[OF L] rep
    by (auto simp: Clear_lru_def lru_rep_def lru_inv_def abs_lru_def elems_ok_def key_index_def view_def split_beta)
qed

section \<open>Facts on the contract\<close>

lemma a_bounded_sub:
  assumes "a_bounded A" "distinct (map fst (a_items B))" "length (a_items B) \<le> length (a_items A)"
    "a_maxSize B = a_maxSize A"
  shows "a_bounded B"
  using assms by (auto simp: a_bounded_def)

lemma a_sweep_bounded:
  assumes "a_bounded A"
  shows "a_bounded (a_sweep now A)"
proof (rule a_bounded_sub [OF assms])
  have "distinct (map fst (takeWhile (expired now) (a_items A) @ dropWhile (expired now) (a_items A)))"
    using assms by (simp add: a_bounded_def)
  then show "distinct (map fst (a_items (a_sweep now A)))" using assms
    by (auto simp: a_sweep_items a_bounded_def simp del: takeWhile_dropWhile_id)
qed (auto simp: a_sweep_items a_sweep_def length_dropWhile_le)

lemma filtered_keys:
  "distinct (map fst xs) \<Longrightarrow> distinct (map fst (filter P xs))"
  "k \<in> fst ` set xs \<Longrightarrow> length (filter (\<lambda>x. fst x \<noteq> k) xs) < length xs"
  by (auto simp: distinct_map_filter intro!: length_filter_less)

lemma a_touch_bounded:
  assumes "a_bounded A" "map_of (a_items A) k \<noteq> None"
  shows "a_bounded (a_touch k v ex A)"
proof -
  have "k \<in> fst ` set (a_items A)" using assms(2) by (auto simp: map_of_eq_None_iff)
  then show ?thesis using assms(1) filtered_keys(1)[of "a_items A"] filtered_keys(2)[of k "a_items A"] by (auto simp: a_bounded_def a_touch_def)
qed

lemma a_delete_bounded: "a_bounded A \<Longrightarrow> a_bounded (a_delete k A)"
  by (rule a_bounded_sub) (auto simp: a_bounded_def a_delete_def filtered_keys)

lemma a_get_bounded: "a_bounded A \<Longrightarrow> a_bounded (snd (a_get clk k A))"
  by (auto simp: a_get_def Let_def a_sweep_bounded a_delete_bounded a_touch_bounded split: option.split)

lemma a_put_bounded:
  assumes "a_bounded A"
  shows "a_bounded (a_put now k v ex A)"
proof (cases "map_of (a_items A) k")
  case None
  let ?ys = "a_items A @ [(k, v, ex)]"
  have d: "distinct (map fst ?ys)" using None assms by (auto simp: a_bounded_def map_of_eq_None_iff)
  have "distinct (map fst (tl ?ys))" using d by (simp add: map_tl distinct_tl)
  moreover have "int (length (tl ?ys)) \<le> a_maxSize A" if "a_maxSize A > 0"
    using assms that by (simp add: a_bounded_def)
  ultimately have "a_bounded (if a_maxSize A > 0 \<and> int (length ?ys) > a_maxSize A
      then a_drop [hd ?ys] (tl ?ys) A else A\<lparr>a_items := ?ys\<rparr>)"
    using d unfolding a_bounded_def by auto
  from a_sweep_bounded [OF this] show ?thesis using None by (simp only: a_put_def Let_def not_None_eq) auto
next
  case (Some p)
  then show ?thesis using a_touch_bounded [OF assms, of k v ex] by (simp add: a_put_def a_sweep_bounded)
qed

lemma a_set_bounded: "a_bounded A \<Longrightarrow> a_bounded (a_set clk k v A)"
  by (simp add: a_set_def a_put_bounded)

lemma a_maxSize_kept [simp]:
  "a_maxSize (a_sweep now A) = a_maxSize A" "a_maxSize (a_delete k A) = a_maxSize A"
  "a_maxSize (a_touch k v ex A) = a_maxSize A" "a_maxSize (snd (a_get clk k A)) = a_maxSize A"
  "a_maxSize (a_put now k v ex A) = a_maxSize A" "a_maxSize (a_set clk k v A) = a_maxSize A"
  by (auto simp: a_sweep_def a_delete_def a_touch_def a_get_def a_put_def a_set_def Let_def split: option.split)

lemma acache_step_total:
  assumes b: "a_bounded A"
  shows "\<exists>out A'. acache_step op A = Return (out, A') \<and> a_bounded A' \<and> a_maxSize A' = a_maxSize A"
proof (cases op)
  case (OpGetOrStore clk k v)
  obtain r A1 where g: "a_get clk k A = (r, A1)" by force
  have "a_bounded A1" "a_maxSize A1 = a_maxSize A"
    using a_get_bounded [OF b, of clk k] a_maxSize_kept(4)[of clk k A] by (simp_all add: g)
  then show ?thesis using OpGetOrStore g by (cases r) (auto simp: a_set_bounded)
next
  case (OpCompute clk k f)
  obtain r A1 where g: "a_get clk k A = (r, A1)" by force
  have "a_bounded A1" "a_maxSize A1 = a_maxSize A"
    using a_get_bounded [OF b, of clk k] a_maxSize_kept(4)[of clk k A] by (simp_all add: g)
  then show ?thesis using OpCompute g
    by (cases "f (map_option fst r)") (auto simp: a_set_bounded a_delete_bounded)
next
  case (OpGet clk k)
  then show ?thesis using a_get_bounded [OF b, of clk k] a_maxSize_kept(4)[of clk k A] by (simp add: split_beta)
next
  case (OpGetWithExpire clk k)
  then show ?thesis using a_get_bounded [OF b, of clk k] a_maxSize_kept(4)[of clk k A] by (simp add: split_beta)
next
  case OpClearAll
  then show ?thesis using b by (simp add: a_bounded_def)
qed (use b in \<open>simp_all add: a_set_bounded a_put_bounded a_delete_bounded\<close>)

interpretation acache: total_invariant "\<lambda>A. a_bounded A \<and> a_maxSize A = n" acache_step for n
  using acache_step_total by unfold_locales blast

lemma set_tl_sub: "set (tl xs) \<subseteq> set xs"
  by (cases xs) auto

lemma a_put_last:
  assumes "a_ages A \<Longrightarrow> now < ex"
  shows "\<exists>xs. a_items (a_put now k v ex A) = xs @ [(k, v, ex)] \<and> k \<notin> fst ` set xs"
proof -
  have sweep: "\<exists>ys. a_items (a_sweep now B) = ys @ [(k, v, ex)] \<and> set ys \<subseteq> set xs"
    if "a_items B = xs @ [(k, v, ex)]" "a_ages B = a_ages A" for B :: "('a, 'b, 'c) acache" and xs
  proof (cases "a_ages A")
    case True
    then have "\<not> expired now (k, v, ex)" using assms by (simp add: expired_def)
    then have "dropWhile (expired now) (xs @ [(k, v, ex)]) = dropWhile (expired now) xs @ [(k, v, ex)]"
      by (induction xs) auto
    then show ?thesis using that True by (auto simp: a_sweep_items dest: set_dropWhileD)
  qed (use that in \<open>auto simp: a_sweep_items\<close>)
  show ?thesis
  proof (cases "map_of (a_items A) k")
    case None
    have k: "k \<notin> fst ` set (a_items A)" using None by (simp add: map_of_eq_None_iff)
    obtain B xs where B: "a_put now k v ex A = a_sweep now B" "a_items B = xs @ [(k, v, ex)]"
        "a_ages B = a_ages A" "set xs \<subseteq> set (a_items A)"
    proof (cases "a_maxSize A > 0 \<and> int (length (a_items A @ [(k, v, ex)])) > a_maxSize A")
      case True
      then have ne: "a_items A \<noteq> []" by auto
      then have "tl (a_items A @ [(k, v, ex)]) = tl (a_items A) @ [(k, v, ex)]" by simp
      then show ?thesis using that [of "a_drop [hd (a_items A @ [(k, v, ex)])] (tl (a_items A @ [(k, v, ex)])) A" "tl (a_items A)"]
        None True set_tl_sub [of "a_items A"] by (auto simp: a_put_def Let_def a_ages_def)
    next
      case False
      then show ?thesis using that [of "A\<lparr>a_items := a_items A @ [(k, v, ex)]\<rparr>" "a_items A"] None
        by (auto simp: a_put_def Let_def a_ages_def)
    qed
    from sweep [OF B(2,3)] show ?thesis using B(1,4) k by (fastforce simp: image_iff)
  next
    case (Some p)
    then have "a_put now k v ex A = a_sweep now (a_touch k v ex A)" by (simp add: a_put_def)
    moreover have "a_ages (a_touch k v ex A) = a_ages A" by (simp add: a_touch_def a_ages_def)
    ultimately show ?thesis using sweep [of "a_touch k v ex A" "filter (\<lambda>x. fst x \<noteq> k) (a_items A)"]
      by (force simp: a_touch_def)
  qed
qed

lemma a_cfg_put:
  "a_maxAge (a_put now k v ex A) = a_maxAge A" "a_ages (a_put now k v ex A) = a_ages A"
  "a_updateAge (a_put now k v ex A) = a_updateAge A"
  by (simp_all add: a_put_def a_sweep_def a_touch_def a_ages_def Let_def)

lemma a_set_get:
  assumes "a_ages A \<Longrightarrow> clk 1 < clk 0 + a_maxAge A \<and> clk' 0 < clk 0 + a_maxAge A"
  shows "\<exists>ex A'. a_get clk' k (a_set clk k v A) = (Some (v, ex), A') \<and>
           (\<exists>xs. a_items A' = xs @ [(k, v, ex)])"
proof -
  have ages: "a_ages A \<Longrightarrow> a_maxAge A > 0" by (simp add: a_ages_def)
  define ex now where "ex = (if a_maxAge A > 0 then clk 0 + a_maxAge A else 0)"
    and "now = (if a_maxAge A > 0 then clk 1 else clk 0)"
  have put: "a_set clk k v A = a_put now k v ex A" by (simp add: a_set_def ex_def now_def)
  obtain xs where xs: "a_items (a_put now k v ex A) = xs @ [(k, v, ex)]" "k \<notin> fst ` set xs"
    using a_put_last [of A now ex k v] assms ages by (auto simp: ex_def now_def)
  have m: "map_of (xs @ [(k, v, ex)]) k = Some (v, ex)" using xs(2)
    by (simp add: map_add_def split: option.split) (metis map_of_eq_None_iff option.distinct(1))
  have "\<not> (a_ages A \<and> ex \<le> clk' 0)" using assms ages by (auto simp: ex_def)
  then show ?thesis using m xs(1) unfolding put by (auto simp: a_get_def a_cfg_put a_touch_def Let_def)
qed

lemma a_put_fresh:
  assumes "k \<notin> fst ` set (a_items A)" "a_maxSize A > 0 \<Longrightarrow> int (length (a_items A)) < a_maxSize A"
    "a_ages A \<Longrightarrow> \<forall>x\<in>set (a_items A @ [(k, v, ex)]). \<not> expired now x"
  shows "a_put now k v ex A = A\<lparr>a_items := a_items A @ [(k, v, ex)]\<rparr>"
proof -
  let ?B = "A\<lparr>a_items := a_items A @ [(k, v, ex)]\<rparr>"
  have "map_of (a_items A) k = None" using assms(1) by (simp add: map_of_eq_None_iff)
  then have "a_put now k v ex A = a_sweep now ?B" using assms(2) by (auto simp: a_put_def Let_def)
  moreover have "a_ages ?B = a_ages A" by (simp add: a_ages_def)
  moreover have "a_sweep now ?B = ?B" if "a_ages A"
  proof -
    have "takeWhile (expired now) (a_items ?B) = []" "dropWhile (expired now) (a_items ?B) = a_items ?B"
      using assms(3)[OF that] by (cases "a_items A"; auto)+
    then show ?thesis using a_drop_none [of ?B] by (simp add: a_sweep_def)
  qed
  ultimately show ?thesis by (auto simp: a_sweep_def)
qed

lemma restore_rep:
  assumes L: "list_laws L ok seq"
  shows "lru_rep ok seq st A \<Longrightarrow> distinct (map fst (a_items A @ xs)) \<Longrightarrow>
    (a_maxSize A > 0 \<Longrightarrow> int (length (a_items A @ xs)) \<le> a_maxSize A) \<Longrightarrow>
    (a_ages A \<Longrightarrow> \<forall>x\<in>set (a_items A @ xs). \<forall>i<length xs. \<not> expired (clk i 0) x) \<Longrightarrow>
    \<exists>st'. restore L clk xs st = Some st' \<and> lru_rep ok seq st' (A\<lparr>a_items := a_items A @ xs\<rparr>)"
proof (induction xs arbitrary: st A clk)
  case (Cons x xs)
  obtain k v ex where x: "x = (k, v, ex)" by (cases x)
  let ?A = "A\<lparr>a_items := a_items A @ [x]\<rparr>"
  have put: "a_put (clk 0 0) k v ex A = ?A"
    unfolding x by (rule a_put_fresh) (use Cons.prems(2-4) x in auto)
  obtain st1 where st1: "SetWithExpire L (clk 0) k v ex st = Some st1" "lru_rep ok seq st1 ?A"
    using setWithExpire_rep [OF L Cons.prems(1), of "clk 0 0" k v ex] put by (auto simp: SetWithExpire_def)
  have "\<forall>y\<in>set (a_items ?A @ xs). \<forall>i<length xs. \<not> expired (clk (Suc i) 0) y" if "a_ages ?A"
    using Cons.prems(4) that by (fastforce simp: a_ages_def)
  then have "\<exists>st'. restore L (\<lambda>i. clk (Suc i)) xs st1 = Some st' \<and> lru_rep ok seq st' (?A\<lparr>a_items := a_items ?A @ xs\<rparr>)"
    using Cons.IH [OF st1(2), of "\<lambda>i. clk (Suc i)"] Cons.prems(2,3) by simp
  then show ?case using st1(1) by (simp add: x)
qed simp

lemma New_lru_cfg:
  assumes "list_laws L ok seq"
  shows "a_maxSize (a_new opts s) = maxSize (New_lru L opts)" "a_stale (a_new opts s) = staleReturn (New_lru L opts)"
    "a_maxAge (a_new opts s) = maxAge (New_lru L opts)"
proof -
  have e: "abs_lru seq (New_lru L opts, \<lparr>entries = [], env = s\<rparr>) = a_new opts s"
    using New_lru_rep [OF assms, of opts s] by (simp add: lru_rep_def)
  show "a_maxSize (a_new opts s) = maxSize (New_lru L opts)" "a_stale (a_new opts s) = staleReturn (New_lru L opts)"
    "a_maxAge (a_new opts s) = maxAge (New_lru L opts)"
    unfolding e [symmetric] by (simp_all add: abs_lru_def)
qed

lemma a_new_items: "a_items (a_new opts s) = []"
proof -
  have "a_items (a_option x A) = a_items A" for x :: "('a, 'b, 'c) Option" and A by (cases x) simp_all
  then have "a_items (fold a_option opts A) = a_items A" for A :: "('a, 'b, 'c) acache"
    by (induction opts arbitrary: A) simp_all
  then show ?thesis by (simp add: a_new_def a_empty_def)
qed

lemma lru_simulation: "list_laws L ok seq \<Longrightarrow> simulation (lru_rep ok seq) (lru_step L) acache_step (\<lambda>_. True)"
  by unfold_locales (rule lru_simulates)

lemma lru_same_answers:
  assumes "list_laws L ok seq"
  shows "answers (lru_step L) ops (New_lru L opts, \<lparr>entries = [], env = s\<rparr>) = answers acache_step ops (a_new opts s)"
  by (rule simulation.same_answers [OF lru_simulation [OF assms] New_lru_rep [OF assms]]) (simp add: list_all_iff)

lemma set_in_new:
  obtains c w where "Set_lru simple_list clk k v (New_lru simple_list opts, \<lparr>entries = [], env = ()\<rparr>) = Some (c, w)"
    "lru_inv simple_ok snd (c, w)" "abs_lru snd (c, w) = a_set clk k v (a_new opts ())"
    "Snapshot simple_list (c, w) = Some (a_items (a_set clk k v (a_new opts ())))"
proof -
  obtain st where "Set_lru simple_list clk k v (New_lru simple_list opts, \<lparr>entries = [], env = ()\<rparr>) = Some st"
      "lru_rep simple_ok snd st (a_set clk k v (a_new opts ()))"
    using set_lru_rep [OF simple_list_laws New_lru_rep [OF simple_list_laws, of opts "()"], of clk k v]
    by (auto simp: Set_lru_def)
  then show thesis using that Snapshot_rep [OF simple_list_laws, of st] by (cases st) (auto simp: lru_rep_def)
qed

section \<open>Properties\<close>

text \<open>
  C3.  Any sequence of calls on a new cache returns what the contract says: the cache is a list
  of entries in order of use, a hit moves its entry to the end, a set beyond the size limit drops
  the first entry, and expired entries at the front are swept.  In particular every call returns.
\<close>

theorem lru_refines_contract:
  assumes "list_laws L ok seq"
  shows "answers (lru_step L) ops (New_lru L opts, \<lparr>entries = [], env = s\<rparr>) = answers acache_step ops (a_new opts s)"
  by (rule lru_same_answers [OF assms])

theorem lru_refines_contract_witness:
  "answers (lru_step simple_list)
     [OpSet (\<lambda>_. 0) (1::int) (10::int), OpSet (\<lambda>_. 0) 2 20, OpGet (\<lambda>_. 0) 1, OpSet (\<lambda>_. 0) 3 30, OpExist 2, OpGet (\<lambda>_. 0) 1, OpSnapshot]
     (New_lru simple_list [WithSize 2], \<lparr>entries = [], env = ()\<rparr>)
   = Return [ADone, ADone, AValue (Some 10), ADone, ABool False, AValue (Some 10), AItems [(3, 30, 0), (1, 10, 0)]]"
  unfolding lru_refines_contract [OF simple_list_laws] by code_simp

text \<open>
  C25.  After any sequence of calls, none of which panics or hangs, the cache holds one entry per key
  and, when a size limit is set, no more entries than the limit.
\<close>

theorem lru_bounded:
  assumes "list_laws L ok seq"
  shows "\<exists>outs st xs. run (lru_step L) ops (New_lru L opts, \<lparr>entries = [], env = s\<rparr>) = Return (outs, st) \<and>
    Snapshot L st = Some xs \<and> distinct (map fst xs) \<and>
    (maxSize (New_lru L opts) > 0 \<longrightarrow> int (length xs) \<le> maxSize (New_lru L opts))"
proof -
  let ?A = "a_new opts s" and ?n = "maxSize (New_lru L opts)"
  have "a_bounded ?A \<and> a_maxSize ?A = ?n"
    using New_lru_cfg(1)[OF assms, of opts s] by (simp add: a_bounded_def a_new_items)
  then obtain outs A' where A': "run acache_step ops ?A = Return (outs, A')" "a_bounded A'" "a_maxSize A' = ?n"
    using acache.run_inv [of ?A ?n ops] by blast
  obtain st where st: "run (lru_step L) ops (New_lru L opts, \<lparr>entries = [], env = s\<rparr>) = Return (outs, st)" "lru_rep ok seq st A'"
    using simulation.run_sim [OF lru_simulation [OF assms] New_lru_rep [OF assms, of opts s], of ops] A'(1)
    by (auto simp: list_all_iff)
  have "Snapshot L st = Some (a_items A')" by (rule Snapshot_rep [OF assms st(2)])
  moreover have "distinct (map fst (a_items A'))" "?n > 0 \<longrightarrow> int (length (a_items A')) \<le> ?n"
    using A'(2,3) by (simp_all add: a_bounded_def)
  ultimately show ?thesis using st(1) by blast
qed

theorem lru_bounded_witness:
  "\<exists>outs st xs. run (lru_step simple_list) [OpSet (\<lambda>_. 0) (1::int) (10::int), OpSet (\<lambda>_. 0) 2 20, OpSet (\<lambda>_. 0) 3 30]
      (New_lru simple_list [WithSize 2], \<lparr>entries = [], env = ()\<rparr>) = Return (outs, st) \<and>
    Snapshot simple_list st = Some xs \<and> length xs \<le> 2"
proof -
  have "maxSize (New_lru simple_list [WithSize 2] :: (int, int, _, _, unit) LruCache) = 2" by (simp add: New_lru_def)
  with lru_bounded [OF simple_list_laws, of "[OpSet (\<lambda>_. 0) (1::int) (10::int), OpSet (\<lambda>_. 0) 2 20, OpSet (\<lambda>_. 0) 3 30]"
      "[WithSize 2]" "()"]
  show ?thesis by (elim exE conjE, intro exI conjI) (assumption | simp)+
qed

text \<open>
  C26.  A value that was set is found by the next \<open>Get\<close>, and is then the most recently used entry,
  unless the cache expires entries and the clock has passed the entry's expiry.
\<close>

theorem lru_set_then_get:
  assumes "list_laws L ok seq" and "lru_inv ok seq (c, w)"
    and "\<not> staleReturn c \<and> maxAge c > 0 \<Longrightarrow> clk 1 < clk 0 + maxAge c \<and> clk' 0 < clk 0 + maxAge c"
  shows "\<exists>st1 st2 xs ex. Set_lru L clk k v (c, w) = Some st1 \<and> Get_lru L clk' k st1 = Some (Some v, st2) \<and>
           lru_inv ok seq st2 \<and> Snapshot L st2 = Some (xs @ [(k, v, ex)])"
proof -
  let ?A = "abs_lru seq (c, w)"
  have rep: "lru_rep ok seq (c, w) ?A" using assms(2) by (simp add: lru_rep_def)
  obtain st1 where st1: "Set_lru L clk k v (c, w) = Some st1" "lru_rep ok seq st1 (a_set clk k v ?A)"
    using set_lru_rep [OF assms(1) rep, of clk k v] by (auto simp: Set_lru_def)
  have "a_ages ?A \<longleftrightarrow> \<not> staleReturn c \<and> maxAge c > 0" "a_maxAge ?A = maxAge c" by (simp_all add: a_ages_def abs_lru_def)
  then obtain ex A' xs where g: "a_get clk' k (a_set clk k v ?A) = (Some (v, ex), A')" "a_items A' = xs @ [(k, v, ex)]"
    using a_set_get [of ?A clk clk' k v] assms(3) by auto
  from get_rep [OF assms(1) st1(2), of clk' k] obtain r st2 where r: "get L clk' k st1 = Some (r, st2)"
      "lru_rep ok seq st2 A'" "map_option (\<lambda>a. (val (entries (snd st2) ! a), expires (entries (snd st2) ! a))) r = Some (v, ex)"
    unfolding g(1) fst_conv snd_conv by blast
  then have "Get_lru L clk' k st1 = Some (Some v, st2)" by (auto simp: Get_lru_def)
  then show ?thesis using st1(1) r(2) Snapshot_rep [OF assms(1) r(2)] g(2) unfolding lru_rep_def by (auto simp del: split_paired_Ex)
qed

theorem lru_set_then_get_witness:
  "\<exists>st1 st2. Set_lru simple_list (\<lambda>_. 100) (7::int) (70::int) (New_lru simple_list [WithAge 10, WithSize 1], \<lparr>entries = [], env = ()\<rparr>) = Some st1 \<and>
     Get_lru simple_list (\<lambda>_. 105) 7 st1 = Some (Some 70, st2)"
proof -
  have "lru_inv simple_ok snd (New_lru simple_list [WithAge 10, WithSize 1], \<lparr>entries = [] :: (int, int) entry list, env = ()\<rparr>)"
    using New_lru_rep [OF simple_list_laws, of _ "()"] unfolding lru_rep_def by blast
  from lru_set_then_get [OF simple_list_laws this, of "\<lambda>_. 100" "\<lambda>_. 105" 7 70] show ?thesis
    by (auto simp: New_lru_def Clear_lru_def)
qed

text \<open>
  C27.  Replaying a snapshot into a new cache, oldest entry first, gives a cache with the same
  snapshot: same entries, same expiries, same order of use, provided the snapshot fits the size limit
  and, if the new cache expires entries, none of them has expired at the time of any call of the
  replay.
\<close>

theorem snapshot_restores:
  assumes "list_laws L ok seq" and "lru_inv ok seq st" and "Snapshot L st = Some xs"
    and "maxSize (New_lru L opts) > 0 \<Longrightarrow> int (length xs) \<le> maxSize (New_lru L opts)"
    and "\<not> staleReturn (New_lru L opts) \<and> maxAge (New_lru L opts) > 0 \<Longrightarrow> \<forall>x\<in>set xs. \<forall>i<length xs. clk i 0 < snd (snd x)"
  shows "\<exists>st'. restore L clk xs (New_lru L opts, \<lparr>entries = [], env = s\<rparr>) = Some st' \<and> lru_inv ok seq st' \<and>
           Snapshot L st' = Some xs"
proof -
  let ?A = "a_new opts s"
  have new: "lru_rep ok seq (New_lru L opts, \<lparr>entries = [], env = s\<rparr>) ?A" by (rule New_lru_rep [OF assms(1)])
  note cfg = New_lru_cfg [OF assms(1), of opts s]
  have "lru_rep ok seq st (abs_lru seq st)" using assms(2) by (simp add: lru_rep_def)
  then have xs: "xs = a_items (abs_lru seq st)" using Snapshot_rep [OF assms(1), of st] assms(3) by force
  have "distinct (map fst xs)" using assms(2)
    by (auto simp: xs abs_lru_def lru_inv_def elems_ok_def view_def comp_def split_beta)
  then have "\<exists>st'. restore L clk xs (New_lru L opts, \<lparr>entries = [], env = s\<rparr>) = Some st' \<and>
      lru_rep ok seq st' (?A\<lparr>a_items := a_items ?A @ xs\<rparr>)"
    using restore_rep [OF assms(1) new, of xs clk] assms(4,5) cfg by (simp add: a_new_items a_ages_def expired_def not_le)
  then obtain st' where st': "restore L clk xs (New_lru L opts, \<lparr>entries = [], env = s\<rparr>) = Some st'"
      "lru_rep ok seq st' (?A\<lparr>a_items := a_items ?A @ xs\<rparr>)" by blast
  then show ?thesis using Snapshot_rep [OF assms(1) st'(2)] by (auto simp: lru_rep_def a_new_items simp del: split_paired_Ex)
qed

theorem snapshot_restores_witness:
  "\<exists>st st'. Set_lru simple_list (\<lambda>_. 100) (7::int) (70::int) (New_lru simple_list [], \<lparr>entries = [], env = ()\<rparr>) = Some st \<and>
     restore simple_list (\<lambda>_ _. 0) [(7::int, 70::int, 0)] (New_lru simple_list [WithSize 4], \<lparr>entries = [], env = ()\<rparr>) = Some st' \<and>
     Snapshot simple_list st' = Some [(7, 70, 0)]"
proof -
  obtain c w where st: "Set_lru simple_list (\<lambda>_. 100) (7::int) (70::int) (New_lru simple_list [], \<lparr>entries = [], env = ()\<rparr>) = Some (c, w)"
      "lru_inv simple_ok snd (c, w)" "Snapshot simple_list (c, w) = Some (a_items (a_set (\<lambda>_. 100) 7 70 (a_new [] ())))"
    by (rule set_in_new)
  moreover have "a_items (a_set (\<lambda>_. 100) 7 70 (a_new [] ())) = [(7::int, 70::int, 0)]" by code_simp
  moreover have "maxSize (New_lru simple_list [WithSize 4] :: (int, int, _, _, unit) LruCache) = 4"
      "maxAge (New_lru simple_list [WithSize 4] :: (int, int, _, _, unit) LruCache) = 0"
    by (simp_all add: New_lru_def Clear_lru_def)
  ultimately show ?thesis
    using snapshot_restores [OF simple_list_laws st(2), of "[(7, 70, 0)]" "[WithSize 4]" "\<lambda>_ _. 0" "()"]
    by (auto simp del: split_paired_Ex restore.simps)
qed

text \<open>
  C28.  \<open>CloneTo\<close> gives the target cache the entries of the source in the same order and leaves
  every setting of the target alone: its size limit, its age, whether it returns stale entries,
  whether a read renews the age, and its evict callback.
\<close>

theorem CloneTo_copies:
  assumes "list_laws L ok seq" and "lru_inv ok seq (c, w)"
  shows "\<exists>n'. CloneTo L c w n = Some n' \<and> lru_inv ok seq (n', w) \<and> Snapshot L (n', w) = Snapshot L (c, w) \<and>
           n' = n\<lparr>cache := cache n', lru := lru n'\<rparr>"
proof -
  have rep: "lru_rep ok seq (c, w) (abs_lru seq (c, w))" using assms(2) by (simp add: lru_rep_def)
  obtain n' where n': "CloneTo L c w n = Some n'"
      "lru_rep ok seq (n', w) ((abs_lru seq (n, w))\<lparr>a_items := a_items (abs_lru seq (c, w))\<rparr>)"
    using CloneTo_rep [OF assms(1) rep, of n] by blast
  then show ?thesis using Snapshot_rep [OF assms(1) rep] Snapshot_rep [OF assms(1) n'(2)]
    by (cases n, cases n') (auto simp: lru_rep_def abs_lru_def)
qed

theorem CloneTo_copies_witness:
  "\<exists>c w n'. Set_lru simple_list (\<lambda>_. 100) (7::int) (70::int) (New_lru simple_list [], \<lparr>entries = [], env = ()\<rparr>) = Some (c, w) \<and>
     CloneTo simple_list c w (New_lru simple_list [WithSize 4, WithStale True]) = Some n' \<and>
     Snapshot simple_list (n', w) = Some [(7, 70, 0)] \<and> maxSize n' = 4 \<and> staleReturn n' \<and> \<not> updateAgeOnGet n'"
proof -
  obtain c w where st: "Set_lru simple_list (\<lambda>_. 100) (7::int) (70::int) (New_lru simple_list [], \<lparr>entries = [], env = ()\<rparr>) = Some (c, w)"
      "lru_inv simple_ok snd (c, w)" "Snapshot simple_list (c, w) = Some (a_items (a_set (\<lambda>_. 100) 7 70 (a_new [] ())))"
    by (rule set_in_new)
  have "a_items (a_set (\<lambda>_. 100) 7 70 (a_new [] ())) = [(7::int, 70::int, 0)]" by code_simp
  then have sn: "Snapshot simple_list (c, w) = Some [(7, 70, 0)]" using st(3) by simp
  let ?n = "New_lru simple_list [WithSize 4, WithStale True] :: (int, int, _, _, unit) LruCache"
  obtain n' where n': "CloneTo simple_list c w ?n = Some n'" "Snapshot simple_list (n', w) = Snapshot simple_list (c, w)"
      "n' = ?n\<lparr>cache := cache n', lru := lru n'\<rparr>"
    using CloneTo_copies [OF simple_list_laws st(2), of ?n] by blast
  have "maxSize n' = 4 \<and> staleReturn n' \<and> \<not> updateAgeOnGet n'" by (subst (1 2 3) n'(3)) (simp add: New_lru_def Clear_lru_def)
  then show ?thesis using st(1) sn n'(1,2) by (metis (no_types))
qed

text \<open>
  C29.  The comment on \<open>GetWithExpire\<close> says that it checks no age and updates no expiry.  It calls
  \<open>get\<close>, which does both: for every cached key, an entry past its expiry is not returned and is
  removed, unless stale entries are to be returned or the cache has no age, and in a cache that
  renews the age on a read the expiry becomes, and is reported as, the present time plus the age.
\<close>

theorem GetWithExpire_checks_age:
  assumes "list_laws L ok seq" and "lru_inv ok seq (c, w)"
    and "Snapshot L (c, w) = Some xs" and "map_of xs k = Some (v, ex)"
  shows "\<exists>r st' ys. GetWithExpire L clk k (c, w) = Some (r, st') \<and> lru_inv ok seq st' \<and> Snapshot L st' = Some ys \<and>
    (if \<not> staleReturn c \<and> maxAge c > 0 \<and> ex \<le> clk 0 then r = None \<and> k \<notin> fst ` set ys
     else let ex' = (if maxAge c > 0 \<and> updateAgeOnGet c then clk 1 + maxAge c else ex)
          in r = Some (v, ex') \<and> (\<exists>zs. ys = zs @ [(k, v, ex')]))"
proof -
  let ?A = "abs_lru seq (c, w)"
  have rep: "lru_rep ok seq (c, w) ?A" using assms(2) by (simp add: lru_rep_def)
  have m: "map_of (a_items ?A) k = Some (v, ex)" using Snapshot_rep [OF assms(1) rep] assms(3,4) by simp
  have cfg: "a_ages ?A \<longleftrightarrow> \<not> staleReturn c \<and> maxAge c > 0" "a_maxAge ?A = maxAge c" "a_updateAge ?A = updateAgeOnGet c"
    by (simp_all add: a_ages_def abs_lru_def)
  obtain r st' where g: "get L clk k (c, w) = Some (r, st')" "lru_rep ok seq st' (snd (a_get clk k ?A))"
      "map_option (\<lambda>a. (val (entries (snd st') ! a), expires (entries (snd st') ! a))) r = fst (a_get clk k ?A)"
    using get_rep [OF assms(1) rep, of clk k] by blast
  have w: "GetWithExpire L clk k (c, w) = Some (fst (a_get clk k ?A), st')" using g(1,3) by (simp add: GetWithExpire_def)
  have s: "lru_inv ok seq st'" "Snapshot L st' = Some (a_items (snd (a_get clk k ?A)))"
    using g(2) Snapshot_rep [OF assms(1) g(2)] by (simp_all add: lru_rep_def)
  show ?thesis
  proof (cases "\<not> staleReturn c \<and> maxAge c > 0 \<and> ex \<le> clk 0")
    case True
    then have n: "fst (a_get clk k ?A) = None" by (simp add: a_get_def m cfg)
    then show ?thesis using True w s a_get_miss [OF n] by (simp add: map_of_eq_None_iff)
  next
    case False
    then show ?thesis using w s by (auto simp: a_get_def m cfg Let_def a_touch_def)
  qed
qed

theorem GetWithExpire_checks_age_witness:
  "\<exists>st r st'. Set_lru simple_list (\<lambda>_. 0) (1::int) (10::int)
       (New_lru simple_list [WithAge 10, WithUpdateAgeOnGet], \<lparr>entries = [], env = ()\<rparr>) = Some st \<and>
     GetWithExpire simple_list (\<lambda>_. 5) 1 st = Some (Some (10, 15), st') \<and>
     GetWithExpire simple_list (\<lambda>_. 20) 1 st = Some (None, r)"
proof -
  let ?opts = "[WithAge 10, WithUpdateAgeOnGet] :: (int, int, unit) Option list"
  obtain c w where st: "Set_lru simple_list (\<lambda>_. 0) (1::int) (10::int) (New_lru simple_list ?opts, \<lparr>entries = [], env = ()\<rparr>) = Some (c, w)"
      "lru_inv simple_ok snd (c, w)" "abs_lru snd (c, w) = a_set (\<lambda>_. 0) 1 10 (a_new ?opts ())"
      "Snapshot simple_list (c, w) = Some (a_items (a_set (\<lambda>_. 0) 1 10 (a_new ?opts ())))"
    by (rule set_in_new)
  have "a_set (\<lambda>_. 0) 1 10 (a_new ?opts ()) =
      \<lparr>a_maxAge = 10, a_maxSize = 0, a_updateAge = True, a_stale = False, a_onEvict = None, a_items = [(1, 10, 10)], a_env = ()\<rparr>"
    by (simp add: a_set_def a_put_def a_new_def a_empty_def a_sweep_def a_ages_def expired_def a_drop_def a_evicted_def)
  then have "Snapshot simple_list (c, w) = Some [(1, 10, 10)]" "maxAge c = 10" "updateAgeOnGet c" "\<not> staleReturn c"
    using st(3,4) by (simp_all add: abs_lru_def)
  then show ?thesis
    using st(1) GetWithExpire_checks_age [OF simple_list_laws st(2), of "[(1, 10, 10)]" 1 10 10 "\<lambda>_. 5"]
      GetWithExpire_checks_age [OF simple_list_laws st(2), of "[(1, 10, 10)]" 1 10 10 "\<lambda>_. 20"]
    by (fastforce simp: Let_def simp del: split_paired_Ex)
qed

end
