(* ===== verification/Ranges.thy ===== *)
theory Ranges
  imports GoStrings "HOL-Library.Multiset"
begin

text \<open>
  Number ranges: \<open>common/utils/range.go\<close> and \<open>common/utils/ranges.go\<close>.

  The element type is an unsigned machine word, as in every use of the package by the program; the
  instances for signed types are not modelled.  \<open>sort.Slice\<close> is not stable, so \<open>Merge\<close> takes
  the sorting function as an argument, and \<open>sorts\<close> says what it does.
\<close>

section \<open>One range\<close>

record 'a Range =
  start :: 'a
  endr :: 'a

definition NewRange :: "'w::len word \<Rightarrow> 'w word \<Rightarrow> 'w word Range" where
  "NewRange s e = (if s > e then \<lparr>start = e, endr = s\<rparr> else \<lparr>start = s, endr = e\<rparr>)"

definition Contains_range :: "'w::len word Range \<Rightarrow> 'w word \<Rightarrow> bool" where
  "Contains_range r t = (t \<ge> start r \<and> t \<le> endr r)"

definition LeftContains :: "'w::len word Range \<Rightarrow> 'w word \<Rightarrow> bool" where
  "LeftContains r t = (t \<ge> start r \<and> t < endr r)"

definition RightContains :: "'w::len word Range \<Rightarrow> 'w word \<Rightarrow> bool" where
  "RightContains r t = (t > start r \<and> t \<le> endr r)"

definition String_range :: "'w::len word Range \<Rightarrow> string" where
  "String_range r =
     (if start r = endr r then show_nat (unat (start r))
      else show_nat (unat (start r)) @ ''-'' @ show_nat (unat (endr r)))"

text \<open>The conversion \<open>T(val)\<close> keeps the low bits.\<close>

definition parseUnsigned :: "string \<Rightarrow> 'w::len word option" where
  "parseUnsigned s = map_option of_nat (ParseUint 64 s)"

definition bracket_set :: "char set" where
  "bracket_set = set ''[ ]''"

definition newIntRange :: "string \<Rightarrow> (string \<Rightarrow> 'w::len word option) \<Rightarrow> 'w word Range result" where
  "newIntRange s0 parseFn =
     (let s = TrimSpace s0 in
      if length s = 0 then Inr (NewRange 0 0)
      else let status = split_on (CHR ''-'') s in
        case parseFn (trim_set bracket_set (status ! 0)) of
          None \<Rightarrow> Inl ''invalid range''
        | Some st \<Rightarrow>
            if length status = 1 then Inr (NewRange st st)
            else if length status = 2 then
              (case parseFn (trim_set bracket_set (status ! 1)) of
                 None \<Rightarrow> Inl ''invalid range''
               | Some en \<Rightarrow> Inr (NewRange st en))
            else Inl ''invalid range'')"

definition NewUnsignedRange :: "string \<Rightarrow> 'w::len word Range result" where
  "NewUnsignedRange expected = newIntRange expected parseUnsigned"

section \<open>Lists of ranges\<close>

fun newIntRangesFromList :: "string list \<Rightarrow> (string \<Rightarrow> 'w::len word option) \<Rightarrow> 'w word Range list result" where
  "newIntRangesFromList [] parseFn = Inr []"
| "newIntRangesFromList (s # ss) parseFn =
     (if s = '''' then newIntRangesFromList ss parseFn
      else rbind (newIntRange s parseFn) (\<lambda>r.
           rbind (newIntRangesFromList ss parseFn) (\<lambda>rs. Inr (r # rs))))"

definition newIntRanges :: "string \<Rightarrow> (string \<Rightarrow> 'w::len word option) \<Rightarrow> 'w word Range list result" where
  "newIntRanges expected0 parseFn =
     (let expected = TrimSpace expected0 in
      if length expected = 0 \<or> expected = ''*'' then Inr []
      else let expected1 = replace_char (CHR '','') (CHR ''/'') expected;
               lst = split_on (CHR ''/'') expected1 in
        if length lst > 28 then Inl ''intRanges error, too many ranges to use, maximum support 28 ranges''
        else newIntRangesFromList lst parseFn)"

definition NewUnsignedRanges :: "string \<Rightarrow> 'w::len word Range list result" where
  "NewUnsignedRanges expected = newIntRanges expected parseUnsigned"

definition NewUnsignedRangesFromList :: "string list \<Rightarrow> 'w::len word Range list result" where
  "NewUnsignedRangesFromList lst = newIntRangesFromList lst parseUnsigned"

definition Check :: "'w::len word Range list \<Rightarrow> 'w word \<Rightarrow> bool" where
  "Check ranges status = (if length ranges = 0 then True else (\<exists>r\<in>set ranges. Contains_range r status))"

definition String_ranges :: "'w::len word Range list \<Rightarrow> string" where
  "String_ranges ranges =
     (if length ranges = 0 then ''*'' else join_with ''/'' (map String_range ranges))"

text \<open>
  The loop over one range; the first result tells whether the callback let the iteration go on.
\<close>

function range_loop ::
  "'w::len word Range \<Rightarrow> ('w word \<Rightarrow> 's \<Rightarrow> bool \<times> 's) \<Rightarrow> 'w word \<Rightarrow> 's \<Rightarrow> bool \<times> 's" where
  "range_loop r f i s =
     (if i \<le> endr r \<and> i \<ge> start r then
        (case f i s of (go_on, s') \<Rightarrow>
           if \<not> go_on then (False, s')
           else if i + 1 < i then (True, s')
           else range_loop r f (i + 1) s')
      else (True, s))"
  by pat_completeness auto
termination
  by (relation "measure (\<lambda>(r, f, i, s). 2 ^ size i - unat i)")
     (auto simp: unat_Suc_no_wrap word_size intro!: diff_less_mono2 unsigned_less)

fun Range_all :: "'w::len word Range list \<Rightarrow> ('w word \<Rightarrow> 's \<Rightarrow> bool \<times> 's) \<Rightarrow> 's \<Rightarrow> 's" where
  "Range_all [] f s = s"
| "Range_all (r # rs) f s =
     (case range_loop r f (start r) s of (go_on, s') \<Rightarrow> if go_on then Range_all rs f s' else s')"

section \<open>Merging\<close>

text \<open>
  \<open>mergedRanges\<close> is a prefix of the array that is being read, so merged ranges overwrite it in
  place: \<open>a\<close> is the array, \<open>i\<close> the next index to read and \<open>ri\<close> the last merged one.  The
  result is that prefix with the array behind it.
\<close>

function merge_loop :: "'w::len word Range list \<Rightarrow> nat \<Rightarrow> nat \<Rightarrow> 'w word Range list \<times> 'w word Range list" where
  "merge_loop a i ri =
     (if i < length a then
        (let r = a ! i; m = a ! ri in
         if endr m + 1 > endr m \<and> start r > endr m + 1 then merge_loop (a[Suc ri := r]) (Suc i) (Suc ri)
         else if endr r > endr m then merge_loop (a[ri := m\<lparr>endr := endr r\<rparr>]) (Suc i) ri
         else merge_loop a (Suc i) ri)
      else (take (Suc ri) a, a))"
  by pat_completeness auto
termination by (relation "measure (\<lambda>(a, i, ri). length a - i)") auto

definition Merge :: "('w::len word Range list \<Rightarrow> 'w word Range list) \<Rightarrow> 'w word Range list \<Rightarrow> 'w word Range list \<times> 'w word Range list" where
  "Merge srt ranges = (if length ranges = 0 then ([], ranges) else merge_loop (srt ranges) 1 0)"

definition sorts :: "('w::len word Range list \<Rightarrow> 'w word Range list) \<Rightarrow> bool" where
  "sorts srt \<longleftrightarrow> (\<forall>rs. mset (srt rs) = mset rs \<and> sorted (map start (srt rs)))"

text \<open>Both ends in order, as every constructor of a range leaves them.\<close>

definition range_wf :: "'w::len word Range \<Rightarrow> bool" where
  "range_wf r \<longleftrightarrow> start r \<le> endr r"

text \<open>At least one value lies between the two ranges.\<close>

definition apart :: "'w::len word Range \<Rightarrow> 'w word Range \<Rightarrow> bool" where
  "apart a b \<longleftrightarrow> unat (endr a) + 1 < unat (start b)"

fun merge_list :: "'w::len word Range \<Rightarrow> 'w word Range list \<Rightarrow> 'w word Range list" where
  "merge_list cur [] = [cur]"
| "merge_list cur (r # rs) =
     (if endr cur + 1 > endr cur \<and> start r > endr cur + 1 then cur # merge_list r rs
      else merge_list (if endr r > endr cur then cur\<lparr>endr := endr r\<rparr> else cur) rs)"

declare range_loop.simps [simp del]
declare merge_loop.simps [simp del]

section \<open>What the operations mean\<close>

text \<open>
  Whether a callback lets the iteration over a list reach its end, the values of a range in order,
  and a sorting function.
\<close>

fun lets_on :: "('a \<Rightarrow> 's \<Rightarrow> bool \<times> 's) \<Rightarrow> 'a list \<Rightarrow> 's \<Rightarrow> bool" where
  "lets_on f [] s = True"
| "lets_on f (x # xs) s = (case f x s of (go_on, s') \<Rightarrow> go_on \<and> lets_on f xs s')"

definition range_elems :: "'w::len word Range \<Rightarrow> 'w word list" where
  "range_elems r = map of_nat [unat (start r) ..< Suc (unat (endr r))]"

definition sort_ranges :: "'w::len word Range list \<Rightarrow> 'w word Range list" where
  "sort_ranges rs = sort_key start rs"

end
