(* ===== verification/Ranges_Proofs.thy ===== *)
theory Ranges_Proofs
  imports Ranges
begin

text \<open>
  Correctness of the number ranges: printing and parsing, enumeration, and merging in place.
\<close>

text \<open>The text of a range with the given bounds, whatever their size.\<close>

definition bounds_text :: "nat \<times> nat \<Rightarrow> string" where
  "bounds_text p = show_nat (fst p) @ ''-'' @ show_nat (snd p)"

section \<open>Printing and parsing\<close>

lemma digit_not:
  assumes "d < 10"
  shows "digit d \<noteq> CHR ''-''" "digit d \<noteq> CHR ''/''" "digit d \<noteq> CHR '',''" "digit d \<noteq> CHR ''*''" "digit d \<notin> spaces"
    "digit d \<notin> bracket_set"
proof -
  have "d \<in> {0, 1, 2, 3, 4, 5, 6, 7, 8, 9}" using assms by auto
  then show "digit d \<noteq> CHR ''-''" "digit d \<noteq> CHR ''/''" "digit d \<noteq> CHR '',''" "digit d \<noteq> CHR ''*''" "digit d \<notin> spaces"
    "digit d \<notin> bracket_set"
    by (auto simp: digit_def spaces_def bracket_set_def char_of_def)
qed

lemma show_nat_not: "c \<in> set (show_nat n) \<Longrightarrow>
    c \<noteq> CHR ''-'' \<and> c \<noteq> CHR ''/'' \<and> c \<noteq> CHR '','' \<and> c \<noteq> CHR ''*'' \<and> c \<notin> spaces \<and> c \<notin> bracket_set"
proof -
  assume "c \<in> set (show_nat n)"
  then obtain d where "d < 10" "c = digit d" using show_nat_digits by blast
  then show ?thesis using digit_not [of d] by simp
qed

lemma show_nat_ends: "hd (show_nat n) \<in> set (show_nat n)" "last (show_nat n) \<in> set (show_nat n)"
  by simp_all

lemma parseUnsigned_show:
  assumes "LENGTH('w::len) \<le> 64"
  shows "parseUnsigned (show_nat (unat w)) = Some (w :: 'w word)"
proof -
  have "unat w < 2 ^ LENGTH('w)" by (rule unsigned_less)
  also have "(2::nat) ^ LENGTH('w) \<le> 2 ^ 64" using assms by (rule power_increasing) simp
  finally show ?thesis by (simp add: parseUnsigned_def ParseUint_show)
qed

lemma String_range_chars:
  "c \<in> set (String_range r) \<Longrightarrow> c \<noteq> CHR ''/'' \<and> c \<noteq> CHR '','' \<and> c \<noteq> CHR ''*'' \<and> c \<notin> spaces"
proof -
  assume "c \<in> set (String_range r)"
  then consider "c \<in> set (show_nat (unat (start r)))" | "c = CHR ''-''" | "c \<in> set (show_nat (unat (endr r)))"
    by (auto simp: String_range_def split: if_splits)
  then show ?thesis by cases (use show_nat_not in \<open>blast, simp add: spaces_def, blast\<close>)
qed

lemma String_range_ne [simp]: "String_range r \<noteq> []"
  by (simp add: String_range_def)

lemma trim_id: "(\<And>c. c \<in> set s \<Longrightarrow> c \<notin> cs) \<Longrightarrow> trim_set cs s = s"
  by (rule trim_set_id) auto

lemma newIntRange_String:
  fixes r :: "'w::len word Range"
  assumes "LENGTH('w) \<le> 64" and "range_wf r"
  shows "newIntRange (String_range r) parseUnsigned = Inr r"
proof -
  let ?a = "show_nat (unat (start r))" and ?b = "show_nat (unat (endr r))"
  have t: "TrimSpace (String_range r) = String_range r"
    unfolding TrimSpace_def by (rule trim_id) (use String_range_chars in blast)
  have tr: "trim_set bracket_set (show_nat n) = show_nat n" for n by (rule trim_id) (use show_nat_not in blast)
  have p: "parseUnsigned ?a = Some (start r)" "parseUnsigned ?b = Some (endr r)"
    using parseUnsigned_show [OF assms(1)] by blast+
  have nd: "CHR ''-'' \<notin> set (show_nat n)" for n using show_nat_not by blast
  show ?thesis
  proof (cases "start r = endr r")
    case True
    then have "split_on (CHR ''-'') (String_range r) = [?a]"
      using nd by (simp add: String_range_def split_on_plain)
    then show ?thesis using True p tr t by (simp add: newIntRange_def NewRange_def Let_def)
  next
    case False
    then have "split_on (CHR ''-'') (String_range r) = [?a, ?b]"
      using nd by (simp add: String_range_def split_on_append split_on_plain)
    then show ?thesis using False p tr t assms(2) by (simp add: newIntRange_def NewRange_def Let_def range_wf_def)
  qed
qed

lemma newIntRangesFromList_String:
  fixes rs :: "'w::len word Range list"
  assumes "LENGTH('w) \<le> 64" and "\<forall>r\<in>set rs. range_wf r"
  shows "newIntRangesFromList (map String_range rs) parseUnsigned = Inr rs"
  using assms(2) by (induction rs) (simp_all add: newIntRange_String [OF assms(1)])

lemma join_chars: "c \<in> set (join_with [x] ws) \<Longrightarrow> c = x \<or> (\<exists>w\<in>set ws. c \<in> set w)"
  by (induction "[x]" ws rule: join_with.induct) auto

lemma join_single: "join_with sep [w] = w" by simp

lemma NewUnsignedRanges_join:
  assumes "ws \<noteq> []" "length ws \<le> 28"
    and "\<And>w. w \<in> set ws \<Longrightarrow> w \<noteq> []"
    and "\<And>w c. w \<in> set ws \<Longrightarrow> c \<in> set w \<Longrightarrow> c \<noteq> CHR ''/'' \<and> c \<noteq> CHR '','' \<and> c \<noteq> CHR ''*'' \<and> c \<notin> spaces"
  shows "NewUnsignedRanges (join_with ''/'' ws) = newIntRangesFromList ws parseUnsigned"
proof -
  let ?j = "join_with ''/'' ws"
  have ch: "c = CHR ''/'' \<or> c \<noteq> CHR '','' \<and> c \<noteq> CHR ''*'' \<and> c \<notin> spaces" if "c \<in> set ?j" for c
    using join_chars [OF that] assms(4) by blast
  have sp: "split_on (CHR ''/'') ?j = ws" by (rule split_join) (use assms(1,4) in auto)
  have ne: "?j \<noteq> []"
  proof
    assume "?j = []"
    then have "ws = [[]]" using sp by simp
    then show False using assms(3) [of "[]"] by simp
  qed
  have "TrimSpace ?j = ?j" unfolding TrimSpace_def by (rule trim_id) (use ch in \<open>auto simp: spaces_def\<close>)
  moreover have "replace_char (CHR '','') (CHR ''/'') ?j = ?j"
    unfolding replace_char_def by (rule map_idI) (use ch in auto)
  moreover have "?j \<noteq> ''*''" using ch [of "CHR ''*''"] by auto
  ultimately show ?thesis using assms(2) sp ne by (simp add: NewUnsignedRanges_def newIntRanges_def Let_def)
qed

lemma String_ranges_parse:
  fixes rs :: "'w::len word Range list"
  assumes "LENGTH('w) \<le> 64" and "\<forall>r\<in>set rs. range_wf r" and "length rs \<le> 28"
  shows "NewUnsignedRanges (String_ranges rs) = Inr rs"
proof (cases "rs = []")
  case True
  then show ?thesis by (simp add: NewUnsignedRanges_def newIntRanges_def String_ranges_def TrimSpace_def spaces_def trim_set_def)
next
  case False
  have "NewUnsignedRanges (join_with ''/'' (map String_range rs)) = newIntRangesFromList (map String_range rs) (parseUnsigned :: string \<Rightarrow> 'w word option)"
    by (rule NewUnsignedRanges_join) (use False assms(3) String_range_chars in auto)
  then show ?thesis using False newIntRangesFromList_String [OF assms(1,2)] by (simp add: String_ranges_def)
qed

subsection \<open>Numbers wider than the element type\<close>

lemma parseUnsigned_wide: "parseUnsigned (show_nat n) = (if n < 2 ^ 64 then Some (of_nat n) else None)"
  by (simp add: parseUnsigned_def ParseUint_def digits_val_show)

lemma bounds_text_ne [simp]: "bounds_text p \<noteq> []"
  by (simp add: bounds_text_def)

lemma bounds_text_chars:
  "c \<in> set (bounds_text p) \<Longrightarrow> c \<noteq> CHR ''/'' \<and> c \<noteq> CHR '','' \<and> c \<noteq> CHR ''*'' \<and> c \<notin> spaces"
proof -
  assume "c \<in> set (bounds_text p)"
  then consider "c \<in> set (show_nat (fst p))" | "c = CHR ''-''" | "c \<in> set (show_nat (snd p))"
    by (auto simp: bounds_text_def)
  then show ?thesis by cases (use show_nat_not in \<open>blast, simp add: spaces_def, blast\<close>)
qed

lemma newIntRange_bounds:
  "newIntRange (bounds_text (a, b)) parseUnsigned =
     (if a < 2 ^ 64 \<and> b < 2 ^ 64 then Inr (NewRange (of_nat a) (of_nat b)) else Inl ''invalid range'')"
proof -
  have t: "TrimSpace (bounds_text (a, b)) = bounds_text (a, b)"
    unfolding TrimSpace_def by (rule trim_id) (use bounds_text_chars in blast)
  have tr: "trim_set bracket_set (show_nat n) = show_nat n" for n by (rule trim_id) (use show_nat_not in blast)
  have "CHR ''-'' \<notin> set (show_nat n)" for n using show_nat_not by blast
  then have "split_on (CHR ''-'') (bounds_text (a, b)) = [show_nat a, show_nat b]"
    by (simp add: bounds_text_def split_on_append split_on_plain)
  then show ?thesis
    using t tr by (simp add: newIntRange_def Let_def parseUnsigned_wide bounds_text_def)
qed

lemma newIntRangesFromList_bounds:
  "newIntRangesFromList (map bounds_text ps) parseUnsigned =
     (if \<forall>(a, b)\<in>set ps. a < 2 ^ 64 \<and> b < 2 ^ 64
      then Inr (map (\<lambda>(a, b). NewRange (of_nat a) (of_nat b)) ps) else Inl ''invalid range'')"
proof (induction ps)
  case (Cons p ps)
  obtain a b where p: "p = (a, b)" by (cases p)
  show ?case unfolding p by (auto simp: Cons.IH newIntRange_bounds)
qed simp

lemma Contains_NewRange_of_nat:
  "Contains_range (NewRange (of_nat a) (of_nat b :: 'w::len word)) x \<longleftrightarrow>
     min (a mod 2 ^ LENGTH('w)) (b mod 2 ^ LENGTH('w)) \<le> unat x \<and>
     unat x \<le> max (a mod 2 ^ LENGTH('w)) (b mod 2 ^ LENGTH('w))"
  by (auto simp: Contains_range_def NewRange_def word_le_nat_alt word_less_nat_alt unsigned_of_nat take_bit_eq_mod)

section \<open>Enumeration\<close>

lemma visit_append: "visit f (xs @ ys) s = (if lets_on f xs s then visit f ys (visit f xs s) else visit f xs s)"
  by (induction xs arbitrary: s) (auto split: prod.split)

lemma range_loop_visit:
  assumes "start r \<le> i" "i \<le> endr r"
  shows "range_loop r f i s =
     (lets_on f (map of_nat [unat i ..< Suc (unat (endr r))]) s, visit f (map of_nat [unat i ..< Suc (unat (endr r))]) s)"
  using assms
proof (induction r f i s rule: range_loop.induct)
  case (1 r f i s)
  obtain c s' where f: "f i s = (c, s')" by force
  let ?rest = "map of_nat [Suc (unat i) ..< Suc (unat (endr r))] :: 'a word list"
  have lo: "start r \<le> i" and hi: "i \<le> endr r" using 1(2,3) .
  then have "unat i < Suc (unat (endr r))" by (simp add: word_le_nat_alt)
  then have L: "map of_nat [unat i ..< Suc (unat (endr r))] = i # ?rest" by (simp add: upt_conv_Cons del: upt_Suc)
  have unfold: "range_loop r f i s = (if \<not> c then (False, s') else if i + 1 < i then (True, s') else range_loop r f (i + 1) s')"
    using f lo hi by (subst range_loop.simps) simp
  have tail: "range_loop r f (i + 1) s' = (lets_on f ?rest s', visit f ?rest s')" if c and nw: "\<not> i + 1 < i"
  proof (cases "i + 1 \<le> endr r")
    case True
    have "unat (i + 1) = Suc (unat i)" by (rule unat_Suc_no_wrap [OF nw])
    moreover have "start r \<le> i + 1" using lo nw by simp
    ultimately show ?thesis using 1(1)[OF conjI [OF hi lo] f [symmetric]] that True by (simp del: upt_Suc)
  next
    case False
    then have "?rest = []" using unat_Suc_no_wrap [OF nw] hi by (simp add: word_le_nat_alt del: upt_Suc)
    then show ?thesis using False by (subst range_loop.simps) (simp del: upt_Suc)
  qed
  have wrap: "?rest = []" if "i + 1 < i"
  proof -
    have "i = - 1" using that by (rule word_Suc_wraps)
    then have "endr r = i" using hi by (simp add: word_order.extremum_unique)
    then show ?thesis by simp
  qed
  show ?case unfolding L unfold using f tail wrap by (cases c; cases "i + 1 < i") (simp_all del: upt_Suc)
qed

lemma Range_all_visit:
  assumes "\<forall>r\<in>set rs. range_wf r"
  shows "Range_all rs f s = visit f (concat (map range_elems rs)) s"
  using assms
proof (induction rs arbitrary: s)
  case (Cons r rs)
  then show ?case using range_loop_visit [of r "start r" f s]
    by (simp add: visit_append range_wf_def range_elems_def)
qed simp

section \<open>Merging\<close>

lemma merge_loop_list:
  "ri < i \<Longrightarrow> i \<le> length a \<Longrightarrow> fst (merge_loop a i ri) = take ri a @ merge_list (a ! ri) (drop i a)"
proof (induction a i ri rule: merge_loop.induct)
  case (1 a i ri)
  show ?case
  proof (cases "i < length a")
    case True
    let ?r = "a ! i" and ?m = "a ! ri"
    have d: "drop i a = ?r # drop (Suc i) a" using True by (simp add: Cons_nth_drop_Suc)
    consider "endr ?m + 1 > endr ?m \<and> start ?r > endr ?m + 1"
      | "\<not> (endr ?m + 1 > endr ?m \<and> start ?r > endr ?m + 1)" "endr ?r > endr ?m"
      | "\<not> (endr ?m + 1 > endr ?m \<and> start ?r > endr ?m + 1)" "\<not> endr ?r > endr ?m" by blast
    then show ?thesis
    proof cases
      case c: 1
      have "take (Suc ri) (a[Suc ri := ?r]) = take ri a @ [?m]"
        using 1(4) True by (simp add: take_Suc_conv_app_nth)
      then show ?thesis using c True 1(4) "1.IH"(1)[OF True refl refl c]
        by (subst merge_loop.simps) (simp add: d Let_def)
    next
      case c: 2
      have "merge_loop a i ri = merge_loop (a[ri := ?m\<lparr>endr := endr ?r\<rparr>]) (Suc i) ri"
        using True c by (subst merge_loop.simps) (auto simp: Let_def)
      moreover have "merge_list ?m (drop i a) = merge_list (?m\<lparr>endr := endr ?r\<rparr>) (drop (Suc i) a)"
        using c by (auto simp: d)
      ultimately show ?thesis using True 1(4) "1.IH"(2)[OF True refl refl c(1,2)] by simp
    next
      case c: 3
      have "merge_loop a i ri = merge_loop a (Suc i) ri"
        using True c by (subst merge_loop.simps) (auto simp: Let_def)
      moreover have "merge_list ?m (drop i a) = merge_list ?m (drop (Suc i) a)" using c by (auto simp: d)
      ultimately show ?thesis using True 1(4) "1.IH"(3)[OF True refl refl c(1,2)] by simp
    qed
  next
    case False
    then show ?thesis using 1(4,5) by (subst merge_loop.simps) (simp add: take_Suc_conv_app_nth)
  qed
qed

lemma apart_iff:
  "(endr m + 1 > endr m \<and> start r > endr m + 1) = apart m r"
proof (cases "endr m + 1 > endr m")
  case True
  then have "\<not> endr m + 1 < endr m" by simp
  then have "unat (endr m + 1) = Suc (unat (endr m))" by (rule unat_Suc_no_wrap)
  then show ?thesis using True by (simp add: apart_def word_less_nat_alt)
next
  case False
  then have "endr m + 1 < endr m \<or> endr m + 1 = endr m" by (auto simp: not_less le_less)
  then have "endr m = - 1" using word_Suc_wraps [of "endr m"] by auto
  then have "unat (start r) \<le> unat (endr m)" by (simp add: word_le_nat_alt [symmetric])
  then show ?thesis using False by (simp add: apart_def)
qed

lemma widen_covers:
  assumes "range_wf cur" "range_wf r" "start cur \<le> start r" "\<not> apart cur r"
  shows "Contains_range (if endr r > endr cur then cur\<lparr>endr := endr r\<rparr> else cur) x
      \<longleftrightarrow> Contains_range cur x \<or> Contains_range r x"
  using assms by (auto simp: Contains_range_def range_wf_def apart_def word_le_nat_alt word_less_nat_alt)

lemma merge_list_covers:
  assumes "range_wf cur" "\<forall>r\<in>set rs. range_wf r" "sorted (map start (cur # rs))"
  shows "(\<exists>r\<in>set (merge_list cur rs). Contains_range r x) \<longleftrightarrow> (\<exists>r\<in>set (cur # rs). Contains_range r x)"
  using assms
proof (induction cur rs rule: merge_list.induct)
  case (2 cur r rs)
  show ?case
  proof (cases "apart cur r")
    case True
    then have c: "endr cur + 1 > endr cur \<and> start r > endr cur + 1" by (simp only: apart_iff)
    show ?thesis using "2.IH"(1)[OF c] 2(3-5) c by auto
  next
    case False
    then have c: "\<not> (endr cur + 1 > endr cur \<and> start r > endr cur + 1)" unfolding apart_iff .
    let ?m = "if endr r > endr cur then cur\<lparr>endr := endr r\<rparr> else cur"
    have m: "merge_list cur (r # rs) = merge_list ?m rs" using c by (simp only: merge_list.simps if_False)
    have "range_wf ?m" using 2(3,4) by (auto simp: range_wf_def)
    moreover have "sorted (map start (?m # rs))" using 2(5) by auto
    ultimately have "(\<exists>r\<in>set (merge_list ?m rs). Contains_range r x) \<longleftrightarrow> (\<exists>r\<in>set (?m # rs). Contains_range r x)"
      using "2.IH"(2)[OF c] 2(4) by simp
    moreover have "Contains_range ?m x \<longleftrightarrow> Contains_range cur x \<or> Contains_range r x"
      using 2(3-5) False by (intro widen_covers) auto
    ultimately show ?thesis unfolding m by auto
  qed
qed simp

lemma merge_list_apart:
  assumes "range_wf cur" "\<forall>r\<in>set rs. range_wf r" "sorted (map start (cur # rs))"
  shows "sorted_wrt apart (merge_list cur rs) \<and> (\<forall>r\<in>set (merge_list cur rs). range_wf r \<and> start cur \<le> start r)"
  using assms
proof (induction cur rs rule: merge_list.induct)
  case (2 cur r rs)
  show ?case
  proof (cases "apart cur r")
    case True
    then have c: "endr cur + 1 > endr cur \<and> start r > endr cur + 1" by (simp only: apart_iff)
    have IH: "sorted_wrt apart (merge_list r rs)" "\<forall>x\<in>set (merge_list r rs). range_wf x \<and> start r \<le> start x"
      using "2.IH"(1)[OF c] 2(4,5) by auto
    have "\<forall>x\<in>set (merge_list r rs). apart cur x"
      using IH(2) True by (auto simp: apart_def word_le_nat_alt)
    moreover have "start cur \<le> start r" using 2(5) by simp
    ultimately show ?thesis using IH c 2(3) by auto
  next
    case False
    then have c: "\<not> (endr cur + 1 > endr cur \<and> start r > endr cur + 1)" unfolding apart_iff .
    let ?m = "if endr r > endr cur then cur\<lparr>endr := endr r\<rparr> else cur"
    have m: "merge_list cur (r # rs) = merge_list ?m rs" using c by (simp only: merge_list.simps if_False)
    have "range_wf ?m" "start ?m = start cur" using 2(3,4) by (auto simp: range_wf_def)
    moreover have "sorted (map start (?m # rs))" using 2(5) by auto
    ultimately show ?thesis using "2.IH"(2)[OF c] 2(4) unfolding m by simp
  qed
qed simp

lemma Merge_list:
  assumes "sorts srt" "rs \<noteq> []"
  obtains cur rest where "srt rs = cur # rest" "fst (Merge srt rs) = merge_list cur rest"
    "sorted (map start (cur # rest))" "set (cur # rest) = set rs"
proof -
  have p: "mset (srt rs) = mset rs" "sorted (map start (srt rs))" using assms(1) by (auto simp: sorts_def)
  then have "srt rs \<noteq> []" using assms(2) by (metis mset_zero_iff)
  then obtain cur rest where s: "srt rs = cur # rest" by (cases "srt rs") auto
  have "fst (Merge srt rs) = merge_list cur rest"
    using assms(2) merge_loop_list [of 0 1 "cur # rest"] by (simp add: Merge_def s)
  moreover have "set (cur # rest) = set rs" using p(1) s mset_eq_setD by metis
  ultimately show thesis using that s p(2) by simp
qed

lemma sort_ranges_sorts: "sorts sort_ranges"
  by (simp add: sorts_def sort_ranges_def)

lemma unat_of_nat_below: "n \<le> unat (w :: 'w::len word) \<Longrightarrow> unat (of_nat n :: 'w word) = n"
proof -
  assume "n \<le> unat w"
  moreover have "unat w < 2 ^ LENGTH('w)" by (rule unsigned_less)
  ultimately have "n < 2 ^ LENGTH('w)" by (rule le_less_trans)
  then show ?thesis by (simp add: unsigned_of_nat take_bit_nat_eq_self)
qed

lemma range_elems_set: "x \<in> set (range_elems r) \<longleftrightarrow> Contains_range r x"
proof
  assume "x \<in> set (range_elems r)"
  then obtain n where "x = of_nat n" "unat (start r) \<le> n" "n \<le> unat (endr r)"
    by (auto simp: range_elems_def simp del: upt_Suc)
  then show "Contains_range r x"
    using unat_of_nat_below [of n "endr r"] by (simp add: Contains_range_def word_le_nat_alt)
next
  assume "Contains_range r x"
  then have "unat x \<in> {unat (start r) ..< Suc (unat (endr r))}"
    by (auto simp: Contains_range_def word_le_nat_alt)
  then have "of_nat (unat x) \<in> set (range_elems r)" unfolding range_elems_def set_map set_upt by (rule imageI)
  then show "x \<in> set (range_elems r)" by simp
qed

lemma range_elems_distinct: "distinct (range_elems r)"
proof -
  have "inj_on (of_nat :: nat \<Rightarrow> 'a word) {unat (start r) ..< Suc (unat (endr r))}"
    using unat_of_nat_below [of _ "endr r"] by (intro inj_onI) (metis atLeastLessThan_iff less_Suc_eq_le)
  then show ?thesis by (simp add: range_elems_def distinct_map del: upt_Suc)
qed

section \<open>Properties\<close>

text \<open>
  C34.  Printing a list of at most 28 ranges and parsing the text again gives the ranges back, for
  every word size up to 64 bits.
\<close>

theorem ranges_print_parse:
  assumes "LENGTH('w::len) \<le> 64" and "\<forall>r\<in>set rs. range_wf (r :: 'w word Range)" and "length rs \<le> 28"
  shows "NewUnsignedRanges (String_ranges rs) = Inr rs"
  using assms by (rule String_ranges_parse)

theorem ranges_print_parse_witness:
  "NewUnsignedRanges (String_ranges [NewRange 80 (80 :: 16 word), NewRange 1000 2000])
     = Inr [NewRange 80 (80 :: 16 word), NewRange 1000 2000]"
  by (rule ranges_print_parse) (simp_all add: range_wf_def NewRange_def)

text \<open>
  C33.  \<open>Merge\<close>, which overwrites the slice it reads, keeps exactly the values covered: the
  merged ranges cover what the given ranges cover, are in order, and any two of them have a value
  between them.  No range is lost to the wrap-around of \<open>End() + 1\<close> at the largest value.
\<close>

theorem Merge_correct:
  assumes "sorts srt" and "\<forall>r\<in>set rs. range_wf r"
  shows "(\<forall>x. (\<exists>r\<in>set (fst (Merge srt rs)). Contains_range r x) \<longleftrightarrow> (\<exists>r\<in>set rs. Contains_range r x)) \<and>
         sorted_wrt apart (fst (Merge srt rs)) \<and> (\<forall>r\<in>set (fst (Merge srt rs)). range_wf r)"
proof (cases "rs = []")
  case True
  then show ?thesis by (simp add: Merge_def)
next
  case False
  from Merge_list [OF assms(1) False] obtain cur rest where m: "fst (Merge srt rs) = merge_list cur rest"
      "sorted (map start (cur # rest))" "set (cur # rest) = set rs" by blast
  have wf: "range_wf cur" "\<forall>r\<in>set rest. range_wf r" using assms(2) m(3) by auto
  show ?thesis using merge_list_covers [OF wf m(2)] merge_list_apart [OF wf m(2)] unfolding m(1) m(3) by blast
qed

theorem Merge_correct_witness:
  "sorts sort_ranges \<and>
   (\<forall>x. (\<exists>r\<in>set (fst (Merge sort_ranges [NewRange 5 9, NewRange 1 4, NewRange 20 (30 :: 8 word)])). Contains_range r x)
      \<longleftrightarrow> (\<exists>r\<in>set [NewRange 5 9, NewRange 1 4, NewRange 20 (30 :: 8 word)]. Contains_range r x))"
proof -
  have "\<forall>r\<in>set [NewRange 5 9, NewRange 1 4, NewRange 20 (30 :: 8 word)]. range_wf r"
    by (simp add: NewRange_def range_wf_def)
  from Merge_correct [OF sort_ranges_sorts this] show ?thesis using sort_ranges_sorts by blast
qed

text \<open>
  C35.  \<open>Range\<close> hands the callback every value of every range once and in order, stops as
  soon as the callback returns false, and ends also for a range that goes up to the largest value of
  the type.
\<close>

theorem Range_enumerates:
  assumes "\<forall>r\<in>set rs. range_wf r"
  shows "Range_all rs f s = visit f (concat (map range_elems rs)) s \<and>
         (\<forall>r\<in>set rs. (\<forall>x. x \<in> set (range_elems r) \<longleftrightarrow> Contains_range r x) \<and> distinct (range_elems r))"
  using Range_all_visit [OF assms, of f s] by (simp add: range_elems_set range_elems_distinct)

theorem Range_enumerates_witness:
  "Range_all [NewRange 253 (255 :: 8 word), NewRange 3 4] (\<lambda>x s. (True, s @ [x])) [] = [253, 254, 255, 3, 4]"
proof -
  have "\<forall>r\<in>set [NewRange 253 (255 :: 8 word), NewRange 3 4]. range_wf r" by (simp add: NewRange_def range_wf_def)
  from Range_enumerates [OF this, of "\<lambda>x s. (True, s @ [x])" "[]"] show ?thesis
    by (simp add: NewRange_def range_elems_def)
qed

text \<open>
  C36.  A bound that does not fit the element type is not refused but cut to its low bits: in a
  text of one to 28 ranges whose bounds are any numbers, the text is refused exactly when a bound does not fit
  64 bits, and otherwise the ranges cover exactly what the bounds modulo the size of the type span,
  so that the port range 65616-65616 is accepted and means port 80.
\<close>

theorem range_bounds_truncate:
  assumes "ps \<noteq> []" and "length ps \<le> 28"
  shows "case (NewUnsignedRanges (join_with ''/'' (map bounds_text ps)) :: 'w::len word Range list result) of
      Inl e \<Rightarrow> \<exists>(a, b)\<in>set ps. a \<ge> 2 ^ 64 \<or> b \<ge> 2 ^ 64
    | Inr rs \<Rightarrow> (\<forall>(a, b)\<in>set ps. a < 2 ^ 64 \<and> b < 2 ^ 64) \<and>
        (\<forall>x. Check rs x \<longleftrightarrow> (\<exists>(a, b)\<in>set ps.
           min (a mod 2 ^ LENGTH('w)) (b mod 2 ^ LENGTH('w)) \<le> unat x \<and>
           unat x \<le> max (a mod 2 ^ LENGTH('w)) (b mod 2 ^ LENGTH('w))))"
proof -
  have n: "NewUnsignedRanges (join_with ''/'' (map bounds_text ps)) =
      newIntRangesFromList (map bounds_text ps) (parseUnsigned :: string \<Rightarrow> 'w word option)"
    by (rule NewUnsignedRanges_join) (use assms bounds_text_chars in auto)
  have c: "Check (map (\<lambda>(a, b). NewRange (of_nat a) (of_nat b)) ps) (x :: 'w word) \<longleftrightarrow>
      (\<exists>(a, b)\<in>set ps. min (a mod 2 ^ LENGTH('w)) (b mod 2 ^ LENGTH('w)) \<le> unat x \<and>
         unat x \<le> max (a mod 2 ^ LENGTH('w)) (b mod 2 ^ LENGTH('w)))" for x
    using assms(1) by (simp add: Check_def split_beta Contains_NewRange_of_nat)
  show ?thesis
  proof (cases "\<forall>(a, b)\<in>set ps. a < 2 ^ 64 \<and> b < (2 :: nat) ^ 64")
    case True
    then show ?thesis unfolding n newIntRangesFromList_bounds if_P [OF True] sum.case c by blast
  next
    case False
    then have "\<exists>(a, b)\<in>set ps. a \<ge> 2 ^ 64 \<or> b \<ge> (2 :: nat) ^ 64" by (simp add: split_beta not_less de_Morgan_conj)
    then show ?thesis unfolding n newIntRangesFromList_bounds if_not_P [OF False] sum.case .
  qed
qed

theorem range_bounds_truncate_witness:
  "bounds_text (65616, 65616) = ''65616-65616'' \<and>
   (\<exists>rs. NewUnsignedRanges ''65616-65616'' = Inr rs \<and> (\<forall>x :: 16 word. Check rs x \<longleftrightarrow> unat x = 80))"
proof -
  have t: "bounds_text (65616, 65616) = ''65616-65616''"
    by (simp add: bounds_text_def show_nat.simps digit_def char_of_def bit_Suc_0_iff)
  have j: "join_with ''/'' (map bounds_text [(65616, 65616)]) = ''65616-65616''" by (simp add: t)
  have m: "(65616 :: nat) mod 2 ^ LENGTH(16) = 80" by simp
  have e: "80 \<le> unat x \<and> unat x \<le> 80 \<longleftrightarrow> unat x = 80" for x :: "16 word" by auto
  have "case NewUnsignedRanges ''65616-65616'' of
      Inl e \<Rightarrow> False | Inr rs \<Rightarrow> \<forall>x :: 16 word. Check rs x \<longleftrightarrow> unat x = 80"
    using range_bounds_truncate [of "[(65616, 65616)]", where ?'w = 16, unfolded j]
    by (simp add: m e split: sum.splits)
  then show ?thesis using t by (simp split: sum.splits)
qed

end
