(* ===== verification/Wildcard.thy ===== *)
theory Wildcard
  imports Prelude
begin

text \<open>
  The wildcard matcher of \<open>component/wildcard/wildcard.go\<close>: an iterative matcher that remembers
  the last star of the pattern and the position from which it was last tried.  It is shown to end on
  every input and to agree with the recursive definition of \<open>*\<close> and \<open>?\<close>.
\<close>

section \<open>The matcher\<close>

text \<open>The loop at the label \<open>checkPattern\<close>.\<close>

function checkPattern :: "string \<Rightarrow> nat \<Rightarrow> bool" where
  "checkPattern pattern patternIndex =
     (if patternIndex < length pattern \<and> pattern ! patternIndex = CHR ''*''
      then checkPattern pattern (Suc patternIndex)
      else patternIndex = length pattern)"
  by pat_completeness auto
termination by (relation "measure (\<lambda>(p, i). length p - i)") auto

text \<open>
  The loop at the label \<open>Loop\<close>, with its four variables; a \<open>star\<close> of -1 is \<open>None\<close>.
\<close>

partial_function (option) match_loop ::
  "string \<Rightarrow> string \<Rightarrow> nat \<Rightarrow> nat \<Rightarrow> nat \<Rightarrow> nat option \<Rightarrow> bool option" where
  "match_loop pattern s patternIndex sIndex lastStar star =
     (if sIndex \<ge> length s then Some (checkPattern pattern patternIndex)
      else if patternIndex \<ge> length pattern then
        (case star of
           Some k \<Rightarrow> match_loop pattern s (k + 1) (lastStar + 1) (lastStar + 1) star
         | None \<Rightarrow> Some False)
      else if pattern ! patternIndex = CHR ''?'' then
        match_loop pattern s (patternIndex + 1) (sIndex + 1) lastStar star
      else if pattern ! patternIndex = CHR ''*'' then
        match_loop pattern s (patternIndex + 1) sIndex sIndex (Some patternIndex)
      else if pattern ! patternIndex \<noteq> s ! sIndex then
        (case star of
           Some k \<Rightarrow> match_loop pattern s (k + 1) (lastStar + 1) (lastStar + 1) star
         | None \<Rightarrow> Some False)
      else match_loop pattern s (patternIndex + 1) (sIndex + 1) lastStar star)"

definition matchByString :: "string \<Rightarrow> string \<Rightarrow> bool option" where
  "matchByString pattern s = match_loop pattern s 0 0 0 None"

definition Match_wildcard :: "string \<Rightarrow> string \<Rightarrow> bool option" where
  "Match_wildcard pattern s =
     (if pattern = '''' then Some (s = pattern)
      else if pattern = ''*'' \<or> s = pattern then Some True
      else matchByString pattern s)"

section \<open>The meaning of a pattern\<close>

fun glob :: "string \<Rightarrow> string \<Rightarrow> bool" where
  "glob [] s = (s = [])"
| "glob (c # p) s =
     (if c = CHR ''*'' then glob p s \<or> (case s of [] \<Rightarrow> False | _ # t \<Rightarrow> glob (c # p) t)
      else (case s of [] \<Rightarrow> False | x # t \<Rightarrow> (c = CHR ''?'' \<or> c = x) \<and> glob p t))"

text \<open>
  What the loop keeps: the question that is left to answer, for the characters that are matched
  after the last star.
\<close>

fun match_inv :: "string \<Rightarrow> string \<Rightarrow> nat \<Rightarrow> nat \<Rightarrow> nat \<Rightarrow> nat option \<Rightarrow> bool" where
  "match_inv p s pi si ls None \<longleftrightarrow>
     pi \<le> length p \<and> si \<le> length s \<and> ls = 0 \<and> glob p s = glob (drop pi p) (drop si s)"
| "match_inv p s pi si ls (Some k) \<longleftrightarrow>
     k < pi \<and> pi \<le> length p \<and> ls \<le> si \<and> si \<le> length s \<and> pi - Suc k = si - ls \<and>
     p ! k = CHR ''*'' \<and> CHR ''*'' \<notin> set (take (pi - Suc k) (drop (Suc k) p)) \<and>
     glob p s = glob (drop k p) (drop ls s) \<and>
     glob (drop (Suc k) p) (drop ls s) = glob (drop pi p) (drop si s)"

text \<open>What gets smaller, lexicographically, in every turn of the loop.\<close>

definition match_measure :: "string \<Rightarrow> string \<Rightarrow> nat \<Rightarrow> nat \<Rightarrow> nat option \<Rightarrow> nat \<times> nat \<times> nat" where
  "match_measure p s si ls star =
     (length s - ls, length p - (case star of None \<Rightarrow> 0 | Some k \<Rightarrow> Suc k), length s - si)"

section \<open>Facts\<close>

declare checkPattern.simps [simp del]
declare match_loop.simps [code]

lemma glob_star: "glob (CHR ''*'' # q) s = (glob q s \<or> (case s of [] \<Rightarrow> False | _ # t \<Rightarrow> glob (CHR ''*'' # q) t))"
  by simp

lemma glob_star_suffix: "glob (CHR ''*'' # q) (drop j s) \<Longrightarrow> i \<le> j \<Longrightarrow> glob (CHR ''*'' # q) (drop i s)"
proof (induction "j - i" arbitrary: i)
  case (Suc n)
  then have IH: "glob (CHR ''*'' # q) (drop (Suc i) s)" by simp
  show ?case
  proof (cases "drop i s")
    case Nil
    then have "drop (Suc i) s = drop i s" by simp
    then show ?thesis using IH by simp
  next
    case (Cons x t)
    then have "drop (Suc i) s = t" by (simp add: drop_Suc drop_tl)
    then show ?thesis using IH Cons by simp
  qed
qed simp

lemma glob_star_iff: "glob (CHR ''*'' # q) s \<longleftrightarrow> (\<exists>j\<le>length s. glob q (drop j s))"
proof (induction s)
  case (Cons x t)
  have "(\<exists>j\<le>length (x # t). glob q (drop j (x # t))) \<longleftrightarrow> glob q (x # t) \<or> (\<exists>j\<le>length t. glob q (drop j t))"
    by (metis Suc_le_mono drop0 drop_Suc_Cons le0 length_Cons not0_implies_Suc)
  then show ?case using Cons by simp
qed simp

lemma glob_literals:
  "CHR ''*'' \<notin> set lits \<Longrightarrow> glob (lits @ t) s \<Longrightarrow> length lits \<le> length s \<and> glob t (drop (length lits) s)"
proof (induction lits arbitrary: s)
  case (Cons c lits)
  then show ?case by (cases s) auto
qed simp

lemma checkPattern_glob:
  "i \<le> length p \<Longrightarrow> checkPattern p i = glob (drop i p) []"
proof (induction p i rule: checkPattern.induct)
  case (1 p i)
  show ?case
  proof (cases "i < length p")
    case True
    then have "drop i p = p ! i # drop (Suc i) p" by (simp add: Cons_nth_drop_Suc)
    then show ?thesis using 1 True by (subst checkPattern.simps) auto
  next
    case False
    then show ?thesis using 1(2) by (subst checkPattern.simps) auto
  qed
qed

lemma at_star:
  assumes "match_inv p s pi si ls (Some k)"
  shows "drop k p = CHR ''*'' # drop (Suc k) p"
    and "drop (Suc k) p = take (pi - Suc k) (drop (Suc k) p) @ drop pi p"
proof -
  have "k < length p" "k < pi" using assms by auto
  then show "drop k p = CHR ''*'' # drop (Suc k) p" using assms by (simp add: Cons_nth_drop_Suc [symmetric])
  have "drop (pi - Suc k) (drop (Suc k) p) = drop pi p" using \<open>k < pi\<close> by simp
  then show "drop (Suc k) p = take (pi - Suc k) (drop (Suc k) p) @ drop pi p"
    by (metis append_take_drop_id)
qed

text \<open>A failed attempt moves the start of the text after the star by one character.\<close>

lemma match_inv_backtrack:
  assumes "match_inv p s pi si ls (Some k)" "si < length s" "\<not> glob (drop pi p) (drop si s)"
  shows "match_inv p s (k + 1) (ls + 1) (ls + 1) (Some k)"
proof -
  have l: "ls < length s" using assms(1,2) by simp
  then have "drop ls s = s ! ls # drop (Suc ls) s" by (simp add: Cons_nth_drop_Suc)
  then have "glob (drop k p) (drop ls s) = glob (drop k p) (drop (Suc ls) s)"
    using assms(1,3) unfolding at_star(1)[OF assms(1)] by (subst glob_star) simp
  then show ?thesis using assms(1) l by auto
qed

lemma match_inv_advance:
  assumes "match_inv p s pi si ls star" "pi < length p" "si < length s"
    "p ! pi = CHR ''?'' \<or> p ! pi = s ! si" "p ! pi \<noteq> CHR ''*''"
  shows "match_inv p s (pi + 1) (si + 1) ls star"
proof -
  have d: "drop pi p = p ! pi # drop (Suc pi) p" "drop si s = s ! si # drop (Suc si) s"
    using assms(2,3) by (simp_all add: Cons_nth_drop_Suc)
  have step: "glob (drop pi p) (drop si s) = glob (drop (Suc pi) p) (drop (Suc si) s)"
    unfolding d using assms(4,5) by simp
  show ?thesis
  proof (cases star)
    case None
    then show ?thesis using assms step by simp
  next
    case (Some k)
    then have k: "k < pi" "pi - Suc k = si - ls" "ls \<le> si" using assms(1) by auto
    have "take (Suc pi - Suc k) (drop (Suc k) p) = take (pi - Suc k) (drop (Suc k) p) @ [p ! pi]"
      using k(1) assms(2) take_Suc_conv_app_nth [of "pi - Suc k" "drop (Suc k) p"] by (simp add: Suc_diff_Suc)
    then show ?thesis using assms step Some k by (auto simp: Suc_diff_le)
  qed
qed

lemma match_inv_star:
  assumes inv: "match_inv p s pi si ls star" and "pi < length p" "si < length s" "p ! pi = CHR ''*''"
  shows "match_inv p s (pi + 1) si si (Some pi)"
proof -
  have d: "drop pi p = CHR ''*'' # drop (Suc pi) p" using assms(2,4) by (simp add: Cons_nth_drop_Suc [symmetric])
  have "glob p s = glob (drop pi p) (drop si s)"
  proof (cases star)
    case (Some k)
    let ?lits = "take (pi - Suc k) (drop (Suc k) p)"
    have i: "match_inv p s pi si ls (Some k)" using inv unfolding Some .
    have split: "drop (Suc k) p = ?lits @ drop pi p" by (rule at_star(2)[OF i])
    have len: "length ?lits = si - ls" "ls \<le> si" using i by auto
    have nostar: "CHR ''*'' \<notin> set ?lits" using i unfolding match_inv.simps by blast
    have "glob (drop k p) (drop ls s) \<longleftrightarrow> glob (drop pi p) (drop si s)"
    proof
      assume "glob (drop k p) (drop ls s)"
      then obtain j where "glob (drop (Suc k) p) (drop j (drop ls s))"
        unfolding at_star(1)[OF i] glob_star_iff by blast
      then have "glob (?lits @ drop pi p) (drop (ls + j) s)" unfolding split [symmetric] by (simp add: add.commute)
      from glob_literals [OF nostar this] have "glob (drop pi p) (drop (si + j) s)"
        using len by (simp add: ac_simps)
      then show "glob (drop pi p) (drop si s)" unfolding d by (rule glob_star_suffix) simp
    next
      assume "glob (drop pi p) (drop si s)"
      then show "glob (drop k p) (drop ls s)" using i unfolding at_star(1)[OF i] by simp
    qed
    then show ?thesis using i by simp
  qed (use inv in simp)
  then show ?thesis using assms(2-4) d by simp
qed

lemma match_inv_end:
  assumes "match_inv p s pi si ls star" "length s \<le> si"
  shows "checkPattern p pi = glob p s"
proof (cases star)
  case None
  then show ?thesis using assms by (simp add: checkPattern_glob)
next
  case (Some k)
  have i: "match_inv p s pi si ls (Some k)" using assms(1) unfolding Some .
  let ?lits = "take (pi - Suc k) (drop (Suc k) p)"
  have si: "si = length s" using i assms(2) by simp
  have len: "length ?lits = si - ls" "ls \<le> si" using i by auto
  have nostar: "CHR ''*'' \<notin> set ?lits" using i unfolding match_inv.simps by blast
  have "glob (drop pi p) []" if "glob (drop (Suc k) p) (drop (ls + j) s)" for j
  proof -
    have "glob (?lits @ drop pi p) (drop (ls + j) s)" using that unfolding at_star(2)[OF i, symmetric] .
    from glob_literals [OF nostar this] show ?thesis using len si by simp
  qed
  then have "glob (drop k p) (drop ls s) \<Longrightarrow> glob (drop pi p) []"
    unfolding at_star(1)[OF i] glob_star_iff by (auto simp: add.commute)
  moreover have "glob (drop pi p) [] \<Longrightarrow> glob (drop k p) (drop ls s)"
    unfolding at_star(1)[OF i] using i si by (subst glob_star) simp
  ultimately show ?thesis using i by (auto simp: checkPattern_glob)
qed

lemma match_loop_glob:
  "match_inv p s pi si ls star \<Longrightarrow> match_loop p s pi si ls star = Some (glob p s)"
proof (induction "match_measure p s si ls star" arbitrary: pi si ls star
    rule: wf_induct_rule [OF wf_lex_prod [OF wf_less_than wf_lex_prod [OF wf_less_than wf_less_than]]])
  case 1
  note inv = 1(2)
  note IH = 1(1)
  note unfold = match_loop.simps [of p s pi si ls star]
  have fail: "(case star of Some k \<Rightarrow> match_loop p s (k + 1) (ls + 1) (ls + 1) star | None \<Rightarrow> Some False) = Some (glob p s)"
    if "si < length s" "\<not> glob (drop pi p) (drop si s)"
  proof (cases star)
    case (Some k)
    then have i: "match_inv p s pi si ls (Some k)" using inv by (simp only:)
    have "match_loop p s (k + 1) (ls + 1) (ls + 1) (Some k) = Some (glob p s)"
      using match_inv_backtrack [OF i that] i that(1) Some by (intro IH) (auto simp: match_measure_def)
    then show ?thesis using Some by simp
  qed (use inv that in simp)
  show ?case
  proof (cases "si < length s \<and> pi < length p")
    case False
    then consider "length s \<le> si" | "si < length s" "length p \<le> pi" by linarith
    then show ?thesis
    proof cases
      case 1
      then show ?thesis using match_inv_end [OF inv 1] by (simp add: unfold)
    next
      case 2
      then have "\<not> glob (drop pi p) (drop si s)" by simp
      then show ?thesis using fail [OF 2(1)] 2 by (simp add: unfold)
    qed
  next
    case True
    have d: "drop pi p = p ! pi # drop (Suc pi) p" "drop si s = s ! si # drop (Suc si) s"
      using True by (simp_all add: Cons_nth_drop_Suc)
    consider (adv) "p ! pi = CHR ''?'' \<or> p ! pi = s ! si" "p ! pi \<noteq> CHR ''*''" | (star) "p ! pi = CHR ''*''"
      | (clash) "p ! pi \<noteq> CHR ''?''" "p ! pi \<noteq> s ! si" "p ! pi \<noteq> CHR ''*''" by blast
    then show ?thesis
    proof cases
      case adv
      have "match_loop p s (pi + 1) (si + 1) ls star = Some (glob p s)"
        using match_inv_advance [OF inv _ _ adv] True by (intro IH) (auto simp: match_measure_def)
      then show ?thesis using True adv by (subst unfold) auto
    next
      case star
      have "si < length s" "ls \<le> si" "case star of None \<Rightarrow> True | Some k \<Rightarrow> k < pi"
        using True inv by (cases star; simp)+
      then have "match_loop p s (pi + 1) si si (Some pi) = Some (glob p s)"
        using match_inv_star [OF inv _ _ star] True by (intro IH) (auto simp: match_measure_def split: option.splits)
      then show ?thesis using True star by (subst unfold) auto
    next
      case clash
      then have "\<not> glob (drop pi p) (drop si s)" unfolding d by simp
      then show ?thesis using fail True clash by (subst unfold) auto
    qed
  qed
qed

lemma Match_wildcard_glob: "Match_wildcard p s = Some (glob p s)"
proof -
  have self: "glob p p" for p by (induction p) auto
  have "matchByString p s = Some (glob p s)" unfolding matchByString_def by (rule match_loop_glob) simp
  moreover have "glob ''*'' s" unfolding glob_star_iff by (rule exI [of _ "length s"]) simp
  ultimately show ?thesis using self by (auto simp: Match_wildcard_def)
qed

section \<open>Properties\<close>

text \<open>
  C37.  The matcher returns on every pattern and every text, and its answer is that of the recursive
  definition: a star stands for any sequence of bytes and a question mark for exactly one byte.
\<close>

theorem wildcard_matches_glob: "Match_wildcard pattern s = Some (glob pattern s)"
  by (rule Match_wildcard_glob)

end
