(* ===== verification/Netip.thy ===== *)
theory Netip
  imports GoStrings
begin

text \<open>
  The parts of the standard library's \<open>net/netip\<close> and \<open>net\<close> packages that the code uses: IP
  addresses and prefixes with their predicates, parsing and printing of addresses, and the splitting
  and joining of host and port.
\<close>

unbundle bit_operations_syntax

section \<open>Addresses\<close>

text \<open>An IPv6 address carries its zone, the empty string when it has none.\<close>

datatype Addr = NoAddr | IPv4 "32 word" | IPv6 "128 word" string

fun IsValid :: "Addr \<Rightarrow> bool" where
  "IsValid NoAddr = False"
| "IsValid _ = True"

fun Is4 :: "Addr \<Rightarrow> bool" where
  "Is4 (IPv4 _) = True"
| "Is4 _ = False"

fun Is6 :: "Addr \<Rightarrow> bool" where
  "Is6 (IPv6 _ _) = True"
| "Is6 _ = False"

fun Is4In6 :: "Addr \<Rightarrow> bool" where
  "Is4In6 (IPv6 w _) = (drop_bit 32 w = 0xffff)"
| "Is4In6 _ = False"

fun Unmap :: "Addr \<Rightarrow> Addr" where
  "Unmap (IPv6 w z) = (if drop_bit 32 w = 0xffff then IPv4 (ucast w) else IPv6 w z)"
| "Unmap a = a"

fun WithZone :: "string \<Rightarrow> Addr \<Rightarrow> Addr" where
  "WithZone z (IPv6 w _) = IPv6 w z"
| "WithZone z a = a"

text \<open>The bytes of a word, most significant first.\<close>

definition word_bytes :: "nat \<Rightarrow> 'a::len word \<Rightarrow> 8 word list" where
  "word_bytes n w = map (\<lambda>i. ucast (drop_bit (8 * (n - 1 - i)) w)) [0..<n]"

fun AsSlice :: "Addr \<Rightarrow> 8 word list" where
  "AsSlice NoAddr = []"
| "AsSlice (IPv4 w) = word_bytes 4 w"
| "AsSlice (IPv6 w _) = word_bytes 16 w"

fun top_bits :: "nat \<Rightarrow> Addr \<Rightarrow> nat" where
  "top_bits n NoAddr = 0"
| "top_bits n (IPv4 w) = unat (drop_bit (32 - n) w)"
| "top_bits n (IPv6 w _) = unat (drop_bit (128 - n) w)"

fun is_private :: "Addr \<Rightarrow> bool" where
  "is_private (IPv4 w) = (drop_bit 24 w = 10 \<or> drop_bit 20 w = 0xac1 \<or> drop_bit 16 w = 0xc0a8)"
| "is_private (IPv6 w _) = (drop_bit 121 w = 0x7e)"
| "is_private NoAddr = False"

definition IsPrivate :: "Addr \<Rightarrow> bool" where
  "IsPrivate a = is_private (Unmap a)"

definition IsUnspecified :: "Addr \<Rightarrow> bool" where
  "IsUnspecified a = (a = IPv4 0 \<or> a = IPv6 0 [])"

fun is_loopback :: "Addr \<Rightarrow> bool" where
  "is_loopback (IPv4 w) = (drop_bit 24 w = 127)"
| "is_loopback (IPv6 w _) = (w = 1)"
| "is_loopback NoAddr = False"

definition IsLoopback :: "Addr \<Rightarrow> bool" where
  "IsLoopback a = is_loopback (Unmap a)"

fun is_multicast :: "Addr \<Rightarrow> bool" where
  "is_multicast (IPv4 w) = (drop_bit 28 w = 0xe)"
| "is_multicast (IPv6 w _) = (drop_bit 120 w = 0xff)"
| "is_multicast NoAddr = False"

definition IsMulticast :: "Addr \<Rightarrow> bool" where
  "IsMulticast a = is_multicast (Unmap a)"

fun is_link_local :: "Addr \<Rightarrow> bool" where
  "is_link_local (IPv4 w) = (drop_bit 16 w = 0xa9fe)"
| "is_link_local (IPv6 w _) = (drop_bit 118 w = 0x3fa)"
| "is_link_local NoAddr = False"

definition IsLinkLocalUnicast :: "Addr \<Rightarrow> bool" where
  "IsLinkLocalUnicast a = is_link_local (Unmap a)"

section \<open>Prefixes, addresses with ports\<close>

record Prefix =
  paddr :: Addr
  pbits :: nat

text \<open>An address with a zone is in no prefix, and the two must be of the same family.\<close>

fun has_zone :: "Addr \<Rightarrow> bool" where
  "has_zone (IPv6 _ z) = (z \<noteq> [])"
| "has_zone _ = False"

definition Contains_prefix :: "Prefix \<Rightarrow> Addr \<Rightarrow> bool" where
  "Contains_prefix p ip =
     (IsValid (paddr p) \<and> IsValid ip \<and> \<not> has_zone ip \<and> Is4 (paddr p) = Is4 ip \<and>
      top_bits (pbits p) (paddr p) = top_bits (pbits p) ip)"

record AddrPort =
  ap_addr :: Addr
  ap_port :: "16 word"

section \<open>Parsing\<close>

fun index_of :: "char \<Rightarrow> string \<Rightarrow> nat option" where
  "index_of c [] = None"
| "index_of c (x # xs) = (if x = c then Some 0 else map_option Suc (index_of c xs))"

definition last_index :: "char \<Rightarrow> string \<Rightarrow> nat option" where
  "last_index c s = map_option (\<lambda>i. length s - 1 - i) (index_of c (rev s))"

text \<open>One octet: at least one digit, no leading zero, at most 255.\<close>

definition parse_octet :: "string \<Rightarrow> nat option" where
  "parse_octet f =
     (if f = [] \<or> (length f > 1 \<and> hd f = CHR ''0'') then None
      else case digits_val 0 f of Some n \<Rightarrow> if n \<le> 255 then Some n else None | None \<Rightarrow> None)"

definition parseIPv4Fields :: "string \<Rightarrow> nat list option" where
  "parseIPv4Fields s =
     (let fs = map parse_octet (split_on (CHR ''.'') s)
      in if length fs = 4 \<and> None \<notin> set fs then Some (map the fs) else None)"

definition word_of_bytes :: "nat list \<Rightarrow> 'a::len word" where
  "word_of_bytes bs = of_nat (foldl (\<lambda>acc b. acc * 256 + b) 0 bs)"

definition hex_val :: "char \<Rightarrow> nat option" where
  "hex_val c =
     (let n = of_char c :: nat in
      if 48 \<le> n \<and> n \<le> 57 then Some (n - 48)
      else if 97 \<le> n \<and> n \<le> 102 then Some (n - 87)
      else if 65 \<le> n \<and> n \<le> 70 then Some (n - 55) else None)"

definition hex_digits :: "string \<Rightarrow> string" where
  "hex_digits s = takeWhile (\<lambda>c. hex_val c \<noteq> None) s"

definition hex_number :: "string \<Rightarrow> nat" where
  "hex_number s = foldl (\<lambda>acc c. acc * 16 + the (hex_val c)) 0 s"

text \<open>
  The loop of \<open>parseIPv6\<close>: the bytes read so far, the position of the ellipsis, the text left.
  At most eight groups are read, which is the first argument.
\<close>

fun ipv6_groups :: "nat \<Rightarrow> nat list \<Rightarrow> nat option \<Rightarrow> string \<Rightarrow> (nat list \<times> nat option \<times> string) option" where
  "ipv6_groups 0 ip ell s = Some (ip, ell, s)"
| "ipv6_groups (Suc k) ip ell s =
     (let g = hex_digits s; rest = drop (length g) s in
      if g = [] \<or> length g > 4 then None
      else if rest \<noteq> [] \<and> hd rest = CHR ''.'' then
        (if (ell = None \<and> length ip \<noteq> 12) \<or> length ip + 4 > 16 then None
         else map_option (\<lambda>v4. (ip @ v4, ell, [])) (parseIPv4Fields s))
      else let ip' = ip @ [hex_number g div 256, hex_number g mod 256] in
        if rest = [] then Some (ip', ell, [])
        else if hd rest \<noteq> CHR '':'' \<or> length rest = 1 then None
        else let r1 = tl rest in
          if hd r1 = CHR '':'' then
            (if ell \<noteq> None then None
             else if tl r1 = [] then Some (ip', Some (length ip'), [])
             else ipv6_groups k ip' (Some (length ip')) (tl r1))
          else ipv6_groups k ip' ell r1)"

definition parseIPv6 :: "string \<Rightarrow> Addr option" where
  "parseIPv6 text =
     (let (s, zone) = (case index_of (CHR ''%'') text of
                         None \<Rightarrow> (text, []) | Some i \<Rightarrow> (take i text, drop (Suc i) text)) in
      if index_of (CHR ''%'') text \<noteq> None \<and> zone = [] then None
      else if s = ''::'' then Some (IPv6 0 zone)
      else let lead = HasPrefix s ''::'' in
        case ipv6_groups 8 [] (if lead then Some 0 else None) (if lead then drop 2 s else s) of
          None \<Rightarrow> None
        | Some (ip, ell, rest) \<Rightarrow>
            if rest \<noteq> [] then None
            else if length ip < 16 then
              (case ell of
                 None \<Rightarrow> None
               | Some e \<Rightarrow> Some (IPv6 (word_of_bytes (take e ip @ replicate (16 - length ip) 0 @ drop e ip)) zone))
            else if ell \<noteq> None then None
            else Some (IPv6 (word_of_bytes ip) zone))"

fun ParseAddr_from :: "string \<Rightarrow> string \<Rightarrow> Addr option" where
  "ParseAddr_from s [] = None"
| "ParseAddr_from s (c # cs) =
     (if c = CHR ''.'' then map_option (\<lambda>bs. IPv4 (word_of_bytes bs)) (parseIPv4Fields s)
      else if c = CHR '':'' then parseIPv6 s
      else if c = CHR ''%'' then None
      else ParseAddr_from s cs)"

definition ParseAddr :: "string \<Rightarrow> Addr option" where
  "ParseAddr s = ParseAddr_from s s"

definition ParsePrefix :: "string \<Rightarrow> Prefix option" where
  "ParsePrefix s =
     (case last_index (CHR ''/'') s of
        None \<Rightarrow> None
      | Some i \<Rightarrow>
          (case ParseAddr (take i s) of
             None \<Rightarrow> None
           | Some ip \<Rightarrow>
               let bitsStr = drop (Suc i) s in
               if has_zone ip \<or> (length bitsStr > 1 \<and> hd bitsStr = CHR ''0'') then None
               else (case ParseUint 63 bitsStr of
                       None \<Rightarrow> None
                     | Some n \<Rightarrow> if n \<le> (if Is4 ip then 32 else 128)
                                 then Some \<lparr>paddr = ip, pbits = n\<rparr> else None)))"

section \<open>Printing\<close>

definition hex_char :: "nat \<Rightarrow> char" where
  "hex_char n = (if n < 10 then char_of (48 + n) else char_of (87 + n))"

fun show_hex :: "nat \<Rightarrow> string" where
  "show_hex n = (if n < 16 then [hex_char n] else show_hex (n div 16) @ [hex_char (n mod 16)])"

declare show_hex.simps [simp del]

definition show_ipv4 :: "32 word \<Rightarrow> string" where
  "show_ipv4 w = join_with ''.'' (map (\<lambda>b. show_nat (unat b)) (word_bytes 4 w))"

definition ipv6_fields :: "128 word \<Rightarrow> nat list" where
  "ipv6_fields w = map (\<lambda>i. unat (take_bit 16 (drop_bit (16 * (7 - i)) w))) [0..<8]"

definition zero_run :: "nat list \<Rightarrow> nat \<Rightarrow> nat" where
  "zero_run fs i = length (takeWhile (\<lambda>n. n = 0) (drop i fs))"

text \<open>The first of the longest runs of at least two zero fields.\<close>

definition longest_run :: "nat list \<Rightarrow> (nat \<times> nat) option" where
  "longest_run fs =
     foldl (\<lambda>best i. let l = zero_run fs i; prev = (case best of None \<Rightarrow> 1 | Some (_, m) \<Rightarrow> m)
                     in if l > prev then Some (i, l) else best) None [0..<length fs]"

definition show_ipv6 :: "128 word \<Rightarrow> string" where
  "show_ipv6 w =
     (let fs = ipv6_fields w; hex = (\<lambda>xs. join_with '':'' (map show_hex xs)) in
      if drop_bit 32 w = 0xffff then ''::ffff:'' @ show_ipv4 (ucast w)
      else case longest_run fs of
             None \<Rightarrow> hex fs
           | Some (i, l) \<Rightarrow> hex (take i fs) @ ''::'' @ hex (drop (i + l) fs))"

fun String_addr :: "Addr \<Rightarrow> string" where
  "String_addr NoAddr = ''invalid IP''"
| "String_addr (IPv4 w) = show_ipv4 w"
| "String_addr (IPv6 w z) = show_ipv6 w @ (if z = [] then [] else CHR ''%'' # z)"

definition String_prefix :: "Prefix \<Rightarrow> string" where
  "String_prefix p =
     (if \<not> IsValid (paddr p) then ''invalid Prefix''
      else String_addr (paddr p) @ ''/'' @ show_nat (pbits p))"

section \<open>Host and port\<close>

definition JoinHostPort :: "string \<Rightarrow> string \<Rightarrow> string" where
  "JoinHostPort host port =
     (if CHR '':'' \<in> set host then ''['' @ host @ '']:'' @ port else host @ '':'' @ port)"

definition SplitHostPort :: "string \<Rightarrow> (string \<times> string) result" where
  "SplitHostPort hp =
     (case last_index (CHR '':'') hp of
        None \<Rightarrow> Inl ''missing port in address''
      | Some i \<Rightarrow>
          let port = drop (Suc i) hp in
          if hd hp = CHR ''['' then
            (case index_of (CHR '']'') hp of
               None \<Rightarrow> Inl ''missing ']' in address''
             | Some e \<Rightarrow>
                 if e + 1 = length hp then Inl ''missing port in address''
                 else if e + 1 \<noteq> i then
                   (if hp ! (e + 1) = CHR '':'' then Inl ''too many colons in address''
                    else Inl ''missing port in address'')
                 else if CHR ''['' \<in> set (drop 1 hp) then Inl ''unexpected '[' in address''
                 else if CHR '']'' \<in> set (drop (e + 1) hp) then Inl ''unexpected ']' in address''
                 else Inr (take (e - 1) (drop 1 hp), port))
          else
            let host = take i hp in
            if CHR '':'' \<in> set host then Inl ''too many colons in address''
            else if CHR ''['' \<in> set hp then Inl ''unexpected '[' in address''
            else if CHR '']'' \<in> set hp then Inl ''unexpected ']' in address''
            else Inr (host, port))"

end
