(* ===== verification/Metadata.thy ===== *)
theory Metadata
  imports Netip
begin

text \<open>
  Connection metadata: \<open>constant/metadata.go\<close> and the enumerations of \<open>constant/dns.go\<close> it
  uses.  The enumerated integer types are datatypes with the declared constants; an out-of-range
  integer, which no code constructs, has no counterpart.  Methods that change the receiver return
  the changed metadata.
\<close>

section \<open>Enumerations\<close>

type_synonym AddrType = "8 word"

definition AtypIPv4 :: AddrType where "AtypIPv4 = 1"
definition AtypDomainName :: AddrType where "AtypDomainName = 3"
definition AtypIPv6 :: AddrType where "AtypIPv6 = 4"

definition String_AddrType :: "AddrType \<Rightarrow> string" where
  "String_AddrType a =
     (if a = AtypIPv4 then ''IPv4'' else if a = AtypDomainName then ''DomainName''
      else if a = AtypIPv6 then ''IPv6'' else ''Unknown'')"

datatype NetWork = TCP | UDP | ALLNet | InvalidNet

fun String_NetWork :: "NetWork \<Rightarrow> string" where
  "String_NetWork TCP = ''tcp''"
| "String_NetWork UDP = ''udp''"
| "String_NetWork ALLNet = ''all''"
| "String_NetWork InvalidNet = ''invalid''"

datatype Type =
    HTTP | HTTPS | SOCKS4 | SOCKS5 | SHADOWSOCKS | SNELL | VMESS | VLESS | REDIR | TPROXY | TROJAN
  | TUNNEL | TUN | TUIC | HYSTERIA2 | ANYTLS | MIERU | SUDOKU | TRUSTTUNNEL | SHADOWQUIC | INNER

fun String_Type :: "Type \<Rightarrow> string" where
  "String_Type HTTP = ''HTTP''"
| "String_Type HTTPS = ''HTTPS''"
| "String_Type SOCKS4 = ''Socks4''"
| "String_Type SOCKS5 = ''Socks5''"
| "String_Type SHADOWSOCKS = ''ShadowSocks''"
| "String_Type SNELL = ''Snell''"
| "String_Type VMESS = ''Vmess''"
| "String_Type VLESS = ''Vless''"
| "String_Type REDIR = ''Redir''"
| "String_Type TPROXY = ''TProxy''"
| "String_Type TROJAN = ''Trojan''"
| "String_Type TUNNEL = ''Tunnel''"
| "String_Type TUN = ''Tun''"
| "String_Type TUIC = ''Tuic''"
| "String_Type HYSTERIA2 = ''Hysteria2''"
| "String_Type ANYTLS = ''AnyTLS''"
| "String_Type MIERU = ''Mieru''"
| "String_Type SUDOKU = ''Sudoku''"
| "String_Type TRUSTTUNNEL = ''TrustTunnel''"
| "String_Type SHADOWQUIC = ''ShadowQuic''"
| "String_Type INNER = ''Inner''"

definition ParseType :: "string \<Rightarrow> Type result" where
  "ParseType t =
     (if t = ''HTTP'' then Inr HTTP
      else if t = ''HTTPS'' then Inr HTTPS
      else if t = ''SOCKS4'' then Inr SOCKS4
      else if t = ''SOCKS5'' then Inr SOCKS5
      else if t = ''SHADOWSOCKS'' then Inr SHADOWSOCKS
      else if t = ''SNELL'' then Inr SNELL
      else if t = ''VMESS'' then Inr VMESS
      else if t = ''VLESS'' then Inr VLESS
      else if t = ''REDIR'' then Inr REDIR
      else if t = ''TPROXY'' then Inr TPROXY
      else if t = ''TROJAN'' then Inr TROJAN
      else if t = ''TUNNEL'' then Inr TUNNEL
      else if t = ''TUN'' then Inr TUN
      else if t = ''TUIC'' then Inr TUIC
      else if t = ''HYSTERIA2'' then Inr HYSTERIA2
      else if t = ''ANYTLS'' then Inr ANYTLS
      else if t = ''MIERU'' then Inr MIERU
      else if t = ''SUDOKU'' then Inr SUDOKU
      else if t = ''TRUSTTUNNEL'' then Inr TRUSTTUNNEL
      else if t = ''SHADOWQUIC'' then Inr SHADOWQUIC
      else if t = ''INNER'' then Inr INNER
      else Inl (''unknown type: '' @ t))"

datatype DNSMode = DNSNormal | DNSFakeIP | DNSMapping | DNSHosts

fun String_DNSMode :: "DNSMode \<Rightarrow> string" where
  "String_DNSMode DNSNormal = ''normal''"
| "String_DNSMode DNSFakeIP = ''fake-ip''"
| "String_DNSMode DNSMapping = ''redir-host''"
| "String_DNSMode DNSHosts = ''hosts''"

definition DNSModeMapping :: "string \<Rightarrow> DNSMode option" where
  "DNSModeMapping =
     [String_DNSMode DNSNormal \<mapsto> DNSNormal, String_DNSMode DNSFakeIP \<mapsto> DNSFakeIP,
      String_DNSMode DNSMapping \<mapsto> DNSMapping]"

definition UnmarshalText_DNSMode :: "string \<Rightarrow> DNSMode result" where
  "UnmarshalText_DNSMode data =
     (case DNSModeMapping (ToLower data) of None \<Rightarrow> Inl ''invalid mode'' | Some mode \<Rightarrow> Inr mode)"

datatype DNSPrefer = DualStack | IPv4Only | IPv6Only | IPv4Prefer | IPv6Prefer

fun String_DNSPrefer :: "DNSPrefer \<Rightarrow> string" where
  "String_DNSPrefer DualStack = ''dual''"
| "String_DNSPrefer IPv4Only = ''ipv4''"
| "String_DNSPrefer IPv6Only = ''ipv6''"
| "String_DNSPrefer IPv4Prefer = ''ipv4-prefer''"
| "String_DNSPrefer IPv6Prefer = ''ipv6-prefer''"

definition dnsPreferMap :: "string \<Rightarrow> DNSPrefer option" where
  "dnsPreferMap =
     [String_DNSPrefer DualStack \<mapsto> DualStack, String_DNSPrefer IPv4Only \<mapsto> IPv4Only,
      String_DNSPrefer IPv6Only \<mapsto> IPv6Only, String_DNSPrefer IPv4Prefer \<mapsto> IPv4Prefer,
      String_DNSPrefer IPv6Prefer \<mapsto> IPv6Prefer]"

text \<open>An unknown text selects the default instead of an error.\<close>

definition UnmarshalText_DNSPrefer :: "string \<Rightarrow> DNSPrefer" where
  "UnmarshalText_DNSPrefer data =
     (case dnsPreferMap (ToLower data) of None \<Rightarrow> DualStack | Some p \<Rightarrow> p)"

datatype FilterMode = FilterBlackList | FilterWhiteList | FilterRule

fun String_FilterMode :: "FilterMode \<Rightarrow> string" where
  "String_FilterMode FilterBlackList = ''blacklist''"
| "String_FilterMode FilterWhiteList = ''whitelist''"
| "String_FilterMode FilterRule = ''rule''"

definition FilterModeMapping :: "string \<Rightarrow> FilterMode option" where
  "FilterModeMapping =
     [String_FilterMode FilterBlackList \<mapsto> FilterBlackList,
      String_FilterMode FilterWhiteList \<mapsto> FilterWhiteList,
      String_FilterMode FilterRule \<mapsto> FilterRule]"

definition UnmarshalText_FilterMode :: "string \<Rightarrow> FilterMode result" where
  "UnmarshalText_FilterMode data =
     (case FilterModeMapping (ToLower data) of None \<Rightarrow> Inl ''invalid mode'' | Some mode \<Rightarrow> Inr mode)"

section \<open>Metadata\<close>

text \<open>
  A \<open>net.Addr\<close>, by the answers of the methods \<open>SetRemoteAddr\<close> looks for; \<open>rawAddr\<close> is
  \<open>None\<close> when the method is missing or returns \<open>nil\<close>.
\<close>

datatype NetAddr =
  NetAddr (rawAddr: "NetAddr option") (addrPort: "AddrPort option") (addrString: "string option")
          (addrText: string)

text \<open>A \<open>nil\<close> list of regions (never queried) is \<open>None\<close>.\<close>

record Metadata =
  NetWork :: NetWork
  Type :: Type
  SrcIP :: Addr
  DstIP :: Addr
  SrcGeoIP :: "string list option"
  DstGeoIP :: "string list option"
  SrcIPASN :: string
  DstIPASN :: string
  SrcPort :: "16 word"
  DstPort :: "16 word"
  InIP :: Addr
  InPort :: "16 word"
  InName :: string
  InUser :: string
  RematchName :: string
  Host :: string
  DNSMode :: DNSMode
  Uid :: "32 word"
  Process :: string
  ProcessPath :: string
  SpecialProxy :: string
  SpecialRules :: string
  RemoteDst :: string
  DSCP :: "8 word"
  RawSrcAddr :: "NetAddr option"
  RawDstAddr :: "NetAddr option"
  DontFragment :: bool
  SniffHost :: string

text \<open>The zero value of the type.\<close>

definition zero_metadata :: Metadata where
  "zero_metadata =
     \<lparr>NetWork = TCP, Type = HTTP, SrcIP = NoAddr, DstIP = NoAddr, SrcGeoIP = None, DstGeoIP = None,
      SrcIPASN = [], DstIPASN = [], SrcPort = 0, DstPort = 0, InIP = NoAddr, InPort = 0, InName = [],
      InUser = [], RematchName = [], Host = [], DNSMode = DNSNormal, Uid = 0, Process = [],
      ProcessPath = [], SpecialProxy = [], SpecialRules = [], RemoteDst = [], DSCP = 0,
      RawSrcAddr = None, RawDstAddr = None, DontFragment = False, SniffHost = []\<rparr>"

definition MihomoName :: string where "MihomoName = ''mihomo''"

definition String_Metadata :: "Metadata \<Rightarrow> string" where
  "String_Metadata m =
     (if Host m \<noteq> '''' then Host m
      else if IsValid (DstIP m) then String_addr (DstIP m)
      else ''<nil>'')"

definition RemoteAddress :: "Metadata \<Rightarrow> string" where
  "RemoteAddress m = JoinHostPort (String_Metadata m) (show_nat (unat (DstPort m)))"

definition SourceAddress :: "Metadata \<Rightarrow> string" where
  "SourceAddress m = JoinHostPort (String_addr (SrcIP m)) (show_nat (unat (SrcPort m)))"

definition SourceAddrPort :: "Metadata \<Rightarrow> AddrPort" where
  "SourceAddrPort m = \<lparr>ap_addr = Unmap (SrcIP m), ap_port = SrcPort m\<rparr>"

definition SourceDetail :: "Metadata \<Rightarrow> string" where
  "SourceDetail m =
     (if Type m = INNER then MihomoName
      else if Process m \<noteq> '''' \<and> Uid m \<noteq> 0 then
        SourceAddress m @ ''('' @ Process m @ '', uid='' @ show_nat (unat (Uid m)) @ '')''
      else if Uid m \<noteq> 0 then SourceAddress m @ ''(uid='' @ show_nat (unat (Uid m)) @ '')''
      else if Process m \<noteq> '''' then SourceAddress m @ ''('' @ Process m @ '')''
      else SourceAddress m)"

definition SourceValid :: "Metadata \<Rightarrow> bool" where
  "SourceValid m = (SrcPort m \<noteq> 0 \<and> IsValid (SrcIP m))"

definition AddrType_of :: "Metadata \<Rightarrow> AddrType" where
  "AddrType_of m =
     (if Host m \<noteq> '''' \<or> \<not> IsValid (DstIP m) then AtypDomainName
      else if Is4 (DstIP m) then AtypIPv4
      else AtypIPv6)"

definition Resolved :: "Metadata \<Rightarrow> bool" where
  "Resolved m = IsValid (DstIP m)"

definition RuleHost :: "Metadata \<Rightarrow> string" where
  "RuleHost m = (if length (SniffHost m) = 0 then Host m else SniffHost m)"

text \<open>The metadata returned; the receiver itself is never changed.\<close>

definition Pure :: "Metadata \<Rightarrow> Metadata" where
  "Pure m =
     (if (DNSMode m = DNSMapping \<or> DNSMode m = DNSHosts) \<and> IsValid (DstIP m)
      then m\<lparr>Host := ''''\<rparr> else m)"

definition AddrPort_of :: "Metadata \<Rightarrow> AddrPort" where
  "AddrPort_of m = \<lparr>ap_addr = Unmap (DstIP m), ap_port = DstPort m\<rparr>"

definition UDPAddr :: "Metadata \<Rightarrow> AddrPort option" where
  "UDPAddr m =
     (if NetWork m \<noteq> UDP \<or> \<not> IsValid (DstIP m) then None else Some (AddrPort_of m))"

definition Valid :: "Metadata \<Rightarrow> bool" where
  "Valid m = (Host m \<noteq> '''' \<or> IsValid (DstIP m))"

text \<open>The error, if any, with the metadata left behind.\<close>

definition SetRemoteAddress :: "string \<Rightarrow> Metadata \<Rightarrow> string option \<times> Metadata" where
  "SetRemoteAddress rawAddress m =
     (case SplitHostPort rawAddress of
        Inl err \<Rightarrow> (Some err, m)
      | Inr (host, port) \<Rightarrow>
          let uint16Port = (case ParseUint 16 port of Some p \<Rightarrow> of_nat p | None \<Rightarrow> 0);
              m1 = (case ParseAddr host of
                      None \<Rightarrow> m\<lparr>Host := host, DstIP := NoAddr\<rparr>
                    | Some ip \<Rightarrow> m\<lparr>Host := '''', DstIP := Unmap ip\<rparr>)
          in (None, m1\<lparr>DstPort := uint16Port\<rparr>))"

text \<open>The part of \<open>SetRemoteAddr\<close> after the raw address has been tried.\<close>

definition SetRemoteAddr_direct :: "AddrPort option \<Rightarrow> string option \<Rightarrow> string \<Rightarrow> Metadata \<Rightarrow> string option \<times> Metadata" where
  "SetRemoteAddr_direct ap astr txt m =
     (case ap of
        Some a \<Rightarrow>
          if ap_port a \<noteq> 0 then
            (let m1 = m\<lparr>DstPort := ap_port a\<rparr> in
             if IsValid (ap_addr a) then (None, m1\<lparr>DstIP := Unmap (ap_addr a)\<rparr>)
             else case astr of
                    Some h \<Rightarrow> (None, m1\<lparr>Host := h\<rparr>)
                  | None \<Rightarrow> SetRemoteAddress txt m1)
          else SetRemoteAddress txt m
      | None \<Rightarrow> SetRemoteAddress txt m)"

fun SetRemoteAddr :: "NetAddr option \<Rightarrow> Metadata \<Rightarrow> string option \<times> Metadata" where
  "SetRemoteAddr None m = (None, m)"
| "SetRemoteAddr (Some (NetAddr raw ap astr txt)) m =
     (if raw = None then SetRemoteAddr_direct ap astr txt m
      else case SetRemoteAddr raw m of
             (None, m1) \<Rightarrow> (None, m1)
           | (Some _, m1) \<Rightarrow> SetRemoteAddr_direct ap astr txt m1)"

definition SwapSrcDst :: "Metadata \<Rightarrow> Metadata" where
  "SwapSrcDst m =
     m\<lparr>SrcIP := DstIP m, DstIP := SrcIP m, SrcPort := DstPort m, DstPort := SrcPort m,
       SrcIPASN := DstIPASN m, DstIPASN := SrcIPASN m, SrcGeoIP := DstGeoIP m, DstGeoIP := SrcGeoIP m\<rparr>"

end
