(* ===== verification/Reject.thy ===== *)
theory Reject
  imports Metadata "HOL-Library.Multiset"
begin

text \<open>
  Handling of rejected connections: the ban of clients that are rejected again and again
  (\<open>tunnel/reject_ban.go\<close>) and the parker that keeps dropped connections open for a while
  (\<open>tunnel/reject.go\<close>).

  Times are nanoseconds since the zero time, which is 0, so every reading of the clock is positive.
  A proxy is known by its address.  The mutexes make every method one atomic step; the goroutine of
  the parker, which gives up the lock between its steps, is a transition system.
\<close>

section \<open>Keys of bans\<close>

definition rejectBanThreshold :: nat where "rejectBanThreshold = 10"
definition rejectBanWindow :: int where "rejectBanWindow = 10000000000"
definition rejectBanDuration :: int where "rejectBanDuration = 60000000000"
definition maxRejectBanKeys :: int where "maxRejectBanKeys = 4096"

record rejectBanKey =
  k_source :: Addr
  k_destination :: Addr
  k_host :: string
  k_port :: "16 word"
  k_inboundType :: Type
  k_inboundIP :: Addr
  k_inboundPort :: "16 word"
  k_inboundName :: string
  k_inboundUser :: string
  k_specialProxy :: string
  k_specialRules :: string
  k_dscp :: "8 word"

definition TrimSuffix :: "string \<Rightarrow> string \<Rightarrow> string" where
  "TrimSuffix s suffix = (if HasSuffix s suffix then take (length s - length suffix) s else s)"

text \<open>\<open>None\<close> when the second result is false.\<close>

definition tcpRejectBanKey :: "Metadata \<Rightarrow> rejectBanKey option" where
  "tcpRejectBanKey m =
     (if NetWork m \<noteq> TCP \<or> \<not> IsValid (SrcIP m) \<or> IsUnspecified (SrcIP m) \<or> DstPort m = 0 then None
      else let host = ToLower (TrimSuffix (RuleHost m) ''.'');
               k = \<lparr>k_source = Unmap (SrcIP m),
                    k_destination = (if host = '''' then Unmap (DstIP m) else NoAddr),
                    k_host = host, k_port = DstPort m, k_inboundType = Type m,
                    k_inboundIP = Unmap (InIP m), k_inboundPort = InPort m, k_inboundName = InName m,
                    k_inboundUser = InUser m, k_specialProxy = SpecialProxy m,
                    k_specialRules = SpecialRules m, k_dscp = DSCP m\<rparr>
           in if k_host k \<noteq> '''' \<or> IsValid (k_destination k) then Some k else None)"

section \<open>Entries\<close>

record rejectBanEntry =
  rejectedAt :: "int list"
  nextr :: nat
  count :: nat
  lastReject :: int
  banUntil :: int
  bproxy :: "nat option"

definition zero_entry :: rejectBanEntry where
  "zero_entry = \<lparr>rejectedAt = replicate rejectBanThreshold 0, nextr = 0, count = 0, lastReject = 0,
                 banUntil = 0, bproxy = None\<rparr>"

text \<open>
  The part of \<open>Reject\<close> that follows the lookup of the entry: it counts the rejection in the ring
  buffer and starts the ban when the oldest of the last ten rejections lies within the window.
\<close>

definition count_reject :: "nat \<Rightarrow> int \<Rightarrow> rejectBanEntry \<Rightarrow> int option \<times> rejectBanEntry" where
  "count_reject proxy now0 e0 =
     (let now = (if now0 < lastReject e0 then lastReject e0 else now0);
          e = e0\<lparr>lastReject := now,
                 rejectedAt := (rejectedAt e0)[nextr e0 := now],
                 nextr := (nextr e0 + 1) mod rejectBanThreshold,
                 count := (if count e0 < rejectBanThreshold then count e0 + 1 else count e0)\<rparr> in
      if count e < rejectBanThreshold \<or> now - rejectedAt e ! nextr e > rejectBanWindow then (None, e)
      else (Some (now + rejectBanDuration), e\<lparr>banUntil := now + rejectBanDuration, bproxy := Some proxy\<rparr>))"

section \<open>The cache of bans\<close>

text \<open>
  What the cache needs of the LRU cache: a lookup, which may reorder the entries, an update, which
  may evict entries, deletion and clearing.  The cache holds the addresses of the entries.
\<close>

record 'c ban_ops =
  b_Get :: "rejectBanKey \<Rightarrow> 'c \<Rightarrow> nat option \<times> 'c"
  b_Set :: "rejectBanKey \<Rightarrow> nat \<Rightarrow> 'c \<Rightarrow> 'c"
  b_Delete :: "rejectBanKey \<Rightarrow> 'c \<Rightarrow> 'c"
  b_Clear :: "'c \<Rightarrow> 'c"

record 'c rejectBanCache =
  rb_entries :: 'c
  rb_heap :: "rejectBanEntry list"
  generation :: "64 word"

definition newRejectBanCache :: "'c \<Rightarrow> 'c rejectBanCache" where
  "newRejectBanCache emptyLru = \<lparr>rb_entries = emptyLru, rb_heap = [], generation = 0\<rparr>"

text \<open>The proxy of the ban, when it is active, and the generation.\<close>

definition Lookup :: "'c ban_ops \<Rightarrow> rejectBanKey \<Rightarrow> int \<Rightarrow> 'c rejectBanCache \<Rightarrow> (nat option \<times> 64 word) \<times> 'c rejectBanCache" where
  "Lookup B k now c =
     (case b_Get B k (rb_entries c) of
        (None, es) \<Rightarrow> ((None, generation c), c\<lparr>rb_entries := es\<rparr>)
      | (Some a, es) \<Rightarrow>
          let e = rb_heap c ! a; c1 = c\<lparr>rb_entries := es\<rparr> in
          if banUntil e \<noteq> 0 then
            (if now < banUntil e then ((bproxy e, generation c), c1)
             else ((None, generation c), c1\<lparr>rb_entries := b_Delete B k es\<rparr>))
          else if now - lastReject e > rejectBanWindow
          then ((None, generation c), c1\<lparr>rb_entries := b_Delete B k es\<rparr>)
          else ((None, generation c), c1))"

definition Current :: "64 word \<Rightarrow> 'c rejectBanCache \<Rightarrow> bool" where
  "Current gen c = (gen = generation c)"

text \<open>The deadline of the ban when this call has started it.\<close>

definition Reject :: "'c ban_ops \<Rightarrow> rejectBanKey \<Rightarrow> 64 word \<Rightarrow> nat \<Rightarrow> int \<Rightarrow> 'c rejectBanCache \<Rightarrow> int option \<times> 'c rejectBanCache" where
  "Reject B k gen proxy now c =
     (if \<not> Current gen c then (None, c)
      else case b_Get B k (rb_entries c) of
        (found, es) \<Rightarrow>
          let c1 = c\<lparr>rb_entries := es\<rparr> in
          if (case found of Some a \<Rightarrow> banUntil (rb_heap c ! a) \<noteq> 0 \<and> now < banUntil (rb_heap c ! a) | None \<Rightarrow> False)
          then (None, c1)
          else
            let (a, c2) =
              (case found of
                 Some a \<Rightarrow>
                   if banUntil (rb_heap c ! a) \<noteq> 0 \<or> now - lastReject (rb_heap c ! a) > rejectBanWindow
                   then (length (rb_heap c), c1\<lparr>rb_heap := rb_heap c @ [zero_entry],
                                                rb_entries := b_Set B k (length (rb_heap c)) es\<rparr>)
                   else (a, c1)
               | None \<Rightarrow> (length (rb_heap c), c1\<lparr>rb_heap := rb_heap c @ [zero_entry],
                                                 rb_entries := b_Set B k (length (rb_heap c)) es\<rparr>));
                (until, e) = count_reject proxy now (rb_heap c2 ! a)
            in (until, c2\<lparr>rb_heap := (rb_heap c2)[a := e]\<rparr>))"

definition Forget :: "'c ban_ops \<Rightarrow> rejectBanKey \<Rightarrow> 64 word \<Rightarrow> 'c rejectBanCache \<Rightarrow> 'c rejectBanCache" where
  "Forget B k gen c = (if Current gen c then c\<lparr>rb_entries := b_Delete B k (rb_entries c)\<rparr> else c)"

definition Reset :: "'c ban_ops \<Rightarrow> 'c rejectBanCache \<Rightarrow> 'c rejectBanCache" where
  "Reset B c = c\<lparr>generation := generation c + 1, rb_entries := b_Clear B (rb_entries c)\<rparr>"

section \<open>The parker\<close>

definition maxParkedDrops :: nat where "maxParkedDrops = 4096"

text \<open>The release function of a connection is known by the number of the call that parked it.\<close>

record parkedDrop =
  seqn :: "64 word"
  deadline :: int
  release :: nat

record dropParker =
  queue :: "parkedDrop list"
  nextSeq :: "64 word"
  running :: bool

text \<open>The first loop of \<open>Park\<close>: the evicted functions and the shortened queue.\<close>

function evict_loop :: "nat list \<Rightarrow> parkedDrop list \<Rightarrow> nat list \<times> parkedDrop list" where
  "evict_loop evicted q =
     (if length q \<ge> maxParkedDrops then evict_loop (evicted @ [release (hd q)]) (tl q) else (evicted, q))"
  by pat_completeness auto
termination
  by (relation "measure (\<lambda>(evicted, q). length q)") (auto simp: maxParkedDrops_def)

text \<open>
  The critical section of \<open>Park\<close>: the functions to call after it, whether the goroutine is started,
  and the new state.
\<close>

definition Park :: "int \<Rightarrow> int \<Rightarrow> nat \<Rightarrow> dropParker \<Rightarrow> (nat list \<times> bool) \<times> dropParker" where
  "Park now ttl rel p =
     (case evict_loop [] (queue p) of (evicted, q) \<Rightarrow>
        ((evicted, \<not> running p),
         p\<lparr>nextSeq := nextSeq p + 1,
           queue := q @ [\<lparr>seqn = nextSeq p + 1, deadline = now + ttl, release = rel\<rparr>],
           running := True\<rparr>))"

text \<open>
  Where the goroutine of \<open>run\<close> is: not running, at the start of the loop, asleep until the deadline
  of the drop it has read, or about to call a release function.
\<close>

datatype runner = Stopped | AtTop | Asleep parkedDrop | Releasing parkedDrop

text \<open>The critical section at the start of the loop, and the one after the sleep.\<close>

definition run_top :: "dropParker \<Rightarrow> runner \<times> dropParker" where
  "run_top p =
     (if length (queue p) = 0 then (Stopped, p\<lparr>running := False, queue := []\<rparr>)
      else (Asleep (hd (queue p)), p))"

definition run_wake :: "parkedDrop \<Rightarrow> dropParker \<Rightarrow> runner \<times> dropParker" where
  "run_wake drp p =
     (if length (queue p) > 0 \<and> seqn (hd (queue p)) = seqn drp
      then (Releasing drp, p\<lparr>queue := tl (queue p)\<rparr>)
      else (AtTop, p))"

text \<open>
  The system of callers and goroutine.  \<open>calls\<close> counts the calls of \<open>Park\<close>, whose release
  functions are numbered in order, and \<open>called\<close> lists the functions called so far.  A caller calls
  the functions it has evicted one after the other once it has given up the lock; \<open>evicting\<close> holds,
  for each call of \<open>Park\<close>, those it has still to call.  The sleep of the goroutine may end at any
  time after it has begun.
\<close>

record parking =
  parker :: dropParker
  runner :: runner
  calls :: nat
  called :: "nat list"
  evicting :: "nat list list"

definition parking_init :: parking where
  "parking_init = \<lparr>parker = \<lparr>queue = [], nextSeq = 0, running = False\<rparr>, runner = Stopped, calls = 0, called = [],
     evicting = []\<rparr>"

inductive parking_step :: "parking \<Rightarrow> parking \<Rightarrow> bool" where
  step_park: "Park now ttl (calls s) (parker s) = ((evicted, start), p) \<Longrightarrow>
     parking_step s (s\<lparr>parker := p, runner := (if start then AtTop else runner s), calls := Suc (calls s),
                       evicting := evicting s @ [evicted]\<rparr>)"
| step_evict: "evicting s = before @ (rel # rest) # after \<Longrightarrow>
     parking_step s (s\<lparr>evicting := before @ rest # after, called := called s @ [rel]\<rparr>)"
| step_top: "runner s = AtTop \<Longrightarrow> run_top (parker s) = (r, p) \<Longrightarrow>
     parking_step s (s\<lparr>parker := p, runner := r\<rparr>)"
| step_wake: "runner s = Asleep drp \<Longrightarrow> run_wake drp (parker s) = (r, p) \<Longrightarrow>
     parking_step s (s\<lparr>parker := p, runner := r\<rparr>)"
| step_release: "runner s = Releasing drp \<Longrightarrow>
     parking_step s (s\<lparr>runner := AtTop, called := called s @ [release drp]\<rparr>)"

end
