(* ===== verification/Reject_Proofs.thy ===== *)
theory Reject_Proofs
  imports Reject
begin

text \<open>
  Facts about rejected connections: the ring buffer of an entry is a sliding window over the last ten
  rejections, and the parker releases every connection exactly once.
\<close>

section \<open>The sliding window\<close>

text \<open>The times as \<open>count_reject\<close> takes them: never before the one counted last.\<close>

fun clamped :: "int \<Rightarrow> int list \<Rightarrow> int list" where
  "clamped l [] = []"
| "clamped l (t # ts) = max l t # clamped (max l t) ts"

definition rejections :: "nat \<Rightarrow> int list \<Rightarrow> rejectBanEntry" where
  "rejections proxy ts = foldl (\<lambda>e t. snd (count_reject proxy t e)) zero_entry ts"

text \<open>What the ring buffer holds after the times \<open>hs\<close>.\<close>

definition ring_holds :: "int list \<Rightarrow> rejectBanEntry \<Rightarrow> bool" where
  "ring_holds hs e \<longleftrightarrow>
     length (rejectedAt e) = 10 \<and> nextr e = length hs mod 10 \<and> count e = min 10 (length hs) \<and>
     lastReject e = (if hs = [] then 0 else last hs) \<and>
     (\<forall>i<length hs. length hs \<le> i + 10 \<longrightarrow> rejectedAt e ! (i mod 10) = hs ! i)"

section \<open>The parker\<close>

text \<open>The release functions that wait for their call.\<close>

definition pending :: "parking \<Rightarrow> nat list" where
  "pending s = (case runner s of Releasing d \<Rightarrow> [release d] | _ \<Rightarrow> []) @ map release (queue (parker s)) @
     concat (evicting s)"

definition numbered :: "parking \<Rightarrow> parkedDrop \<Rightarrow> bool" where
  "numbered s d \<longleftrightarrow> release d < calls s \<and> seqn d = of_nat (Suc (release d))"

fun runner_drop :: "runner \<Rightarrow> parkedDrop set" where
  "runner_drop (Asleep d) = {d}"
| "runner_drop (Releasing d) = {d}"
| "runner_drop _ = {}"

definition parking_ok :: "parking \<Rightarrow> bool" where
  "parking_ok s \<longleftrightarrow>
     length (queue (parker s)) \<le> maxParkedDrops \<and>
     (running (parker s) \<longleftrightarrow> runner s \<noteq> Stopped) \<and> (runner s = Stopped \<longrightarrow> queue (parker s) = []) \<and>
     nextSeq (parker s) = of_nat (calls s) \<and>
     (\<forall>d\<in>set (queue (parker s)) \<union> runner_drop (runner s). numbered s d) \<and>
     distinct (called s @ pending s) \<and> set (called s @ pending s) = {..<calls s}"

text \<open>The steps that goroutine and callers take without a further call of \<open>Park\<close>.\<close>

definition drain_step :: "parking \<Rightarrow> parking \<Rightarrow> bool" where
  "drain_step s s' \<longleftrightarrow> parking_step s s' \<and> calls s' = calls s"

text \<open>A measure that each of them makes smaller.\<close>

definition parking_work :: "parking \<Rightarrow> nat" where
  "parking_work s =
     4 * length (queue (parker s)) + length (concat (evicting s)) +
     (case runner s of
        Stopped \<Rightarrow> 0
      | AtTop \<Rightarrow> 2
      | Asleep d \<Rightarrow> if queue (parker s) \<noteq> [] \<and> seqn (hd (queue (parker s))) = seqn d then 1 else 3
      | Releasing d \<Rightarrow> 3)"

section \<open>Facts about the window\<close>

lemma clamped_append: "clamped l (ts @ [t]) = clamped l ts @ [max (last (l # clamped l ts)) t]"
  by (induction ts arbitrary: l) auto

lemma clamped_length [simp]: "length (clamped l ts) = length ts"
  by (induction ts arbitrary: l) auto

lemma ring_holds_zero: "ring_holds [] zero_entry"
  by (simp add: ring_holds_def zero_entry_def rejectBanThreshold_def)

lemma mod_10_apart: "i < n \<Longrightarrow> n \<le> i + 9 \<Longrightarrow> i mod 10 \<noteq> n mod (10::nat)"
  using mod_eq_dvd_iff_nat[of i n 10] by (auto dest: dvd_imp_le)

lemma ring_holds_step:
  fixes t :: int
  assumes "ring_holds hs e"
  defines "now \<equiv> max (last (0 # hs)) t"
  shows "ring_holds (hs @ [now]) (snd (count_reject proxy t e))"
    and "fst (count_reject proxy t e) =
      (if 10 \<le> Suc (length hs) \<and> now - (hs @ [now]) ! (Suc (length hs) - 10) \<le> rejectBanWindow
       then Some (now + rejectBanDuration) else None)"
proof -
  let ?n = "length hs" and ?r = "(rejectedAt e)[nextr e := now]"
  have e: "length (rejectedAt e) = 10" "nextr e = ?n mod 10" "count e = min 10 ?n" "lastReject e = last (0 # hs)"
    "\<And>i. i < ?n \<Longrightarrow> ?n \<le> i + 10 \<Longrightarrow> rejectedAt e ! (i mod 10) = hs ! i"
    using assms(1) by (auto simp: ring_holds_def)
  have now: "(if t < lastReject e then lastReject e else t) = now" by (simp add: now_def e(4))
  have ring: "?r ! (i mod 10) = (hs @ [now]) ! i" if "i < Suc ?n" "Suc ?n \<le> i + 10" for i
  proof (cases "i = ?n")
    case False
    hence "i mod 10 \<noteq> ?n mod 10" using that mod_10_apart[of i ?n] by linarith
    thus ?thesis using False that e(1,2) e(5)[of i] by (simp add: nth_append)
  qed (use e(1,2) in simp)
  have nx: "(nextr e + 1) mod 10 = Suc ?n mod 10" by (simp add: e(2) mod_Suc_eq)
  have c: "(if count e < 10 then count e + 1 else count e) = min 10 (Suc ?n)" by (simp add: e(3))
  show "ring_holds (hs @ [now]) (snd (count_reject proxy t e))"
    using ring e(1) nx c
    by (auto simp: count_reject_def now Let_def rejectBanThreshold_def ring_holds_def)
  have last: "?r ! (Suc ?n mod 10) = (hs @ [now]) ! (Suc ?n - 10)" if "10 \<le> Suc ?n"
    using ring[of "Suc ?n - 10"] that by (simp add: mod_if[of "Suc ?n"])
  show "fst (count_reject proxy t e) =
      (if 10 \<le> Suc (length hs) \<and> now - (hs @ [now]) ! (Suc (length hs) - 10) \<le> rejectBanWindow
       then Some (now + rejectBanDuration) else None)"
    using last nx c by (auto simp: count_reject_def now Let_def rejectBanThreshold_def)
qed

lemma rejections_hold: "ring_holds (clamped 0 ts) (rejections proxy ts)"
proof (induction ts rule: rev_induct)
  case Nil
  show ?case by (simp add: rejections_def ring_holds_zero)
next
  case (snoc t ts)
  show ?case using ring_holds_step(1)[OF snoc, of t proxy] by (simp add: rejections_def clamped_append)
qed

section \<open>Facts about the parker\<close>

declare evict_loop.simps [simp del]

lemma evict_loop_split:
  "\<exists>k. evict_loop ev q = (ev @ map release (take k q), drop k q) \<and> length (drop k q) < maxParkedDrops"
proof (induction ev q rule: evict_loop.induct)
  case (1 ev q)
  show ?case
  proof (cases "length q \<ge> maxParkedDrops")
    case True
    then obtain x xs where q: "q = x # xs" by (cases q) (auto simp: maxParkedDrops_def)
    obtain k where "evict_loop (ev @ [release x]) xs = (ev @ [release x] @ map release (take k xs), drop k xs)"
      "length (drop k xs) < maxParkedDrops" using 1[OF True] q by auto
    thus ?thesis using True q by (intro exI[of _ "Suc k"]) (simp add: evict_loop.simps[of ev "x # xs"])
  next
    case False
    thus ?thesis by (intro exI[of _ 0]) (simp add: evict_loop.simps[of ev q])
  qed
qed

lemma numbered_unique:
  assumes "numbered s d" "numbered s d'" "seqn d = seqn d'" "calls s < 2 ^ 64"
  shows "release d = release d'"
proof -
  have u: "unat (of_nat (Suc (release x)) :: 64 word) = Suc (release x)" if "numbered s x" for x
  proof -
    have "Suc (release x) \<le> calls s" using that by (simp add: numbered_def)
    hence "Suc (release x) < 2 ^ 64" using assms(4) by (rule le_less_trans)
    thus ?thesis by (simp only: unsigned_of_nat take_bit_nat_eq_self of_nat_id len_num1 len_bit0 len_bit1 mult_2 one_add_one)
      (simp add: take_bit_nat_eq_self del: of_nat_Suc)
  qed
  have "(of_nat (Suc (release d)) :: 64 word) = of_nat (Suc (release d'))"
    using assms(1-3) unfolding numbered_def by metis
  hence "unat (of_nat (Suc (release d)) :: 64 word) = unat (of_nat (Suc (release d')) :: 64 word)" by (rule arg_cong)
  thus ?thesis unfolding u[OF assms(1)] u[OF assms(2)] by (rule Suc_inject)
qed

lemma parking_ok_init: "parking_ok parking_init"
  by (simp add: parking_ok_def parking_init_def pending_def)

lemma parking_ok_park:
  assumes "parking_ok s" "Park now ttl (calls s) (parker s) = ((evicted, start), p)"
  shows "parking_ok (s\<lparr>parker := p, runner := (if start then AtTop else runner s), calls := Suc (calls s),
    evicting := evicting s @ [evicted]\<rparr>)"
proof -
  obtain k where k: "evict_loop [] (queue (parker s)) = (map release (take k (queue (parker s))), drop k (queue (parker s)))"
    "length (drop k (queue (parker s))) < maxParkedDrops"
    using evict_loop_split[of "[]" "queue (parker s)"] by auto
  let ?q = "queue (parker s)"
  have p: "evicted = map release (take k ?q)" "start = (\<not> running (parker s))"
    "p = (parker s)\<lparr>nextSeq := nextSeq (parker s) + 1,
           queue := drop k ?q @ [\<lparr>seqn = nextSeq (parker s) + 1, deadline = now + ttl, release = calls s\<rparr>], running := True\<rparr>"
    using assms(2) by (auto simp: Park_def k)
  have ok: "parking_ok s" by (rule assms(1))
  have q: "map release ?q = map release (take k ?q) @ map release (drop k ?q)" by (metis append_take_drop_id map_append)
  have d: "set (drop k ?q) \<subseteq> set ?q" by (rule set_drop_subset)
  have run: "start \<longleftrightarrow> runner s = Stopped" using ok p(2) by (simp add: parking_ok_def)
  have acc: "distinct (called s @ pending s)" "set (called s @ pending s) = {..<calls s}" using ok by (simp_all add: parking_ok_def)
  let ?s = "s\<lparr>parker := p, runner := (if start then AtTop else runner s), calls := Suc (calls s),
    evicting := evicting s @ [evicted]\<rparr>"
  let ?rp = "case runner s of Releasing d \<Rightarrow> [release d] | _ \<Rightarrow> []"
  have pend: "pending ?s = ?rp @ map release (drop k ?q) @ [calls s] @ concat (evicting s) @ evicted"
    using run by (auto simp: pending_def p(3))
  have m: "mset (called ?s @ pending ?s) = mset ((called s @ pending s) @ [calls s])"
    unfolding pend using q by (simp add: pending_def p(1))
  have dist: "distinct (called ?s @ pending ?s)"
    using mset_eq_imp_distinct_iff[OF m] acc by auto
  have sets: "set (called ?s @ pending ?s) = {..<Suc (calls s)}"
    using mset_eq_setD[OF m] acc(2) by (simp add: lessThan_Suc insert_commute Un_commute)
  have up: "numbered ?s y" if "numbered s y" for y using that by (simp add: numbered_def)
  have old: "numbered s y" if "y \<in> set ?q \<union> runner_drop (runner s)" for y using ok that by (simp add: parking_ok_def)
  have seq: "nextSeq (parker s) = of_nat (calls s)" using ok by (simp add: parking_ok_def)
  have drops: "\<forall>x\<in>set (queue (parker ?s)) \<union> runner_drop (runner ?s). numbered ?s x"
  proof
    fix x assume "x \<in> set (queue (parker ?s)) \<union> runner_drop (runner ?s)"
    hence "x \<in> set ?q \<union> runner_drop (runner s) \<or> x = \<lparr>seqn = nextSeq (parker s) + 1, deadline = now + ttl, release = calls s\<rparr>"
      using d by (auto simp: p(3) split: if_splits)
    thus "numbered ?s x"
    proof
      assume "x \<in> set ?q \<union> runner_drop (runner s)"
      thus ?thesis by (rule up[OF old])
    qed (simp add: numbered_def seq)
  qed
  show ?thesis unfolding parking_ok_def
  proof (intro conjI)
    show "length (queue (parker ?s)) \<le> maxParkedDrops" using k(2) by (simp add: p(3))
    show "nextSeq (parker ?s) = of_nat (calls ?s)" using seq by (simp add: p(3))
    show "running (parker ?s) \<longleftrightarrow> runner ?s \<noteq> Stopped" "runner ?s = Stopped \<longrightarrow> queue (parker ?s) = []"
      using run by (simp_all add: p(3))
    show "set (called ?s @ pending ?s) = {..<calls ?s}" using sets by simp
    show "\<forall>x\<in>set (queue (parker ?s)) \<union> runner_drop (runner ?s). numbered ?s x" by (rule drops)
    show "distinct (called ?s @ pending ?s)" by (rule dist)
  qed
qed

lemma numbered_cong: "calls s' = calls s \<Longrightarrow> numbered s' d = numbered s d"
  by (simp add: numbered_def)

lemma parking_ok_top:
  assumes "parking_ok s" "runner s = AtTop" "run_top (parker s) = (r, p)"
  shows "parking_ok (s\<lparr>parker := p, runner := r\<rparr>)"
proof (cases "queue (parker s)")
  case Nil
  hence "r = Stopped" "p = (parker s)\<lparr>running := False, queue := []\<rparr>" using assms(3) by (auto simp: run_top_def)
  thus ?thesis using assms(1,2) Nil by (simp add: parking_ok_def pending_def)
next
  case (Cons d q)
  hence "r = Asleep d" "p = parker s" using assms(3) by (auto simp: run_top_def)
  thus ?thesis using assms(1,2) Cons by (simp add: parking_ok_def pending_def numbered_def)
qed

lemma parking_ok_wake:
  assumes "parking_ok s" "runner s = Asleep d" "run_wake d (parker s) = (r, p)" "calls s < 2 ^ 64"
  shows "parking_ok (s\<lparr>parker := p, runner := r\<rparr>)"
proof (cases "queue (parker s) \<noteq> [] \<and> seqn (hd (queue (parker s))) = seqn d")
  case True
  then obtain x q where q: "queue (parker s) = x # q" "seqn x = seqn d" by (cases "queue (parker s)") auto
  hence rp: "r = Releasing d" "p = (parker s)\<lparr>queue := q\<rparr>" using assms(3) by (auto simp: run_wake_def)
  have "numbered s x" "numbered s d" using assms(1,2) q(1) by (simp_all add: parking_ok_def)
  hence x: "release x = release d" using numbered_unique q(2) assms(4) by blast
  have pend: "pending (s\<lparr>parker := p, runner := r\<rparr>) = pending s" using assms(2) q(1) x rp by (simp add: pending_def)
  have run: "running (parker s)" using assms(1,2) by (simp add: parking_ok_def)
  show ?thesis
    using assms(1) pend q(1) rp run assms(2) by (simp add: parking_ok_def numbered_def)
next
  case False
  hence "r = AtTop" "p = parker s" using assms(3) by (auto simp: run_wake_def)
  thus ?thesis using assms(1,2) by (simp add: parking_ok_def pending_def numbered_def)
qed

lemma parking_ok_release:
  assumes "parking_ok s" "runner s = Releasing d"
  shows "parking_ok (s\<lparr>runner := AtTop, called := called s @ [release d]\<rparr>)"
  using assms by (simp add: parking_ok_def pending_def numbered_def)

lemma parking_ok_evict:
  assumes "parking_ok s" "evicting s = before @ (rel # rest) # after"
  shows "parking_ok (s\<lparr>evicting := before @ rest # after, called := called s @ [rel]\<rparr>)"
proof -
  let ?s = "s\<lparr>evicting := before @ rest # after, called := called s @ [rel]\<rparr>"
  have m: "mset (called ?s @ pending ?s) = mset (called s @ pending s)"
    using assms(2) by (simp add: pending_def)
  have "distinct (called ?s @ pending ?s)" "set (called ?s @ pending ?s) = {..<calls s}"
    using mset_eq_imp_distinct_iff[OF m] mset_eq_setD[OF m] assms(1) by (simp_all add: parking_ok_def)
  thus ?thesis using assms(1) by (simp add: parking_ok_def numbered_def)
qed

lemma parking_ok_step:
  assumes "parking_step s s'" "parking_ok s" "calls s < 2 ^ 64"
  shows "parking_ok s'"
  using assms(1)
proof cases
  case step_park
  thus ?thesis using parking_ok_park[OF assms(2)] by simp
next
  case step_evict
  thus ?thesis using parking_ok_evict[OF assms(2)] by simp
next
  case step_top
  thus ?thesis using parking_ok_top[OF assms(2)] by simp
next
  case step_wake
  thus ?thesis using parking_ok_wake[OF assms(2) _ _ assms(3)] by simp
next
  case step_release
  thus ?thesis using parking_ok_release[OF assms(2)] by simp
qed

lemma calls_grow: "parking_step s s' \<Longrightarrow> calls s \<le> calls s'"
  by (induction rule: parking_step.induct) auto

lemma parking_ok_reachable:
  "parking_step\<^sup>*\<^sup>* parking_init s \<Longrightarrow> calls s < 2 ^ 64 \<Longrightarrow> parking_ok s"
proof (induction rule: rtranclp_induct)
  case base
  show ?case by (rule parking_ok_init)
next
  case (step s s')
  have "calls s < 2 ^ 64" using calls_grow[OF step.hyps(2)] step.prems by (rule le_less_trans)
  thus ?case using parking_ok_step[OF step.hyps(2) step.IH] by blast
qed

text \<open>Without further calls of \<open>Park\<close>.\<close>

lemma drain_step_works: "drain_step s s' \<Longrightarrow> parking_work s' < parking_work s"
  unfolding drain_step_def
proof (erule conjE, erule parking_step.cases, goal_cases)
  case (3 s r p)
  thus ?case by (auto simp: run_top_def parking_work_def split: if_splits)
next
  case (4 s d r p)
  thus ?case by (cases "queue (parker s)") (auto simp: run_wake_def parking_work_def split: if_splits)
qed (auto simp: parking_work_def split: runner.split)

lemma stuck_is_drained:
  assumes "parking_ok s" "\<nexists>s'. drain_step s s'"
  shows "runner s = Stopped" "pending s = []"
proof -
  show stopped: "runner s = Stopped"
  proof (cases "runner s")
    case AtTop
    obtain r p where "run_top (parker s) = (r, p)" by force
    thus ?thesis using step_top[OF AtTop] assms(2) by (fastforce simp: drain_step_def)
  next
    case (Asleep d)
    obtain r p where "run_wake d (parker s) = (r, p)" by force
    thus ?thesis using step_wake[OF Asleep] assms(2) by (fastforce simp: drain_step_def)
  next
    case (Releasing d)
    thus ?thesis using step_release[OF Releasing] assms(2) by (fastforce simp: drain_step_def)
  qed
  have "concat (evicting s) = []"
  proof (rule ccontr)
    assume "concat (evicting s) \<noteq> []"
    then obtain x where "x \<in> set (evicting s)" "x \<noteq> []" by (metis concat_eq_Nil_conv)
    then obtain before rel rest after where "evicting s = before @ (rel # rest) # after"
      by (metis list.exhaust split_list)
    thus False using step_evict assms(2) by (fastforce simp: drain_step_def)
  qed
  thus "pending s = []" using assms(1) stopped by (simp add: pending_def parking_ok_def)
qed

section \<open>Properties\<close>

text \<open>
  C15. The ring buffer of an entry is a sliding window: after the rejections at the times \<open>ts\<close>, the
  one at \<open>now\<close> starts a ban exactly when there have been ten and the last ten lie within ten
  seconds, and the ban ends a minute after the last of them.  Times that go back count as the
  latest time seen.
\<close>

theorem reject_window:
  "fst (count_reject proxy now (rejections proxy ts)) =
     (let hs = clamped 0 (ts @ [now]) in
      if 10 \<le> length hs \<and> last hs - hs ! (length hs - 10) \<le> rejectBanWindow
      then Some (last hs + rejectBanDuration) else None)"
proof -
  have "max (last (0 # clamped 0 ts)) now = last (clamped 0 (ts @ [now]))" by (simp add: clamped_append)
  thus ?thesis
    using ring_holds_step(2)[OF rejections_hold, of proxy now proxy ts]
    by (simp only: clamped_append Let_def length_append clamped_length last_snoc) simp
qed

text \<open>
  C10. In every interleaving of callers and goroutine, the parker holds at most \<open>maxParkedDrops\<close>
  connections, a goroutine runs exactly when \<open>running\<close> is set, and every release function handed to
  \<open>Park\<close> has been called once or still waits for its call, never both and never twice, as long as
  the sequence number has not wrapped around.
\<close>

theorem parked_released_once:
  assumes "parking_step\<^sup>*\<^sup>* parking_init s" "calls s < 2 ^ 64"
  shows "length (queue (parker s)) \<le> maxParkedDrops \<and> (running (parker s) \<longleftrightarrow> runner s \<noteq> Stopped) \<and>
    distinct (called s @ pending s) \<and> set (called s @ pending s) = {..<calls s}"
  using parking_ok_reachable[OF assms] by (simp only: parking_ok_def)

theorem parked_released_once_witness:
  "\<exists>s. parking_step\<^sup>*\<^sup>* parking_init s \<and> calls s = 1 \<and> called s @ pending s = [0] \<and> running (parker s)"
proof -
  obtain evicted start p where P: "Park 5 30 (calls parking_init) (parker parking_init) = ((evicted, start), p)"
    by (metis prod.exhaust)
  let ?s = "parking_init\<lparr>parker := p, runner := (if start then AtTop else runner parking_init),
    calls := Suc (calls parking_init), evicting := evicting parking_init @ [evicted]\<rparr>"
  have r: "parking_step\<^sup>*\<^sup>* parking_init ?s" using step_park[OF P] by blast
  have c: "calls ?s = 1" by (simp add: parking_init_def)
  have st: "start" using P by (auto simp: Park_def parking_init_def split: prod.splits)
  have "set (called ?s @ pending ?s) = {0}" "distinct (called ?s @ pending ?s)" "running (parker ?s)"
    using parked_released_once[OF r] c st by auto
  moreover have "\<And>xs. distinct xs \<Longrightarrow> set xs = {0::nat} \<Longrightarrow> xs = [0]"
    by (metis distinct_card card_1_singleton_iff is_singleton_def is_singleton_altdef length_0_conv length_Suc_conv
      One_nat_def list.set(2) list.set(1) singleton_insert_inj_eq)
  ultimately show ?thesis using r c by blast
qed

text \<open>
  C16. No connection stays parked for good.  In every state that callers and goroutine can bring
  about, each step of the goroutine or of a caller that calls its evicted functions makes the work
  left smaller, so without further calls of \<open>Park\<close> the steps come to an end; and where none is left,
  the goroutine has stopped, the queue is empty and every release function has been called once.
\<close>

theorem parked_all_released:
  assumes "parking_step\<^sup>*\<^sup>* parking_init s" "calls s < 2 ^ 64"
  shows "(\<forall>s'. drain_step s s' \<longrightarrow> parking_work s' < parking_work s) \<and>
    ((\<nexists>s'. drain_step s s') \<longrightarrow>
       runner s = Stopped \<and> queue (parker s) = [] \<and> distinct (called s) \<and> set (called s) = {..<calls s})"
  using parking_ok_reachable[OF assms] stuck_is_drained[OF parking_ok_reachable[OF assms]] drain_step_works
  by (auto simp: parking_ok_def)

theorem parked_all_released_witness:
  "\<exists>s s'. parking_step\<^sup>*\<^sup>* parking_init s \<and> calls s = 1 \<and> drain_step s s' \<and> parking_work s' < parking_work s"
proof -
  obtain evicted start p where P: "Park 5 30 (calls parking_init) (parker parking_init) = ((evicted, start), p)"
    by (metis prod.exhaust)
  let ?s = "parking_init\<lparr>parker := p, runner := (if start then AtTop else runner parking_init),
    calls := Suc (calls parking_init), evicting := evicting parking_init @ [evicted]\<rparr>"
  have r: "parking_step\<^sup>*\<^sup>* parking_init ?s" using step_park[OF P] by blast
  have c: "calls ?s = 1" by (simp add: parking_init_def)
  have start: "start" using P by (auto simp: Park_def parking_init_def split: prod.splits)
  obtain r' p' where t: "run_top (parker ?s) = (r', p')" by force
  have "drain_step ?s (?s\<lparr>parker := p', runner := r'\<rparr>)"
    using step_top[OF _ t] start by (simp add: drain_step_def)
  thus ?thesis using parked_all_released[OF r] r c by auto
qed

end
