(* ===== verification/Bans.thy ===== *)
theory Bans
  imports Reject_Proofs Lru_Proofs
begin

text \<open>
  The cache of bans together with the LRU cache that holds its entries.  \<open>ban_store\<close> is what the
  bans need of that cache, the model of the LRU cache provides it, and sequences of calls show what
  a ban is worth: it is earned by ten rejections within the window, and it lasts a minute.
\<close>

section \<open>The bans on the LRU cache\<close>

text \<open>
  The LRU cache has a size limit and no maximal age.  A call on it that does not return, which never
  happens, is shown as a call without effect.
\<close>

definition ban_lru ::
  "('l, 'h) list_ops \<Rightarrow> (nat \<Rightarrow> int) \<Rightarrow> (rejectBanKey, nat, 'l, 'h, unit) lru_state ban_ops" where
  "ban_lru L clk = \<lparr>
     b_Get = (\<lambda>k st. case Get_lru L clk k st of Some r \<Rightarrow> r | None \<Rightarrow> (None, st)),
     b_Set = (\<lambda>k a st. case Set_lru L clk k a st of Some st' \<Rightarrow> st' | None \<Rightarrow> st),
     b_Delete = Delete_lru L,
     b_Clear = (\<lambda>st. (Clear_lru L (fst st), snd st))\<rparr>"

definition no_bans :: "('l, 'h) list_ops \<Rightarrow> (rejectBanKey, nat, 'l, 'h, unit) lru_state rejectBanCache" where
  "no_bans L = newRejectBanCache (New_lru L [WithSize maxRejectBanKeys], \<lparr>entries = [], env = ()\<rparr>)"

datatype ban_call =
    CLookup rejectBanKey int
  | CReject rejectBanKey "64 word" nat int
  | CForget rejectBanKey "64 word"
  | CReset

fun ban_step :: "'c ban_ops \<Rightarrow> ban_call \<Rightarrow> 'c rejectBanCache \<Rightarrow> 'c rejectBanCache" where
  "ban_step B (CLookup k now) c = snd (Lookup B k now c)"
| "ban_step B (CReject k gen proxy now) c = snd (Reject B k gen proxy now c)"
| "ban_step B (CForget k gen) c = Forget B k gen c"
| "ban_step B CReset c = Reset B c"

definition ban_run :: "'c ban_ops \<Rightarrow> ban_call list \<Rightarrow> 'c rejectBanCache \<Rightarrow> 'c rejectBanCache" where
  "ban_run B ops c = fold (ban_step B) ops c"

section \<open>What the calls mean\<close>

text \<open>The entry of each key, as if the cache had no size limit.\<close>

definition lapsed :: "int \<Rightarrow> rejectBanEntry \<Rightarrow> bool" where
  "lapsed now e = (if banUntil e \<noteq> 0 then banUntil e \<le> now else now - lastReject e > rejectBanWindow)"

definition active :: "int \<Rightarrow> rejectBanEntry \<Rightarrow> bool" where
  "active now e = (banUntil e \<noteq> 0 \<and> now < banUntil e)"

definition reject_entry :: "nat \<Rightarrow> int \<Rightarrow> rejectBanEntry option \<Rightarrow> rejectBanEntry" where
  "reject_entry proxy now eo =
     (case eo of
        None \<Rightarrow> snd (count_reject proxy now zero_entry)
      | Some e \<Rightarrow> if active now e then e
                  else snd (count_reject proxy now (if lapsed now e then zero_entry else e)))"

fun spec_step :: "ban_call \<Rightarrow> 64 word \<times> (rejectBanKey \<Rightarrow> rejectBanEntry option)
    \<Rightarrow> 64 word \<times> (rejectBanKey \<Rightarrow> rejectBanEntry option)" where
  "spec_step (CLookup k now) (g, m) =
     (g, case m k of Some e \<Rightarrow> if lapsed now e then m(k := None) else m | None \<Rightarrow> m)"
| "spec_step (CReject k gen proxy now) (g, m) =
     (g, if gen = g then m(k \<mapsto> reject_entry proxy now (m k)) else m)"
| "spec_step (CForget k gen) (g, m) = (g, if gen = g then m(k := None) else m)"
| "spec_step CReset (g, m) = (g + 1, \<lambda>_. None)"

definition answer_of :: "int \<Rightarrow> rejectBanEntry option \<Rightarrow> nat option" where
  "answer_of now eo = (case eo of Some e \<Rightarrow> if active now e then bproxy e else None | None \<Rightarrow> None)"

text \<open>
  The rejections of a key that may count: those in the current generation, with their proxies, since
  the key was forgotten or the cache was reset.
\<close>

fun count_call :: "rejectBanKey \<Rightarrow> ban_call \<Rightarrow> 64 word \<times> (int \<times> nat) list \<Rightarrow> 64 word \<times> (int \<times> nat) list" where
  "count_call k (CLookup k' now) (g, h) = (g, h)"
| "count_call k (CReject k' gen proxy now) (g, h) = (g, if k' = k \<and> gen = g then h @ [(now, proxy)] else h)"
| "count_call k (CForget k' gen) (g, h) = (g, if k' = k \<and> gen = g then [] else h)"
| "count_call k CReset (g, h) = (g + 1, [])"

definition counted :: "rejectBanKey \<Rightarrow> ban_call list \<Rightarrow> (int \<times> nat) list" where
  "counted k ops = snd (fold (count_call k) ops (0, []))"

text \<open>Ten rejections within the window, the last of them for \<open>proxy\<close>, give a ban until \<open>until\<close>.\<close>

definition earned :: "(int \<times> nat) list \<Rightarrow> nat \<Rightarrow> int \<Rightarrow> bool" where
  "earned ts proxy until \<longleftrightarrow>
     (let hs = clamped 0 (map fst ts) in
      10 \<le> length hs \<and> last hs - hs ! (length hs - 10) \<le> rejectBanWindow \<and>
      until = last hs + rejectBanDuration \<and> proxy = snd (last ts))"

definition entry_from :: "(int \<times> nat) list \<Rightarrow> rejectBanEntry \<Rightarrow> bool" where
  "entry_from h e \<longleftrightarrow> (\<exists>pre ts post. h = pre @ ts @ post \<and> ring_holds (clamped 0 (map fst ts)) e \<and>
     (if banUntil e = 0 then post = [] else \<exists>proxy. bproxy e = Some proxy \<and> earned ts proxy (banUntil e)))"

fun call_keys :: "ban_call \<Rightarrow> rejectBanKey set" where
  "call_keys (CLookup k now) = {k}"
| "call_keys (CReject k gen proxy now) = {k}"
| "call_keys (CForget k gen) = {k}"
| "call_keys CReset = {}"

text \<open>The calls that leave a ban of \<open>k\<close> until \<open>until\<close> alone.\<close>

fun leaves :: "rejectBanKey \<Rightarrow> int \<Rightarrow> ban_call \<Rightarrow> bool" where
  "leaves k until (CLookup k' now) = (k' = k \<longrightarrow> now < until)"
| "leaves k until (CReject k' gen proxy now) = (k' = k \<longrightarrow> now < until)"
| "leaves k until (CForget k' gen) = (k' \<noteq> k)"
| "leaves k until CReset = False"

text \<open>A key, for examples.\<close>

definition sample_key :: rejectBanKey where
  "sample_key = \<lparr>k_source = IPv4 1, k_destination = NoAddr, k_host = ''x'', k_port = 443, k_inboundType = SOCKS5,
     k_inboundIP = NoAddr, k_inboundPort = 0, k_inboundName = [], k_inboundUser = [], k_specialProxy = [],
     k_specialRules = [], k_dscp = 0\<rparr>"

text \<open>The entries by key, and that no two keys share one.\<close>

definition ban_status ::
  "('c \<Rightarrow> rejectBanKey \<Rightarrow> nat option) \<Rightarrow> 'c rejectBanCache \<Rightarrow> rejectBanKey \<Rightarrow> rejectBanEntry option" where
  "ban_status content c k = map_option (\<lambda>a. rb_heap c ! a) (content (rb_entries c) k)"

definition bans_ok :: "('c \<Rightarrow> bool) \<Rightarrow> ('c \<Rightarrow> rejectBanKey \<Rightarrow> nat option) \<Rightarrow> 'c rejectBanCache \<Rightarrow> bool" where
  "bans_ok ok content c \<longleftrightarrow> ok (rb_entries c) \<and>
     (\<forall>k a. content (rb_entries c) k = Some a \<longrightarrow> a < length (rb_heap c)) \<and>
     (\<forall>k k' a. content (rb_entries c) k = Some a \<longrightarrow> content (rb_entries c) k' = Some a \<longrightarrow> k = k')"

text \<open>The addresses that the LRU cache holds.\<close>

definition lru_content :: "('l \<Rightarrow> ('h \<times> nat) list) \<Rightarrow> ('k, 'v, 'l, 'h, 's) lru_state \<Rightarrow> 'k \<Rightarrow> 'v option" where
  "lru_content seq st k = map_option fst (map_of (a_items (abs_lru seq st)) k)"

definition lru_store ::
  "('l \<Rightarrow> bool) \<Rightarrow> ('l \<Rightarrow> ('h \<times> nat) list) \<Rightarrow> ('k, 'v, 'l, 'h, 's) lru_state \<Rightarrow> bool" where
  "lru_store lok seq st \<longleftrightarrow> (let A = abs_lru seq st in
     lru_rep lok seq st A \<and> a_bounded A \<and> a_maxAge A = 0 \<and> a_maxSize A = maxRejectBanKeys)"

section \<open>Facts about the meaning\<close>

lemma clamped_nonneg: "0 \<le> l \<Longrightarrow> x \<in> set (clamped l ts) \<Longrightarrow> 0 \<le> x"
proof (induction ts arbitrary: l)
  case (Cons t ts)
  thus ?case using Cons.IH[of "max l t"] by (auto simp: le_max_iff_disj)
qed simp

lemma entry_from_last: "entry_from h e \<Longrightarrow> 0 \<le> lastReject e"
  unfolding entry_from_def ring_holds_def using clamped_nonneg[of 0] by (metis last_in_set order_refl)

lemma entry_from_zero: "entry_from h zero_entry"
proof -
  have "h = h @ [] @ []" "ring_holds (clamped 0 (map fst [])) zero_entry" "banUntil zero_entry = 0"
    by (simp_all add: ring_holds_zero) (simp add: zero_entry_def)
  thus ?thesis unfolding entry_from_def by metis
qed

lemma entry_from_banned: "entry_from h e \<Longrightarrow> banUntil e \<noteq> 0 \<Longrightarrow> entry_from (h @ [x]) e"
  unfolding entry_from_def by (metis append.assoc)

lemma entry_from_count:
  assumes "entry_from h e" "banUntil e = 0"
  shows "entry_from (h @ [(now, proxy)]) (snd (count_reject proxy now e))"
proof -
  obtain pre ts where h: "h = pre @ ts" and ring: "ring_holds (clamped 0 (map fst ts)) e"
    using assms by (auto simp: entry_from_def)
  let ?ts = "ts @ [(now, proxy)]" and ?e = "snd (count_reject proxy now e)"
  note step = ring_holds_step[OF ring, where t = now and proxy = proxy]
  have hs: "clamped 0 (map fst ?ts) = clamped 0 (map fst ts) @ [max (last (0 # clamped 0 (map fst ts))) now]"
    by (simp add: clamped_append)
  have ring': "ring_holds (clamped 0 (map fst ?ts)) ?e" using step(1) by (simp only: hs)
  have none: "fst (count_reject proxy now e) = None \<Longrightarrow> banUntil ?e = 0"
    and some: "fst (count_reject proxy now e) = Some u \<Longrightarrow> banUntil ?e = u \<and> bproxy ?e = Some proxy" for u
    using assms(2) by (auto simp: count_reject_def Let_def split: if_splits)
  have "earned ?ts proxy u" if "fst (count_reject proxy now e) = Some u" for u
    using step(2) that by (simp add: earned_def clamped_append Let_def split: if_splits)
  hence "if banUntil ?e = 0 then [] = [] else \<exists>proxy. bproxy ?e = Some proxy \<and> earned ?ts proxy (banUntil ?e)"
    using some by (cases "fst (count_reject proxy now e)") (use none in auto)
  moreover have "h @ [(now, proxy)] = pre @ ?ts @ []" by (simp add: h)
  ultimately show ?thesis unfolding entry_from_def using ring' by metis
qed

lemma spec_entry_from:
  assumes "\<And>e. m k = Some e \<Longrightarrow> entry_from h e" and "snd (spec_step call (g, m)) k = Some e"
  shows "entry_from (snd (count_call k call (g, h))) e"
proof (cases call)
  case (CReject k' gen proxy now)
  have "entry_from (h @ [(now, proxy)]) (reject_entry proxy now (m k))"
  proof (cases "m k")
    case None
    thus ?thesis using entry_from_count[OF entry_from_zero] by (simp add: reject_entry_def zero_entry_def)
  next
    case (Some e0)
    note e0 = assms(1)[OF Some]
    consider "banUntil e0 = 0" "\<not> lapsed now e0" | "active now e0" | "\<not> active now e0" "lapsed now e0"
      by (cases "banUntil e0 = 0"; cases "lapsed now e0") (auto simp: active_def lapsed_def)
    thus ?thesis
    proof cases
      case 1
      thus ?thesis using Some entry_from_count[OF e0] by (simp add: reject_entry_def active_def)
    next
      case 2
      thus ?thesis using Some entry_from_banned[OF e0] by (simp add: reject_entry_def active_def)
    next
      case 3
      thus ?thesis using Some entry_from_count[OF entry_from_zero] by (simp add: reject_entry_def zero_entry_def)
    qed
  qed
  thus ?thesis using assms CReject by (auto split: if_splits)
qed (use assms in \<open>auto split: if_splits option.splits\<close>)

lemma spec_leaves:
  assumes "\<forall>call\<in>set ops. leaves k until call" "m k = Some e" "banUntil e = until" "until \<noteq> 0"
  shows "snd (fold spec_step ops (g, m)) k = Some e"
  using assms(1,2)
proof (induction ops arbitrary: g m)
  case (Cons call ops)
  obtain g' m' where s: "spec_step call (g, m) = (g', m')" by force
  have "m' k = Some e" using Cons.prems s assms(3,4)
    by (cases call) (auto simp: lapsed_def active_def reject_entry_def split: if_splits option.splits)
  thus ?case using Cons.IH[of m' g'] Cons.prems(1) s by simp
qed simp

section \<open>The interface\<close>

text \<open>
  A store of addresses by key.  Setting a key may drop other keys, but only when the store is full.
\<close>

locale ban_store =
  fixes B :: "'c ban_ops" and ok :: "'c \<Rightarrow> bool" and content :: "'c \<Rightarrow> rejectBanKey \<Rightarrow> nat option"
  assumes get_content: "ok s \<Longrightarrow> b_Get B k s = (r, s') \<Longrightarrow> r = content s k \<and> ok s' \<and> content s' = content s"
    and set_content: "ok s \<Longrightarrow> ok (b_Set B k a s) \<and> content (b_Set B k a s) k = Some a \<and>
      content (b_Set B k a s) \<subseteq>\<^sub>m (content s)(k \<mapsto> a)"
    and set_room: "ok s \<Longrightarrow> k \<in> dom (content s) \<or> int (card (dom (content s))) < maxRejectBanKeys \<Longrightarrow>
      content (b_Set B k a s) = (content s)(k \<mapsto> a)"
    and delete_content: "ok s \<Longrightarrow> ok (b_Delete B k s) \<and> content (b_Delete B k s) = (content s)(k := None)"
    and clear_content: "ok s \<Longrightarrow> ok (b_Clear B s) \<and> content (b_Clear B s) = (\<lambda>_. None)"
begin

lemma lookup_answer:
  assumes "bans_ok ok content c"
  shows "fst (Lookup B k now c) = (answer_of now (ban_status content c k), generation c)"
proof -
  obtain r es where g: "b_Get B k (rb_entries c) = (r, es)" by force
  have "r = content (rb_entries c) k" using get_content[OF _ g] assms by (simp add: bans_ok_def)
  thus ?thesis by (simp add: Lookup_def g ban_status_def answer_of_def active_def Let_def split: option.splits)
qed

lemma status_delete:
  assumes "bans_ok ok content c" "ok es" "content es = content (rb_entries c)"
  shows "bans_ok ok content (c\<lparr>rb_entries := b_Delete B k es\<rparr>)"
    and "ban_status content (c\<lparr>rb_entries := b_Delete B k es\<rparr>) = (ban_status content c)(k := None)"
  using delete_content[OF assms(2), of k] assms by (auto simp: bans_ok_def ban_status_def)

lemma bans_okD:
  assumes "bans_ok ok content c"
  shows "ok (rb_entries c)" "content (rb_entries c) k = Some a \<Longrightarrow> a < length (rb_heap c)"
    and "content (rb_entries c) k = Some a \<Longrightarrow> content (rb_entries c) k' = Some a \<Longrightarrow> k' = k"
  using assms unfolding bans_ok_def by (blast, blast, blast)

lemma status_same:
  assumes "bans_ok ok content c" "ok es" "content es = content (rb_entries c)"
  shows "bans_ok ok content (c\<lparr>rb_entries := es\<rparr>)" "ban_status content (c\<lparr>rb_entries := es\<rparr>) = ban_status content c"
  using assms by (auto simp: bans_ok_def ban_status_def)

lemma status_fresh:
  fixes k e
  assumes c: "bans_ok ok content c" and es: "ok es" "content es = content (rb_entries c)"
  defines "c' \<equiv> c\<lparr>rb_entries := b_Set B k (length (rb_heap c)) es, rb_heap := rb_heap c @ [e]\<rparr>"
  shows "bans_ok ok content c'" and "ban_status content c' \<subseteq>\<^sub>m (ban_status content c)(k \<mapsto> e)"
    and "ban_status content c' k = Some e"
    and "k \<in> dom (ban_status content c) \<or> int (card (dom (ban_status content c))) < maxRejectBanKeys \<Longrightarrow>
      ban_status content c' = (ban_status content c)(k \<mapsto> e)"
proof -
  let ?n = "length (rb_heap c)" and ?m = "content (rb_entries c)" and ?m' = "content (b_Set B k (length (rb_heap c)) es)"
  note st = set_content[OF es(1), of k ?n]
  have sub: "k' = k \<and> a = ?n \<or> k' \<noteq> k \<and> ?m k' = Some a" if "?m' k' = Some a" for k' a
  proof -
    have "(?m(k \<mapsto> ?n)) k' = Some a" using st that es(2) by (metis domI map_le_def)
    thus ?thesis by (simp split: if_splits)
  qed
  have old: "a < ?n" if "?m k' = Some a" for k' a by (rule bans_okD(2)[OF c that])
  have inj: "k' = k''" if "?m k' = Some a" "?m k'' = Some a" for k' k'' a by (rule bans_okD(3)[OF c that(2,1)])
  show "bans_ok ok content c'"
  proof -
    have "a < Suc ?n" if "?m' k' = Some a" for k' a using sub[OF that] old[of k' a] by auto
    moreover have "k' = k''" if "?m' k' = Some a" "?m' k'' = Some a" for k' k'' a
      using sub[OF that(1)] sub[OF that(2)] old[of k' a] old[of k'' a] inj[of k' a k''] by auto
    ultimately show ?thesis using st by (simp add: bans_ok_def c'_def)
  qed
  show "ban_status content c' k = Some e" using st by (simp add: ban_status_def c'_def)
  show "ban_status content c' \<subseteq>\<^sub>m (ban_status content c)(k \<mapsto> e)"
  proof -
    have "ban_status content c' k' = ((ban_status content c)(k \<mapsto> e)) k'" if "?m' k' = Some a" for k' a
      using sub[OF that] old[of k' a] that by (auto simp: ban_status_def c'_def nth_append)
    moreover have "dom (ban_status content c') = dom ?m'" by (auto simp: ban_status_def c'_def dom_def)
    ultimately show ?thesis by (auto simp: map_le_def)
  qed
  show "ban_status content c' = (ban_status content c)(k \<mapsto> e)"
    if room: "k \<in> dom (ban_status content c) \<or> int (card (dom (ban_status content c))) < maxRejectBanKeys"
  proof -
    have "dom (ban_status content c) = dom ?m" by (auto simp: ban_status_def dom_def)
    hence "?m' = ?m(k \<mapsto> ?n)" using set_room[OF es(1), of k ?n] room es(2) by simp
    thus ?thesis using old by (auto simp: ban_status_def c'_def nth_append fun_eq_iff intro!: option.map_cong)
  qed
qed

lemma status_update:
  fixes k e
  assumes c: "bans_ok ok content c" and es: "ok es" "content es = content (rb_entries c)"
    and a: "content (rb_entries c) k = Some a"
  defines "c' \<equiv> c\<lparr>rb_entries := es, rb_heap := (rb_heap c)[a := e]\<rparr>"
  shows "bans_ok ok content c'" and "ban_status content c' = (ban_status content c)(k \<mapsto> e)"
proof -
  have "rb_entries c' = es" "length (rb_heap c') = length (rb_heap c)" by (simp_all add: c'_def)
  thus "bans_ok ok content c'" using c es unfolding bans_ok_def by metis
  have len: "a < length (rb_heap c)" by (rule bans_okD(2)[OF c a])
  have uniq: "k' = k" if "content (rb_entries c) k' = Some a" for k' by (rule bans_okD(3)[OF c a that])
  show "ban_status content c' = (ban_status content c)(k \<mapsto> e)"
  proof
    fix k'
    show "ban_status content c' k' = ((ban_status content c)(k \<mapsto> e)) k'"
    proof (cases "k' = k")
      case True
      thus ?thesis using len a es(2) by (simp add: ban_status_def c'_def)
    next
      case False
      hence "content (rb_entries c) k' \<noteq> Some a" using uniq by blast
      thus ?thesis using False es(2)
        by (cases "content (rb_entries c) k'") (simp_all add: ban_status_def c'_def)
    qed
  qed
qed

lemma lookup_effect:
  assumes c: "bans_ok ok content c"
  shows "bans_ok ok content (snd (Lookup B k now c))"
    and "spec_step (CLookup k now) (generation c, ban_status content c) =
      (generation (snd (Lookup B k now c)), ban_status content (snd (Lookup B k now c)))"
proof -
  obtain r es where g: "b_Get B k (rb_entries c) = (r, es)" by force
  have r: "r = content (rb_entries c) k" "ok es" "content es = content (rb_entries c)"
    using get_content[OF _ g] c by (auto simp: bans_ok_def)
  have same: "c\<lparr>rb_entries := es, rb_entries := x\<rparr> = c\<lparr>rb_entries := x\<rparr>" for x by simp
  note facts = status_same[OF c r(2,3)] status_delete[OF c r(2,3), of k]
  show "bans_ok ok content (snd (Lookup B k now c))"
    using facts by (auto simp: Lookup_def g Let_def split: option.split)
  show "spec_step (CLookup k now) (generation c, ban_status content c) =
      (generation (snd (Lookup B k now c)), ban_status content (snd (Lookup B k now c)))"
  proof (cases r)
    case None
    thus ?thesis using facts r(1) by (simp add: Lookup_def g ban_status_def)
  next
    case (Some a)
    hence "ban_status content c k = Some (rb_heap c ! a)" by (simp add: ban_status_def flip: r(1))
    thus ?thesis using Some facts by (auto simp: Lookup_def g Let_def lapsed_def)
  qed
qed

lemma reject_effect:
  fixes k
  assumes c: "bans_ok ok content c"
  defines "room \<equiv> k \<in> dom (ban_status content c) \<or> int (card (dom (ban_status content c))) < maxRejectBanKeys"
  shows "bans_ok ok content (snd (Reject B k gen proxy now c))"
    and "generation (snd (Reject B k gen proxy now c)) = generation c"
    and "ban_status content (snd (Reject B k gen proxy now c)) \<subseteq>\<^sub>m
      snd (spec_step (CReject k gen proxy now) (generation c, ban_status content c))"
    and "room \<Longrightarrow> ban_status content (snd (Reject B k gen proxy now c)) =
      snd (spec_step (CReject k gen proxy now) (generation c, ban_status content c))"
    and "fst (Reject B k gen proxy now c) = Some until \<Longrightarrow>
      (\<exists>e. ban_status content (snd (Reject B k gen proxy now c)) k = Some e \<and> banUntil e = until \<and> bproxy e = Some proxy \<and>
        until = lastReject e + rejectBanDuration)"
proof -
  obtain r es where g: "b_Get B k (rb_entries c) = (r, es)" by force
  have r: "r = content (rb_entries c) k" "ok es" "content es = content (rb_entries c)"
    using get_content[OF _ g] c by (auto simp: bans_ok_def)
  let ?s = "ban_status content c" and ?R = "Reject B k gen proxy now c"
  have m: "?s k = map_option ((!) (rb_heap c)) r" by (simp add: ban_status_def r(1))
  let ?goal = "bans_ok ok content (snd ?R) \<and> generation (snd ?R) = generation c \<and>
    ban_status content (snd ?R) \<subseteq>\<^sub>m snd (spec_step (CReject k gen proxy now) (generation c, ?s)) \<and>
    (room \<longrightarrow> ban_status content (snd ?R) = snd (spec_step (CReject k gen proxy now) (generation c, ?s))) \<and>
    (fst ?R = Some until \<longrightarrow> (\<exists>e. ban_status content (snd ?R) k = Some e \<and> banUntil e = until \<and> bproxy e = Some proxy \<and>
        until = lastReject e + rejectBanDuration))"
  have starts: "fst (count_reject proxy now e) = Some until \<Longrightarrow>
      banUntil (snd (count_reject proxy now e)) = until \<and> bproxy (snd (count_reject proxy now e)) = Some proxy \<and>
      until = lastReject (snd (count_reject proxy now e)) + rejectBanDuration" for e
    by (auto simp: count_reject_def Let_def split: if_splits)
  consider "gen \<noteq> generation c" | a where "gen = generation c" "r = Some a" "active now (rb_heap c ! a)"
    | "gen = generation c" "r = None \<or> (\<exists>a. r = Some a \<and> \<not> active now (rb_heap c ! a) \<and> lapsed now (rb_heap c ! a))"
    | a where "gen = generation c" "r = Some a" "\<not> active now (rb_heap c ! a)" "\<not> lapsed now (rb_heap c ! a)"
    by (cases r) auto
  hence ?goal
  proof cases
    case 1
    thus ?thesis using c by (simp add: Reject_def Current_def)
  next
    case 2
    have "?R = (None, c\<lparr>rb_entries := es\<rparr>)" using 2 by (simp add: Reject_def Current_def g active_def)
    moreover have "?s(k \<mapsto> reject_entry proxy now (?s k)) = ?s" using m 2 by (auto simp: reject_entry_def)
    ultimately show ?thesis using 2(1) status_same[OF c r(2,3)] by simp
  next
    case 3
    let ?e = "count_reject proxy now zero_entry"
    have R: "?R = (fst ?e, c\<lparr>rb_entries := b_Set B k (length (rb_heap c)) es, rb_heap := rb_heap c @ [snd ?e]\<rparr>)"
      using 3 by (auto simp: Reject_def Current_def g active_def lapsed_def split_beta Let_def split: if_splits)
    have "reject_entry proxy now (?s k) = snd ?e" using m 3(2) by (auto simp: reject_entry_def)
    thus ?thesis using 3(1) status_fresh[OF c r(2,3), where k = k and e = "snd ?e"] starts[of zero_entry] unfolding room_def R by simp
  next
    case 4
    let ?e = "count_reject proxy now (rb_heap c ! a)"
    have R: "?R = (fst ?e, c\<lparr>rb_entries := es, rb_heap := (rb_heap c)[a := snd ?e]\<rparr>)"
      using 4 by (auto simp: Reject_def Current_def g active_def lapsed_def split_beta Let_def split: if_splits)
    have "reject_entry proxy now (?s k) = snd ?e" using m 4 by (auto simp: reject_entry_def)
    moreover have "content (rb_entries c) k = Some a" using r(1) 4(2) by simp
    ultimately show ?thesis using 4(1) status_update[OF c r(2,3), where k = k and a = a and e = "snd ?e"] starts unfolding R by simp
  qed
  thus "bans_ok ok content (snd ?R)" "generation (snd ?R) = generation c"
    "ban_status content (snd ?R) \<subseteq>\<^sub>m snd (spec_step (CReject k gen proxy now) (generation c, ?s))"
    "room \<Longrightarrow> ban_status content (snd ?R) = snd (spec_step (CReject k gen proxy now) (generation c, ?s))"
    "fst ?R = Some until \<Longrightarrow> (\<exists>e. ban_status content (snd ?R) k = Some e \<and> banUntil e = until \<and> bproxy e = Some proxy \<and>
        until = lastReject e + rejectBanDuration)"
    by blast+
qed

lemma step_effect:
  assumes c: "bans_ok ok content c"
  shows "bans_ok ok content (ban_step B call c)"
    and "generation (ban_step B call c) = fst (spec_step call (generation c, ban_status content c))"
    and "ban_status content (ban_step B call c) \<subseteq>\<^sub>m snd (spec_step call (generation c, ban_status content c))"
    and "call_keys call \<subseteq> dom (ban_status content c) \<or> int (card (dom (ban_status content c))) < maxRejectBanKeys \<Longrightarrow>
      ban_status content (ban_step B call c) = snd (spec_step call (generation c, ban_status content c))"
proof -
  let ?c' = "ban_step B call c" and ?s = "spec_step call (generation c, ban_status content c)"
  have "bans_ok ok content ?c' \<and> generation ?c' = fst ?s \<and> ban_status content ?c' \<subseteq>\<^sub>m snd ?s \<and>
    (call_keys call \<subseteq> dom (ban_status content c) \<or> int (card (dom (ban_status content c))) < maxRejectBanKeys \<longrightarrow>
      ban_status content ?c' = snd ?s)"
  proof (cases call)
    case (CLookup k now)
    thus ?thesis using lookup_effect[OF c, of k now] by (simp del: spec_step.simps)
  next
    case (CReject k gen proxy now)
    thus ?thesis using reject_effect[OF c, of k gen proxy now] by simp
  next
    case (CForget k gen)
    thus ?thesis using c status_delete[OF c bans_okD(1)[OF c] refl, of k] by (simp add: Forget_def Current_def)
  next
    case CReset
    thus ?thesis using clear_content[OF bans_okD(1)[OF c]]
      by (simp add: Reset_def bans_ok_def ban_status_def fun_eq_iff map_le_def dom_def)
  qed
  thus "bans_ok ok content ?c'" "generation ?c' = fst ?s" "ban_status content ?c' \<subseteq>\<^sub>m snd ?s"
    "call_keys call \<subseteq> dom (ban_status content c) \<or> int (card (dom (ban_status content c))) < maxRejectBanKeys \<Longrightarrow>
      ban_status content ?c' = snd ?s"
    by blast+
qed

lemma run_earned:
  assumes "bans_ok ok content c" "generation c = 0" "ban_status content c = (\<lambda>_. None)"
  shows "bans_ok ok content (ban_run B ops c) \<and>
    generation (ban_run B ops c) = fst (fold (count_call k) ops (0, [])) \<and>
    (\<forall>e. ban_status content (ban_run B ops c) k = Some e \<longrightarrow> entry_from (counted k ops) e)"
proof (induction ops rule: rev_induct)
  case Nil
  show ?case using assms by (simp add: ban_run_def)
next
  case (snoc call ops)
  let ?c = "ban_run B ops c" and ?g = "fst (fold (count_call k) ops (0, []))"
  have run: "ban_run B (ops @ [call]) c = ban_step B call ?c" by (simp add: ban_run_def)
  have cnt: "fold (count_call k) (ops @ [call]) (0, []) = count_call k call (?g, counted k ops)"
    by (simp add: counted_def)
  note eff = step_effect[OF conjunct1[OF snoc], of call]
  have "fst (count_call k call (?g, counted k ops)) = fst (spec_step call (generation ?c, ban_status content ?c))"
    using snoc by (cases call) auto
  moreover have "entry_from (counted k (ops @ [call])) e"
    if "ban_status content (ban_step B call ?c) k = Some e" for e
  proof -
    have "snd (spec_step call (?g, ban_status content ?c)) k = Some e"
      using eff(3) that snoc by (metis domI map_le_def)
    from spec_entry_from[OF _ this, of "counted k ops"] show ?thesis using snoc cnt by (simp add: counted_def)
  qed
  ultimately show ?case unfolding run cnt using eff(1,2) by simp
qed

lemma run_exact:
  assumes "bans_ok ok content c" "dom (ban_status content c) \<subseteq> K" "finite K" "int (card K) \<le> maxRejectBanKeys"
    "\<Union> (call_keys ` set ops) \<subseteq> K"
  shows "bans_ok ok content (ban_run B ops c) \<and> dom (ban_status content (ban_run B ops c)) \<subseteq> K \<and>
    (generation (ban_run B ops c), ban_status content (ban_run B ops c)) =
      fold spec_step ops (generation c, ban_status content c)"
  using assms(5)
proof (induction ops rule: rev_induct)
  case Nil
  show ?case using assms by (simp add: ban_run_def)
next
  case (snoc call ops)
  let ?c = "ban_run B ops c"
  have IH: "bans_ok ok content ?c" "dom (ban_status content ?c) \<subseteq> K"
    "(generation ?c, ban_status content ?c) = fold spec_step ops (generation c, ban_status content c)"
    using snoc by auto
  have run: "ban_run B (ops @ [call]) c = ban_step B call ?c" by (simp add: ban_run_def)
  have K: "call_keys call \<subseteq> K" using snoc.prems by simp
  have "int (card (dom (ban_status content ?c))) < maxRejectBanKeys" if "\<not> call_keys call \<subseteq> dom (ban_status content ?c)"
  proof -
    have "dom (ban_status content ?c) \<subset> K" using that K IH(2) by blast
    from psubset_card_mono[OF assms(3) this] show ?thesis using assms(4) by linarith
  qed
  hence eff: "bans_ok ok content (ban_step B call ?c)"
    "(generation (ban_step B call ?c), ban_status content (ban_step B call ?c)) =
      spec_step call (generation ?c, ban_status content ?c)"
    using step_effect[OF IH(1), of call] by (auto simp: prod_eq_iff)
  moreover have "dom (snd (spec_step call (generation ?c, ban_status content ?c))) \<subseteq> K"
    using IH(2) K by (cases call) (auto split: option.splits if_splits)
  ultimately show ?case unfolding run using IH(3) by (metis fold_append fold_simps(1,2) comp_apply snd_conv)
qed

lemma lookup_earned:
  assumes "bans_ok ok content c" "generation c = 0" "ban_status content c = (\<lambda>_. None)"
    and "fst (fst (Lookup B k now (ban_run B ops c))) = Some proxy"
  shows "\<exists>pre ts post until. counted k ops = pre @ ts @ post \<and> earned ts proxy until \<and> now < until"
proof -
  note run = run_earned[OF assms(1-3), of ops k]
  have "answer_of now (ban_status content (ban_run B ops c) k) = Some proxy"
    using assms(4) lookup_answer[OF conjunct1[OF run]] by simp
  then obtain e where e: "ban_status content (ban_run B ops c) k = Some e" "active now e" "bproxy e = Some proxy"
    by (auto simp: answer_of_def split: option.splits if_splits)
  hence "entry_from (counted k ops) e" using run by blast
  thus ?thesis using e(2,3) unfolding entry_from_def active_def by fastforce
qed

lemma ban_stays:
  assumes "bans_ok ok content c" "generation c = 0" "ban_status content c = (\<lambda>_. None)"
    and K: "finite K" "int (card K) \<le> maxRejectBanKeys" "\<Union> (call_keys ` set (ops @ CReject k gen proxy t # ops')) \<subseteq> K"
    and until: "fst (Reject B k gen proxy t (ban_run B ops c)) = Some until"
    and ops': "\<forall>call\<in>set ops'. leaves k until call"
  shows "fst (fst (Lookup B k now (ban_run B (ops @ CReject k gen proxy t # ops') c))) =
    (if now < until then Some proxy else None)"
proof -
  let ?c = "ban_run B ops c" and ?d = "ban_run B (ops @ [CReject k gen proxy t]) c"
  have d: "?d = snd (Reject B k gen proxy t ?c)" by (simp add: ban_run_def)
  have c: "bans_ok ok content ?c" using run_earned[OF assms(1-3), of ops k] by blast
  obtain e where e: "ban_status content ?d k = Some e" "banUntil e = until" "bproxy e = Some proxy"
      "until = lastReject e + rejectBanDuration"
    using reject_effect(5)[OF c until] unfolding d by blast
  have "entry_from (counted k (ops @ [CReject k gen proxy t])) e"
    using run_earned[OF assms(1-3), of "ops @ [CReject k gen proxy t]" k] e(1) by blast
  hence "until > 0" using entry_from_last e(4) by (fastforce simp: rejectBanDuration_def)
  have K1: "\<Union> (call_keys ` set (ops @ [CReject k gen proxy t])) \<subseteq> K" "\<Union> (call_keys ` set ops') \<subseteq> K"
    using K(3) by auto
  have "dom (ban_status content c) \<subseteq> K" by (simp add: assms(3))
  from run_exact[OF assms(1) this K(1,2) K1(1)]
  have d2: "bans_ok ok content ?d" "dom (ban_status content ?d) \<subseteq> K" by blast+
  let ?f = "ban_run B ops' ?d"
  have f: "bans_ok ok content ?f"
    "(generation ?f, ban_status content ?f) = fold spec_step ops' (generation ?d, ban_status content ?d)"
    using run_exact[OF d2 K(1,2) K1(2)] by blast+
  have "ban_status content ?f k = Some e"
    using spec_leaves[where m = "ban_status content ?d" and e = e and g = "generation ?d", OF ops' e(1,2)] \<open>until > 0\<close> f(2) by (metis snd_conv less_irrefl)
  moreover have "ban_run B (ops @ CReject k gen proxy t # ops') c = ?f" by (simp add: ban_run_def)
  ultimately show ?thesis using lookup_answer[OF f(1), of k now] e \<open>until > 0\<close>
    by (simp add: answer_of_def active_def)
qed

end

section \<open>The LRU cache as the store\<close>

lemma a_maxAge_kept:
  "a_maxAge (a_delete k A) = a_maxAge A" "a_maxAge (snd (a_get clk k A)) = a_maxAge A"
  "a_maxAge (a_set clk k v A) = a_maxAge A"
  by (auto simp: a_sweep_def a_delete_def a_touch_def a_get_def a_put_def a_set_def a_drop_def Let_def split: option.split)

lemma touch_map:
  "map_of (filter (\<lambda>x. fst x \<noteq> k) xs @ [(k, v)]) = (map_of xs)(k \<mapsto> v)"
  by (auto simp: map_of_filter_keys map_add_def fun_eq_iff split: option.split)

lemma a_get_ageless:
  assumes "a_maxAge A = 0"
  shows "fst (a_get clk k A) = map_of (a_items A) k" "map_of (a_items (snd (a_get clk k A))) = map_of (a_items A)"
  using assms by (auto simp: a_get_def a_ages_def a_touch_def touch_map fun_upd_idem simp del: map_of_append split: option.split)

lemma map_of_tl: "distinct (map fst xs) \<Longrightarrow> map_of (tl xs) \<subseteq>\<^sub>m map_of xs"
  by (cases xs) (auto simp: map_le_def dest: map_of_SomeD intro: rev_image_eqI)

lemma a_set_ageless:
  assumes A: "a_maxAge A = 0" "a_bounded A"
  shows "map_of (a_items (a_set clk k v A)) k = Some (v, 0)"
    and "map_of (a_items (a_set clk k v A)) \<subseteq>\<^sub>m (map_of (a_items A))(k \<mapsto> (v, 0))"
    and "k \<in> dom (map_of (a_items A)) \<or> int (length (a_items A)) < a_maxSize A \<Longrightarrow>
      map_of (a_items (a_set clk k v A)) = (map_of (a_items A))(k \<mapsto> (v, 0))"
proof -
  let ?xs = "a_items A" and ?ys = "a_items A @ [(k, v, 0)]" and ?r = "a_items (a_set clk k v A)"
  have r: "?r = (if k \<in> dom (map_of ?xs) then filter (\<lambda>x. fst x \<noteq> k) ?xs @ [(k, v, 0)]
      else if a_maxSize A > 0 \<and> int (length ?ys) > a_maxSize A then tl ?ys else ?ys)"
    using A(1) by (auto simp: a_set_def a_put_def a_sweep_items a_ages_def a_touch_def a_drop_def Let_def)
  have ys: "map_of ?ys = (map_of ?xs)(k \<mapsto> (v, 0))" if "k \<notin> dom (map_of ?xs)"
    using that by (auto simp: map_add_def fun_eq_iff split: option.split)
  have tl: "map_of (tl ?ys) \<subseteq>\<^sub>m map_of ?ys" "?xs \<noteq> [] \<Longrightarrow> map_of (tl ?ys) k = Some (v, 0)" if "k \<notin> dom (map_of ?xs)"
  proof -
    have new: "k \<notin> fst ` set ?xs" using that by (auto simp: map_of_eq_None_iff dom_def)
    thus "map_of (tl ?ys) \<subseteq>\<^sub>m map_of ?ys" using A(2) by (intro map_of_tl) (auto simp: a_bounded_def)
    have "map_of (tl ?xs) k = None" using new set_tl_sub[of ?xs] by (auto simp: map_of_eq_None_iff)
    thus "map_of (tl ?ys) k = Some (v, 0)" if "?xs \<noteq> []" using that by (simp add: map_add_def)
  qed
  show "map_of ?r k = Some (v, 0)"
    using ys tl(2) unfolding r by (cases "?xs = []") (auto simp: touch_map simp del: map_of_append)
  show "map_of ?r \<subseteq>\<^sub>m (map_of ?xs)(k \<mapsto> (v, 0))"
    using ys tl(1) unfolding r by (auto simp: touch_map simp del: map_of_append)
  show "map_of ?r = (map_of ?xs)(k \<mapsto> (v, 0))" if "k \<in> dom (map_of ?xs) \<or> int (length ?xs) < a_maxSize A"
    using ys that unfolding r by (auto simp: touch_map simp del: map_of_append)
qed

lemma lru_storeI:
  assumes "lru_rep lok seq st A" "a_bounded A" "a_maxAge A = 0" "a_maxSize A = maxRejectBanKeys"
  shows "lru_store lok seq st" "lru_content seq st k = map_option fst (map_of (a_items A) k)"
  using assms by (simp_all add: lru_store_def lru_content_def lru_rep_def)

lemma lru_storeD:
  assumes "lru_store lok seq st"
  shows "lru_rep lok seq st (abs_lru seq st)" "a_bounded (abs_lru seq st)" "a_maxAge (abs_lru seq st) = 0"
    "a_maxSize (abs_lru seq st) = maxRejectBanKeys"
  using assms by (simp_all add: lru_store_def Let_def)

lemma lru_store_get:
  assumes L: "list_laws L lok seq" and s: "lru_store lok seq s" and g: "b_Get (ban_lru L clk) k s = (r, s')"
  shows "r = lru_content seq s k \<and> lru_store lok seq s' \<and> lru_content seq s' = lru_content seq s"
proof -
  let ?A = "abs_lru seq s"
  note A = lru_storeD[OF s]
  obtain x s'' where x: "get L clk k s = Some (x, s'')" "lru_rep lok seq s'' (snd (a_get clk k ?A))"
    "map_option (\<lambda>a. (val (entries (snd s'') ! a), expires (entries (snd s'') ! a))) x = fst (a_get clk k ?A)"
    using get_rep[OF L A(1), of clk k] by blast
  have eq: "s'' = s'" "r = map_option (\<lambda>a. val (entries (snd s'') ! a)) x"
    using g x(1) by (auto simp: ban_lru_def Get_lru_def)
  have "r = map_option fst (fst (a_get clk k ?A))" unfolding eq(2) x(3)[symmetric] by (simp add: option.map_comp comp_def)
  thus ?thesis using lru_storeI[OF x(2)] a_get_bounded[OF A(2), of clk k] a_get_ageless[OF A(3), of clk k] A(3,4) eq(1)
    by (simp add: a_maxAge_kept fun_eq_iff lru_content_def[of seq s])
qed

lemma lru_store_set:
  assumes L: "list_laws L lok seq" and s: "lru_store lok seq s"
  shows "\<exists>A. lru_store lok seq (b_Set (ban_lru L clk) k a s) \<and> A = a_set clk k a (abs_lru seq s) \<and>
    (\<forall>k'. lru_content seq (b_Set (ban_lru L clk) k a s) k' = map_option fst (map_of (a_items A) k'))"
proof -
  let ?A = "abs_lru seq s"
  note A = lru_storeD[OF s]
  obtain t where t: "set_lru L clk k a s = Some t" "lru_rep lok seq t (a_set clk k a ?A)"
    using set_lru_rep[OF L A(1), of clk k a] by blast
  have "b_Set (ban_lru L clk) k a s = t" using t(1) by (simp add: ban_lru_def Set_lru_def)
  thus ?thesis using lru_storeI[OF t(2)] a_set_bounded[OF A(2), of clk k a] A(3,4) by (simp add: a_maxAge_kept)
qed

lemma lru_ban_store:
  assumes L: "list_laws L lok seq"
  shows "ban_store (ban_lru L clk) (lru_store lok seq) (lru_content seq)"
proof (unfold_locales, goal_cases)
  case (1 s k r s')
  thus ?case by (rule lru_store_get[OF L])
next
  case (2 s k a)
  note A = lru_storeD[OF 2]
  note set = a_set_ageless[OF A(3,2), where clk = clk and k = k and v = a]
  have "map_of (a_items (abs_lru seq s)) k' = Some p"
    if "map_of (a_items (a_set clk k a (abs_lru seq s))) k' = Some p" "k' \<noteq> k" for k' p
    using bspec[OF set(2)[unfolded map_le_def] domI[where a = k'], OF that(1)] that by simp
  thus ?case using lru_store_set[OF L 2, of clk k a] set(1)
    by (fastforce simp: map_le_def dom_def lru_content_def[of seq s])
next
  case (3 s k a)
  note A = lru_storeD[OF 3(1)]
  have dom: "dom (lru_content seq s) = dom (map_of (a_items (abs_lru seq s)))" by (auto simp: lru_content_def dom_def)
  have card: "card (dom (lru_content seq s)) = length (a_items (abs_lru seq s))"
    using A(2) distinct_card[of "map fst (a_items (abs_lru seq s))"] unfolding dom
    by (simp add: a_bounded_def dom_map_of_conv_image_fst)
  have "map_of (a_items (a_set clk k a (abs_lru seq s))) = (map_of (a_items (abs_lru seq s)))(k \<mapsto> (a, 0))"
    using 3(2) a_set_ageless(3)[OF A(3,2), where clk = clk and k = k and v = a] unfolding card[unfolded dom] dom A(4) by blast
  thus ?case using lru_store_set[OF L 3(1), of clk k a] by (auto simp: fun_eq_iff lru_content_def[of seq s])
next
  case (4 s k)
  note A = lru_storeD[OF 4]
  have "map_of (a_items (a_delete k (abs_lru seq s))) = (map_of (a_items (abs_lru seq s)))(k := None)"
    by (simp add: a_delete_def map_of_filter_keys)
  thus ?case using lru_storeI[OF delete_rep[OF L A(1), of k]] a_delete_bounded[OF A(2), of k] A(3,4)
    by (simp add: ban_lru_def Delete_lru_def a_maxAge_kept fun_eq_iff lru_content_def[of seq s])
next
  case (5 s)
  note A = lru_storeD[OF 5]
  have "lru_rep lok seq (Clear_lru L (fst s), snd s) ((abs_lru seq s)\<lparr>a_items := []\<rparr>)"
    using lru_simulates[OF L A(1), of OpClearAll] by simp
  from lru_storeI[OF this] show ?case
    using A(3,4) by (simp add: ban_lru_def a_bounded_def fun_eq_iff maxRejectBanKeys_def)
qed

lemma no_bans_ok:
  assumes L: "list_laws L lok seq"
  shows "bans_ok (lru_store lok seq) (lru_content seq) (no_bans L)" "generation (no_bans L) = 0"
    and "ban_status (lru_content seq) (no_bans L) = (\<lambda>_. None)"
proof -
  let ?A = "a_new [WithSize maxRejectBanKeys] () :: (rejectBanKey, nat, unit) acache"
  have "a_bounded ?A" "a_maxAge ?A = 0" "a_maxSize ?A = maxRejectBanKeys" "a_items ?A = []"
    by (simp_all add: a_new_def a_empty_def a_bounded_def maxRejectBanKeys_def)
  from lru_storeI[OF New_lru_rep[OF L] this(1-3)] this(4)
  show "bans_ok (lru_store lok seq) (lru_content seq) (no_bans L)" "generation (no_bans L) = 0"
    "ban_status (lru_content seq) (no_bans L) = (\<lambda>_. None)"
    by (simp_all add: no_bans_def newRejectBanCache_def bans_ok_def ban_status_def fun_eq_iff)
qed

interpretation lru_bans: ban_store "ban_lru simple_list clk" "lru_store simple_ok snd" "lru_content snd" for clk
  by (rule lru_ban_store [OF simple_list_laws])

section \<open>Properties\<close>

text \<open>
  C9. Every ban is earned.  After any sequence of calls on a new cache, with any evictions, a lookup
  names a proxy only when ten rejections of that key lie within the window, all in the current
  generation and since the key was last forgotten, the last of them for that proxy and less than a
  minute ago.  So a reset revokes every ban, and rejections of an older generation never count.
\<close>

theorem ban_is_earned:
  assumes "list_laws L lok seq"
    and "fst (fst (Lookup (ban_lru L clk) k now (ban_run (ban_lru L clk) ops (no_bans L)))) = Some proxy"
  shows "\<exists>pre ts post until. counted k ops = pre @ ts @ post \<and> earned ts proxy until \<and> now < until"
  by (rule ban_store.lookup_earned [OF lru_ban_store [OF assms(1)] no_bans_ok [OF assms(1)] assms(2)])

theorem ban_is_earned_witness:
  "\<exists>pre ts post until. counted sample_key (CReset # replicate 10 (CReject sample_key 1 7 5)) = pre @ ts @ post \<and>
     earned ts 7 until \<and> 60000000000 < until"
  by (rule ban_is_earned [OF simple_list_laws, where clk = "\<lambda>_. 0"]) code_simp

text \<open>
  C11. A ban lasts until its deadline.  When a rejection starts a ban until \<open>until\<close>, then later
  rejections and lookups of this key that come before the deadline, and rejections, lookups and
  \<open>Forget\<close> calls of any other key at any time, neither end nor extend it: a lookup names the proxy
  exactly before the deadline, as long as the calls are about no more keys than the cache has room
  for.  The calls that are left out can end a ban: \<open>Reset\<close>, \<open>Forget\<close> of this key, and
  rejections and lookups of this key from the deadline on, which drop the expired ban.
\<close>

theorem ban_lasts:
  assumes "list_laws L lok seq"
    and "finite K" "int (card K) \<le> maxRejectBanKeys"
    and "\<Union> (call_keys ` set (ops @ CReject k gen proxy t # later)) \<subseteq> K"
    and "fst (Reject (ban_lru L clk) k gen proxy t (ban_run (ban_lru L clk) ops (no_bans L))) = Some until"
    and "\<forall>call\<in>set later. leaves k until call"
  shows "fst (fst (Lookup (ban_lru L clk) k now
      (ban_run (ban_lru L clk) (ops @ CReject k gen proxy t # later) (no_bans L)))) =
    (if now < until then Some proxy else None)"
  by (rule ban_store.ban_stays [OF lru_ban_store [OF assms(1)] no_bans_ok [OF assms(1)] assms(2-6)])

theorem ban_lasts_witness:
  "fst (fst (Lookup (ban_lru simple_list (\<lambda>_. 0)) sample_key 60000000000
      (ban_run (ban_lru simple_list (\<lambda>_. 0))
        (replicate 9 (CReject sample_key 0 7 5) @ CReject sample_key 0 7 5 # [CReject sample_key 0 8 50]) (no_bans simple_list)))) =
   Some 7"
proof -
  have "fst (Reject (ban_lru simple_list (\<lambda>_. 0)) sample_key 0 7 5
     (ban_run (ban_lru simple_list (\<lambda>_. 0)) (replicate 9 (CReject sample_key 0 7 5)) (no_bans simple_list))) =
     Some 60000000005" by code_simp
  from ban_lasts [OF simple_list_laws, where K = "{sample_key}" and later = "[CReject sample_key 0 8 50]"
      and now = 60000000000, OF _ _ _ this]
  show ?thesis by (simp add: maxRejectBanKeys_def)
qed

end
