(* ===== verification/Rules_Common.thy ===== *)
theory Rules_Common
  imports Metadata Ranges Wildcard
begin

text \<open>
  The leaf rules: \<open>rules/common\<close> and the rule types of \<open>constant/rule.go\<close>.

  Every rule struct is a record whose fields carry a prefix, because HOL fields share one name
  space, and every method is a definition named after it.  Matching reads and changes the metadata,
  so \<open>Match\<close> maps a state to the answer, the adapter name and the next state.  The databases
  that are loaded from files (geodata, mmdb) and the \<open>regexp2\<close> library are functions in the
  environment; a compiled regular expression is represented by its pattern.
\<close>

section \<open>Rule types\<close>

datatype RuleType =
    Domain_rt | DomainSuffix_rt | DomainKeyword_rt | DomainRegex_rt | DomainWildcard_rt | GEOSITE_rt
  | GEOIP_rt | SrcGEOIP_rt | IPASN_rt | SrcIPASN_rt | IPCIDR_rt | SrcIPCIDR_rt | IPSuffix_rt
  | SrcIPSuffix_rt | SrcPort_rt | DstPort_rt | InPort_rt | DSCP_rt | InUser_rt | InName_rt | InType_rt
  | ProcessName_rt | ProcessPath_rt | ProcessNameRegex_rt | ProcessPathRegex_rt
  | ProcessNameWildcard_rt | ProcessPathWildcard_rt | RematchName_rt | RuleSet_rt | Network_rt
  | Uid_rt | SubRules_rt | MATCH_rt | AND_rt | OR_rt | NOT_rt

fun String_RuleType :: "RuleType \<Rightarrow> string" where
  "String_RuleType Domain_rt = ''Domain''"
| "String_RuleType DomainSuffix_rt = ''DomainSuffix''"
| "String_RuleType DomainKeyword_rt = ''DomainKeyword''"
| "String_RuleType DomainRegex_rt = ''DomainRegex''"
| "String_RuleType DomainWildcard_rt = ''DomainWildcard''"
| "String_RuleType GEOSITE_rt = ''GeoSite''"
| "String_RuleType GEOIP_rt = ''GeoIP''"
| "String_RuleType SrcGEOIP_rt = ''SrcGeoIP''"
| "String_RuleType IPASN_rt = ''IPASN''"
| "String_RuleType SrcIPASN_rt = ''SrcIPASN''"
| "String_RuleType IPCIDR_rt = ''IPCIDR''"
| "String_RuleType SrcIPCIDR_rt = ''SrcIPCIDR''"
| "String_RuleType IPSuffix_rt = ''IPSuffix''"
| "String_RuleType SrcIPSuffix_rt = ''SrcIPSuffix''"
| "String_RuleType SrcPort_rt = ''SrcPort''"
| "String_RuleType DstPort_rt = ''DstPort''"
| "String_RuleType InPort_rt = ''InPort''"
| "String_RuleType InUser_rt = ''InUser''"
| "String_RuleType InName_rt = ''InName''"
| "String_RuleType InType_rt = ''InType''"
| "String_RuleType ProcessName_rt = ''ProcessName''"
| "String_RuleType ProcessPath_rt = ''ProcessPath''"
| "String_RuleType ProcessNameRegex_rt = ''ProcessNameRegex''"
| "String_RuleType ProcessPathRegex_rt = ''ProcessPathRegex''"
| "String_RuleType ProcessNameWildcard_rt = ''ProcessNameWildcard''"
| "String_RuleType ProcessPathWildcard_rt = ''ProcessPathWildcard''"
| "String_RuleType RematchName_rt = ''RematchName''"
| "String_RuleType MATCH_rt = ''Match''"
| "String_RuleType RuleSet_rt = ''RuleSet''"
| "String_RuleType Network_rt = ''Network''"
| "String_RuleType DSCP_rt = ''DSCP''"
| "String_RuleType Uid_rt = ''Uid''"
| "String_RuleType SubRules_rt = ''SubRules''"
| "String_RuleType AND_rt = ''AND''"
| "String_RuleType OR_rt = ''OR''"
| "String_RuleType NOT_rt = ''NOT''"

section \<open>State, helper and environment\<close>

text \<open>
  The state in which rules are matched: the metadata, the variables that the callbacks of the helper
  capture (\<open>resolved\<close> and \<open>attemptProcessLookup\<close> of \<open>resolveMetadata\<close>, \<open>complete\<close> for the
  field of the result of \<open>DiagnoseRoute\<close>), the rule wrappers
  by their address, and the clock, whose \<open>tick\<close> counts the readings.
\<close>

record RuleWrapper =
  disabled :: bool
  hitCount :: "64 word"
  hitAt :: int
  missCount :: "64 word"
  missAt :: int

record mstate =
  md :: Metadata
  resolved :: bool
  attemptProcessLookup :: bool
  complete :: bool
  wrappers :: "nat \<Rightarrow> RuleWrapper"
  times :: "nat \<Rightarrow> int"
  tick :: nat

definition time_Now :: "mstate \<Rightarrow> int \<times> mstate" where
  "time_Now st = (times st (tick st), st\<lparr>tick := Suc (tick st)\<rparr>)"

record RuleMatchHelper =
  Diagnostic :: bool
  ResolveIP :: "(mstate \<Rightarrow> mstate outcome) option"
  FindProcess :: "(mstate \<Rightarrow> mstate outcome) option"
  CheckPassRule :: "(string \<Rightarrow> mstate \<Rightarrow> bool outcome) option"

text \<open>The zero value of the helper: no callbacks.\<close>

definition no_helper :: RuleMatchHelper where
  "no_helper = \<lparr>Diagnostic = False, ResolveIP = None, FindProcess = None, CheckPassRule = None\<rparr>"

text \<open>A matcher loaded from a database, with the number of its records.\<close>

type_synonym 'a matcher = "('a \<Rightarrow> bool) \<times> int"

record env =
  regexp2_Compile :: "string \<Rightarrow> string result"
  regexp2_MatchString :: "string \<Rightarrow> string \<Rightarrow> bool"
  GeodataMode :: bool
  InitGeoIP :: "string option"
  InitGeoSite :: "string option"
  InitASN :: "string option"
  LoadGeoIPMatcher :: "string \<Rightarrow> Addr matcher result"
  LoadGeoSiteMatcher :: "string \<Rightarrow> string matcher result"
  LookupCode :: "8 word list \<Rightarrow> string list"
  LookupASN :: "8 word list \<Rightarrow> string \<times> string"
  GOOS :: string

type_synonym match_result = "((bool \<times> string) \<times> mstate) outcome"

definition answer :: "bool \<Rightarrow> string \<Rightarrow> mstate \<Rightarrow> match_result" where
  "answer b a st = Return ((b, a), st)"

definition call_back :: "(mstate \<Rightarrow> mstate outcome) option \<Rightarrow> mstate \<Rightarrow> mstate outcome" where
  "call_back f st = (case f of None \<Rightarrow> Return st | Some g \<Rightarrow> g st)"

text \<open>The guard with which every rule on addresses starts.\<close>

definition resolve_for :: "bool \<Rightarrow> bool \<Rightarrow> RuleMatchHelper \<Rightarrow> mstate \<Rightarrow> mstate outcome" where
  "resolve_for noResolveIP isSourceIP h st =
     (if \<not> noResolveIP \<and> \<not> isSourceIP then call_back (ResolveIP h) st else Return st)"

definition rule_ip :: "bool \<Rightarrow> mstate \<Rightarrow> Addr" where
  "rule_ip isSourceIP st = (if isSourceIP then SrcIP (md st) else DstIP (md st))"

definition errPayload :: string where "errPayload = ''payloadRule error''"

section \<open>Rules on domains\<close>

record Domain =
  d_domain :: string
  d_adapter :: string

definition RuleType_Domain :: "Domain \<Rightarrow> RuleType" where "RuleType_Domain d = Domain_rt"

definition Match_Domain :: "Domain \<Rightarrow> mstate \<Rightarrow> match_result" where
  "Match_Domain d st = answer (RuleHost (md st) = d_domain d) (d_adapter d) st"

definition Adapter_Domain :: "Domain \<Rightarrow> string" where "Adapter_Domain d = d_adapter d"

definition Payload_Domain :: "Domain \<Rightarrow> string" where "Payload_Domain d = d_domain d"

definition NewDomain :: "string \<Rightarrow> string \<Rightarrow> Domain" where
  "NewDomain dmn adapter = \<lparr>d_domain = ToLower dmn, d_adapter = adapter\<rparr>"

record DomainSuffix =
  ds_suffix :: string
  ds_adapter :: string

definition RuleType_DomainSuffix :: "DomainSuffix \<Rightarrow> RuleType" where
  "RuleType_DomainSuffix ds = DomainSuffix_rt"

definition Match_DomainSuffix :: "DomainSuffix \<Rightarrow> mstate \<Rightarrow> match_result" where
  "Match_DomainSuffix ds st =
     (let domain = RuleHost (md st) in
      answer (HasSuffix domain (''.'' @ ds_suffix ds) \<or> domain = ds_suffix ds) (ds_adapter ds) st)"

definition Adapter_DomainSuffix :: "DomainSuffix \<Rightarrow> string" where
  "Adapter_DomainSuffix ds = ds_adapter ds"

definition Payload_DomainSuffix :: "DomainSuffix \<Rightarrow> string" where
  "Payload_DomainSuffix ds = ds_suffix ds"

definition NewDomainSuffix :: "string \<Rightarrow> string \<Rightarrow> DomainSuffix" where
  "NewDomainSuffix suffix adapter = \<lparr>ds_suffix = ToLower suffix, ds_adapter = adapter\<rparr>"

record DomainKeyword =
  dk_keyword :: string
  dk_adapter :: string

definition RuleType_DomainKeyword :: "DomainKeyword \<Rightarrow> RuleType" where
  "RuleType_DomainKeyword dk = DomainKeyword_rt"

definition Match_DomainKeyword :: "DomainKeyword \<Rightarrow> mstate \<Rightarrow> match_result" where
  "Match_DomainKeyword dk st = answer (Contains (RuleHost (md st)) (dk_keyword dk)) (dk_adapter dk) st"

definition Adapter_DomainKeyword :: "DomainKeyword \<Rightarrow> string" where
  "Adapter_DomainKeyword dk = dk_adapter dk"

definition Payload_DomainKeyword :: "DomainKeyword \<Rightarrow> string" where
  "Payload_DomainKeyword dk = dk_keyword dk"

definition NewDomainKeyword :: "string \<Rightarrow> string \<Rightarrow> DomainKeyword" where
  "NewDomainKeyword keyword adapter = \<lparr>dk_keyword = ToLower keyword, dk_adapter = adapter\<rparr>"

record DomainRegex =
  dr_regex :: string
  dr_adapter :: string

definition RuleType_DomainRegex :: "DomainRegex \<Rightarrow> RuleType" where
  "RuleType_DomainRegex dr = DomainRegex_rt"

definition Match_DomainRegex :: "env \<Rightarrow> DomainRegex \<Rightarrow> mstate \<Rightarrow> match_result" where
  "Match_DomainRegex E dr st =
     answer (regexp2_MatchString E (dr_regex dr) (RuleHost (md st))) (dr_adapter dr) st"

definition Adapter_DomainRegex :: "DomainRegex \<Rightarrow> string" where
  "Adapter_DomainRegex dr = dr_adapter dr"

definition Payload_DomainRegex :: "DomainRegex \<Rightarrow> string" where
  "Payload_DomainRegex dr = dr_regex dr"

definition NewDomainRegex :: "env \<Rightarrow> string \<Rightarrow> string \<Rightarrow> DomainRegex result" where
  "NewDomainRegex E regex adapter =
     rbind (regexp2_Compile E regex) (\<lambda>r. Inr \<lparr>dr_regex = r, dr_adapter = adapter\<rparr>)"

record DomainWildcard =
  dw_pattern :: string
  dw_adapter :: string

definition RuleType_DomainWildcard :: "DomainWildcard \<Rightarrow> RuleType" where
  "RuleType_DomainWildcard dw = DomainWildcard_rt"

definition Match_DomainWildcard :: "DomainWildcard \<Rightarrow> mstate \<Rightarrow> match_result" where
  "Match_DomainWildcard dw st =
     obind (of_loop (Match_wildcard (dw_pattern dw) (RuleHost (md st)))) (\<lambda>m. answer m (dw_adapter dw) st)"

definition Adapter_DomainWildcard :: "DomainWildcard \<Rightarrow> string" where
  "Adapter_DomainWildcard dw = dw_adapter dw"

definition Payload_DomainWildcard :: "DomainWildcard \<Rightarrow> string" where
  "Payload_DomainWildcard dw = dw_pattern dw"

definition NewDomainWildcard :: "string \<Rightarrow> string \<Rightarrow> DomainWildcard" where
  "NewDomainWildcard pattern adapter = \<lparr>dw_pattern = ToLower pattern, dw_adapter = adapter\<rparr>"

record GEOSITE =
  gs_country :: string
  gs_adapter :: string
  gs_recodeSize :: int

definition RuleType_GEOSITE :: "GEOSITE \<Rightarrow> RuleType" where "RuleType_GEOSITE gs = GEOSITE_rt"

definition GetDomainMatcher :: "env \<Rightarrow> GEOSITE \<Rightarrow> string matcher result" where
  "GetDomainMatcher E gs =
     (case LoadGeoSiteMatcher E (gs_country gs) of
        Inl err \<Rightarrow> Inl (''load GeoSite data error, '' @ err)
      | Inr matcher \<Rightarrow> Inr matcher)"

definition MatchDomain_GEOSITE :: "env \<Rightarrow> GEOSITE \<Rightarrow> string \<Rightarrow> bool" where
  "MatchDomain_GEOSITE E gs domain =
     (if length domain = 0 then False
      else case GetDomainMatcher E gs of Inl _ \<Rightarrow> False | Inr matcher \<Rightarrow> fst matcher domain)"

definition Match_GEOSITE :: "env \<Rightarrow> GEOSITE \<Rightarrow> mstate \<Rightarrow> match_result" where
  "Match_GEOSITE E gs st = answer (MatchDomain_GEOSITE E gs (RuleHost (md st))) (gs_adapter gs) st"

definition Adapter_GEOSITE :: "GEOSITE \<Rightarrow> string" where "Adapter_GEOSITE gs = gs_adapter gs"

definition Payload_GEOSITE :: "GEOSITE \<Rightarrow> string" where "Payload_GEOSITE gs = gs_country gs"

definition GetRecodeSize_GEOSITE :: "env \<Rightarrow> GEOSITE \<Rightarrow> int" where
  "GetRecodeSize_GEOSITE E gs =
     (case GetDomainMatcher E gs of Inr matcher \<Rightarrow> snd matcher | Inl _ \<Rightarrow> 0)"

definition NewGEOSITE :: "env \<Rightarrow> string \<Rightarrow> string \<Rightarrow> GEOSITE result" where
  "NewGEOSITE E country adapter =
     (case InitGeoSite E of
        Some err \<Rightarrow> Inl err
      | None \<Rightarrow>
          let geoSite = \<lparr>gs_country = country, gs_adapter = adapter, gs_recodeSize = 0\<rparr> in
          rbind (GetDomainMatcher E geoSite) (\<lambda>_. Inr geoSite))"

section \<open>Rules on addresses\<close>

record GEOIP =
  g_country :: string
  g_adapter :: string
  g_noResolveIP :: bool
  g_isSourceIP :: bool

definition RuleType_GEOIP :: "GEOIP \<Rightarrow> RuleType" where
  "RuleType_GEOIP g = (if g_isSourceIP g then SrcGEOIP_rt else GEOIP_rt)"

definition isLan :: "Addr \<Rightarrow> bool" where
  "isLan ip =
     (IsPrivate ip \<or> IsUnspecified ip \<or> IsLoopback ip \<or> IsMulticast ip \<or> IsLinkLocalUnicast ip)"

definition getIPMatcher :: "env \<Rightarrow> GEOIP \<Rightarrow> Addr matcher result" where
  "getIPMatcher E g =
     (case LoadGeoIPMatcher E (g_country g) of
        Inl err \<Rightarrow> Inl (''[GeoIP] '' @ err)
      | Inr geoIPMatcher \<Rightarrow> Inr geoIPMatcher)"

text \<open>The cached regions of the address the rule looks at.\<close>

definition geo_cache :: "bool \<Rightarrow> mstate \<Rightarrow> string list option" where
  "geo_cache isSourceIP st = (if isSourceIP then SrcGeoIP (md st) else DstGeoIP (md st))"

definition set_geo_cache :: "bool \<Rightarrow> string list option \<Rightarrow> mstate \<Rightarrow> mstate" where
  "set_geo_cache isSourceIP codes st =
     (if isSourceIP then st\<lparr>md := md st\<lparr>SrcGeoIP := codes\<rparr>\<rparr>
      else st\<lparr>md := md st\<lparr>DstGeoIP := codes\<rparr>\<rparr>)"

definition slice_elems :: "'a list option \<Rightarrow> 'a list" where
  "slice_elems xs = (case xs of None \<Rightarrow> [] | Some ys \<Rightarrow> ys)"

definition Match_GEOIP :: "env \<Rightarrow> RuleMatchHelper \<Rightarrow> GEOIP \<Rightarrow> mstate \<Rightarrow> match_result" where
  "Match_GEOIP E h g st0 =
     obind (resolve_for (g_noResolveIP g) (g_isSourceIP g) h st0) (\<lambda>st.
      let src = g_isSourceIP g;
          ip = rule_ip src st;
          country = g_country g in
      if \<not> IsValid ip then answer False '''' st
      else if country = ''lan'' then answer (isLan ip) (g_adapter g) st
      else if GeodataMode E then
        (if country \<in> set (slice_elems (geo_cache src st)) then answer True (g_adapter g) st
         else case getIPMatcher E g of
                Inl _ \<Rightarrow> answer False '''' st
              | Inr matcher \<Rightarrow>
                  if fst matcher ip
                  then answer True (g_adapter g)
                         (set_geo_cache src (Some (slice_elems (geo_cache src st) @ [country])) st)
                  else answer False (g_adapter g) st)
      else case geo_cache src st of
             Some codes \<Rightarrow> answer (country \<in> set codes) (g_adapter g) st
           | None \<Rightarrow>
               let codes = LookupCode E (AsSlice ip);
                   st' = set_geo_cache src (Some codes) st in
               if country \<in> set codes then answer True (g_adapter g) st'
               else answer False '''' st')"

definition MatchIp_GEOIP :: "env \<Rightarrow> GEOIP \<Rightarrow> Addr \<Rightarrow> bool" where
  "MatchIp_GEOIP E g ip =
     (if \<not> IsValid ip then False
      else if g_country g = ''lan'' then isLan ip
      else if GeodataMode E then
        (case getIPMatcher E g of Inl _ \<Rightarrow> False | Inr matcher \<Rightarrow> fst matcher ip)
      else g_country g \<in> set (LookupCode E (AsSlice ip)))"

text \<open>The filter of \<open>dns.fallback-filter.geoip\<close>.\<close>

definition MatchIp_dnsFallbackFilter :: "env \<Rightarrow> GEOIP \<Rightarrow> Addr \<Rightarrow> bool" where
  "MatchIp_dnsFallbackFilter E g ip =
     (if \<not> IsValid ip then False
      else if isLan ip then False
      else if g_country g = ''lan'' then \<not> isLan ip
      else if GeodataMode E then
        (case getIPMatcher E g of Inl _ \<Rightarrow> False | Inr matcher \<Rightarrow> \<not> fst matcher ip)
      else g_country g \<notin> set (LookupCode E (AsSlice ip)))"

definition Adapter_GEOIP :: "GEOIP \<Rightarrow> string" where "Adapter_GEOIP g = g_adapter g"

definition Payload_GEOIP :: "GEOIP \<Rightarrow> string" where "Payload_GEOIP g = g_country g"

definition GetIPMatcher :: "env \<Rightarrow> GEOIP \<Rightarrow> Addr matcher result" where
  "GetIPMatcher E g = (if GeodataMode E then getIPMatcher E g else Inl ''not geodata mode'')"

definition GetRecodeSize_GEOIP :: "env \<Rightarrow> GEOIP \<Rightarrow> int" where
  "GetRecodeSize_GEOIP E g =
     (if g_country g = ''lan'' then 0
      else case GetIPMatcher E g of Inr matcher \<Rightarrow> snd matcher | Inl _ \<Rightarrow> 0)"

definition NewGEOIP :: "env \<Rightarrow> string \<Rightarrow> string \<Rightarrow> bool \<Rightarrow> bool \<Rightarrow> GEOIP result" where
  "NewGEOIP E country0 adapter isSrc noResolveIP =
     (let country = ToLower country0;
          geoip = \<lparr>g_country = country, g_adapter = adapter, g_noResolveIP = noResolveIP, g_isSourceIP = isSrc\<rparr> in
      if country = ''lan'' then Inr geoip
      else case InitGeoIP E of
             Some err \<Rightarrow> Inl err
           | None \<Rightarrow> if GeodataMode E then rbind (getIPMatcher E geoip) (\<lambda>_. Inr geoip) else Inr geoip)"

record ASN =
  a_asn :: string
  a_adapter :: string
  a_noResolveIP :: bool
  a_isSourceIP :: bool

definition Match_ASN :: "env \<Rightarrow> RuleMatchHelper \<Rightarrow> ASN \<Rightarrow> mstate \<Rightarrow> match_result" where
  "Match_ASN E h a st0 =
     obind (resolve_for (a_noResolveIP a) (a_isSourceIP a) h st0) (\<lambda>st.
      let ip = rule_ip (a_isSourceIP a) st in
      if \<not> IsValid ip then answer False '''' st
      else case LookupASN E (AsSlice ip) of (asn, aso) \<Rightarrow>
        answer (a_asn a = asn) (a_adapter a)
          (if a_isSourceIP a then st\<lparr>md := md st\<lparr>SrcIPASN := asn @ '' '' @ aso\<rparr>\<rparr>
           else st\<lparr>md := md st\<lparr>DstIPASN := asn @ '' '' @ aso\<rparr>\<rparr>))"

definition RuleType_ASN :: "ASN \<Rightarrow> RuleType" where
  "RuleType_ASN a = (if a_isSourceIP a then SrcIPASN_rt else IPASN_rt)"

definition Adapter_ASN :: "ASN \<Rightarrow> string" where "Adapter_ASN a = a_adapter a"

definition Payload_ASN :: "ASN \<Rightarrow> string" where "Payload_ASN a = a_asn a"

definition NewIPASN :: "env \<Rightarrow> string \<Rightarrow> string \<Rightarrow> bool \<Rightarrow> bool \<Rightarrow> ASN result" where
  "NewIPASN E asn adapter isSrc noResolveIP =
     (case InitASN E of
        Some err \<Rightarrow> Inl err
      | None \<Rightarrow> Inr \<lparr>a_asn = asn, a_adapter = adapter, a_noResolveIP = noResolveIP, a_isSourceIP = isSrc\<rparr>)"

record IPCIDR =
  i_ipnet :: Prefix
  i_adapter :: string
  i_isSourceIP :: bool
  i_noResolveIP :: bool

type_synonym IPCIDROption = "IPCIDR \<Rightarrow> IPCIDR"

definition WithIPCIDRSourceIP :: "bool \<Rightarrow> IPCIDROption" where
  "WithIPCIDRSourceIP b i = i\<lparr>i_isSourceIP := b\<rparr>"

definition WithIPCIDRNoResolve :: "bool \<Rightarrow> IPCIDROption" where
  "WithIPCIDRNoResolve noResolve i = i\<lparr>i_noResolveIP := noResolve\<rparr>"

definition RuleType_IPCIDR :: "IPCIDR \<Rightarrow> RuleType" where
  "RuleType_IPCIDR i = (if i_isSourceIP i then SrcIPCIDR_rt else IPCIDR_rt)"

definition Match_IPCIDR :: "RuleMatchHelper \<Rightarrow> IPCIDR \<Rightarrow> mstate \<Rightarrow> match_result" where
  "Match_IPCIDR h i st0 =
     obind (resolve_for (i_noResolveIP i) (i_isSourceIP i) h st0) (\<lambda>st.
      let ip = rule_ip (i_isSourceIP i) st in
      answer (IsValid ip \<and> Contains_prefix (i_ipnet i) (WithZone '''' ip)) (i_adapter i) st)"

definition Adapter_IPCIDR :: "IPCIDR \<Rightarrow> string" where "Adapter_IPCIDR i = i_adapter i"

definition Payload_IPCIDR :: "IPCIDR \<Rightarrow> string" where "Payload_IPCIDR i = String_prefix (i_ipnet i)"

definition NewIPCIDR :: "string \<Rightarrow> string \<Rightarrow> IPCIDROption list \<Rightarrow> IPCIDR result" where
  "NewIPCIDR s adapter opts =
     (case ParsePrefix s of
        None \<Rightarrow> Inl errPayload
      | Some ipnet \<Rightarrow>
          Inr (foldl (\<lambda>i opt. opt i)
                 \<lparr>i_ipnet = ipnet, i_adapter = adapter, i_isSourceIP = False, i_noResolveIP = False\<rparr> opts))"

record IPSuffix =
  is_ipBytes :: "8 word list"
  is_bits :: int
  is_payload :: string
  is_adapter :: string
  is_isSourceIP :: bool
  is_noResolveIP :: bool

definition RuleType_IPSuffix :: "IPSuffix \<Rightarrow> RuleType" where
  "RuleType_IPSuffix s = (if is_isSourceIP s then SrcIPSuffix_rt else IPSuffix_rt)"

text \<open>The loop over the whole bytes of the suffix: whether bytes \<open>sz - i\<close> to \<open>sz - 1\<close> agree.\<close>

fun suffix_bytes_agree :: "nat \<Rightarrow> int \<Rightarrow> 8 word list \<Rightarrow> 8 word list \<Rightarrow> bool outcome" where
  "suffix_bytes_agree 0 sz a b = Return True"
| "suffix_bytes_agree (Suc i) sz a b =
     obind (idx_get a (sz - int (Suc i))) (\<lambda>x. obind (idx_get b (sz - int (Suc i))) (\<lambda>y.
       if x \<noteq> y then Return False else suffix_bytes_agree i sz a b))"

text \<open>The comparison of the \<open>bits\<close> low bits of two addresses of the same length.\<close>

definition suffix_agrees :: "8 word list \<Rightarrow> 8 word list \<Rightarrow> int \<Rightarrow> bool outcome" where
  "suffix_agrees a b bits =
     (let sz = int (length b) in
      obind (suffix_bytes_agree (nat (bits div 8)) sz a b) (\<lambda>ok.
        if \<not> ok then Return False
        else if bits mod 8 \<noteq> 0 then
          obind (idx_get a (sz - bits div 8 - 1)) (\<lambda>x. obind (idx_get b (sz - bits div 8 - 1)) (\<lambda>y.
            Return (push_bit (nat (8 - bits mod 8)) x = push_bit (nat (8 - bits mod 8)) y)))
        else Return True))"

definition Match_IPSuffix :: "RuleMatchHelper \<Rightarrow> IPSuffix \<Rightarrow> mstate \<Rightarrow> match_result" where
  "Match_IPSuffix h s st0 =
     obind (resolve_for (is_noResolveIP s) (is_isSourceIP s) h st0) (\<lambda>st.
      let mIPBytes = AsSlice (rule_ip (is_isSourceIP s) st) in
      if length (is_ipBytes s) \<noteq> length mIPBytes then answer False '''' st
      else obind (suffix_agrees (is_ipBytes s) mIPBytes (is_bits s)) (\<lambda>ok.
             if ok then answer True (is_adapter s) st else answer False '''' st))"

definition Adapter_IPSuffix :: "IPSuffix \<Rightarrow> string" where "Adapter_IPSuffix s = is_adapter s"

definition Payload_IPSuffix :: "IPSuffix \<Rightarrow> string" where "Payload_IPSuffix s = is_payload s"

definition NewIPSuffix :: "string \<Rightarrow> string \<Rightarrow> bool \<Rightarrow> bool \<Rightarrow> IPSuffix result" where
  "NewIPSuffix payload adapter isSrc noResolveIP =
     (case ParsePrefix payload of
        None \<Rightarrow> Inl errPayload
      | Some ipnet \<Rightarrow>
          Inr \<lparr>is_ipBytes = AsSlice (paddr ipnet), is_bits = int (pbits ipnet), is_payload = payload,
               is_adapter = adapter, is_isSourceIP = isSrc, is_noResolveIP = noResolveIP\<rparr>)"

section \<open>Rules on ports and packets\<close>

record Port =
  p_adapter :: string
  p_port :: string
  p_ruleType :: RuleType
  p_portRanges :: "16 word Range list"

definition RuleType_Port :: "Port \<Rightarrow> RuleType" where "RuleType_Port p = p_ruleType p"

definition Match_Port :: "Port \<Rightarrow> mstate \<Rightarrow> match_result" where
  "Match_Port p st =
     (let targetPort = (case p_ruleType p of
                          InPort_rt \<Rightarrow> InPort (md st) | SrcPort_rt \<Rightarrow> SrcPort (md st) | _ \<Rightarrow> DstPort (md st))
      in answer (Check (p_portRanges p) targetPort) (p_adapter p) st)"

definition Adapter_Port :: "Port \<Rightarrow> string" where "Adapter_Port p = p_adapter p"

definition Payload_Port :: "Port \<Rightarrow> string" where "Payload_Port p = p_port p"

definition NewPort :: "string \<Rightarrow> string \<Rightarrow> RuleType \<Rightarrow> Port result" where
  "NewPort port adapter ruleType =
     (case NewUnsignedRanges port of
        Inl err \<Rightarrow> Inl (errPayload @ '', '' @ err)
      | Inr portRanges \<Rightarrow>
          if length portRanges = 0 then Inl errPayload
          else Inr \<lparr>p_adapter = adapter, p_port = port, p_ruleType = ruleType, p_portRanges = portRanges\<rparr>)"

record DSCP =
  dscp_ranges :: "8 word Range list"
  dscp_payload :: string
  dscp_adapter :: string

definition RuleType_DSCP :: "DSCP \<Rightarrow> RuleType" where "RuleType_DSCP d = DSCP_rt"

definition Match_DSCP :: "DSCP \<Rightarrow> mstate \<Rightarrow> match_result" where
  "Match_DSCP d st = answer (Check (dscp_ranges d) (DSCP (md st))) (dscp_adapter d) st"

definition Adapter_DSCP :: "DSCP \<Rightarrow> string" where "Adapter_DSCP d = dscp_adapter d"

definition Payload_DSCP :: "DSCP \<Rightarrow> string" where "Payload_DSCP d = dscp_payload d"

definition NewDSCP :: "string \<Rightarrow> string \<Rightarrow> DSCP result" where
  "NewDSCP dscp adapter =
     (case NewUnsignedRanges dscp of
        Inl err \<Rightarrow> Inl (''parse DSCP rule fail: '' @ err)
      | Inr ranges \<Rightarrow>
          if \<exists>r\<in>set ranges. endr r > 63 then Inl ''DSCP couldn't be negative or exceed 63''
          else Inr \<lparr>dscp_ranges = ranges, dscp_payload = dscp, dscp_adapter = adapter\<rparr>)"

record NetworkType =
  n_network :: NetWork
  n_adapter :: string

definition NewNetworkType :: "string \<Rightarrow> string \<Rightarrow> NetworkType result" where
  "NewNetworkType network adapter =
     (if ToUpper network = ''TCP'' then Inr \<lparr>n_network = TCP, n_adapter = adapter\<rparr>
      else if ToUpper network = ''UDP'' then Inr \<lparr>n_network = UDP, n_adapter = adapter\<rparr>
      else Inl ''unsupported network type, only TCP/UDP'')"

definition RuleType_NetworkType :: "NetworkType \<Rightarrow> RuleType" where
  "RuleType_NetworkType n = Network_rt"

definition Match_NetworkType :: "NetworkType \<Rightarrow> mstate \<Rightarrow> match_result" where
  "Match_NetworkType n st = answer (n_network n = NetWork (md st)) (n_adapter n) st"

definition Adapter_NetworkType :: "NetworkType \<Rightarrow> string" where "Adapter_NetworkType n = n_adapter n"

definition Payload_NetworkType :: "NetworkType \<Rightarrow> string" where
  "Payload_NetworkType n = String_NetWork (n_network n)"

section \<open>Rules on the inbound\<close>

record InName =
  inn_names :: "string list"
  inn_adapter :: string
  inn_payload :: string

definition Match_InName :: "InName \<Rightarrow> mstate \<Rightarrow> match_result" where
  "Match_InName u st =
     (if InName (md st) \<in> set (inn_names u) then answer True (inn_adapter u) st else answer False '''' st)"

definition RuleType_InName :: "InName \<Rightarrow> RuleType" where "RuleType_InName u = InName_rt"

definition Adapter_InName :: "InName \<Rightarrow> string" where "Adapter_InName u = inn_adapter u"

definition Payload_InName :: "InName \<Rightarrow> string" where "Payload_InName u = inn_payload u"

definition NewInName :: "string \<Rightarrow> string \<Rightarrow> InName result" where
  "NewInName iNames adapter =
     (let names = map TrimSpace (split_on (CHR ''/'') iNames) in
      if '''' \<in> set names then Inl ''in name couldn't be empty''
      else Inr \<lparr>inn_names = names, inn_adapter = adapter, inn_payload = iNames\<rparr>)"

record InUser =
  iu_users :: "string list"
  iu_adapter :: string
  iu_payload :: string

definition Match_InUser :: "InUser \<Rightarrow> mstate \<Rightarrow> match_result" where
  "Match_InUser u st =
     (if InUser (md st) \<in> set (iu_users u) then answer True (iu_adapter u) st else answer False '''' st)"

definition RuleType_InUser :: "InUser \<Rightarrow> RuleType" where "RuleType_InUser u = InUser_rt"

definition Adapter_InUser :: "InUser \<Rightarrow> string" where "Adapter_InUser u = iu_adapter u"

definition Payload_InUser :: "InUser \<Rightarrow> string" where "Payload_InUser u = iu_payload u"

definition NewInUser :: "string \<Rightarrow> string \<Rightarrow> InUser result" where
  "NewInUser iUsers adapter =
     (let users = map TrimSpace (split_on (CHR ''/'') iUsers) in
      if '''' \<in> set users then Inl ''in user couldn't be empty''
      else Inr \<lparr>iu_users = users, iu_adapter = adapter, iu_payload = iUsers\<rparr>)"

record InType =
  it_types :: "Type list"
  it_adapter :: string
  it_payload :: string

definition Match_InType :: "InType \<Rightarrow> mstate \<Rightarrow> match_result" where
  "Match_InType u st =
     (if Type (md st) \<in> set (it_types u) then answer True (it_adapter u) st else answer False '''' st)"

definition RuleType_InType :: "InType \<Rightarrow> RuleType" where "RuleType_InType u = InType_rt"

definition Adapter_InType :: "InType \<Rightarrow> string" where "Adapter_InType u = it_adapter u"

definition Payload_InType :: "InType \<Rightarrow> string" where "Payload_InType u = it_payload u"

fun parseInTypes :: "string list \<Rightarrow> Type list result" where
  "parseInTypes [] = Inr []"
| "parseInTypes (tp # tps) =
     (let utp = ToUpper tp in
      if utp = ''SOCKS'' then
        rbind (ParseType ''SOCKS4'') (\<lambda>r4. rbind (ParseType ''SOCKS5'') (\<lambda>r5.
        rbind (parseInTypes tps) (\<lambda>res. Inr (r4 # r5 # res))))
      else rbind (ParseType utp) (\<lambda>r. rbind (parseInTypes tps) (\<lambda>res. Inr (r # res))))"

definition NewInType :: "string \<Rightarrow> string \<Rightarrow> InType result" where
  "NewInType iTypes adapter =
     (let tys = map TrimSpace (split_on (CHR ''/'') iTypes) in
      if '''' \<in> set tys then Inl ''in type couldn't be empty''
      else rbind (parseInTypes tys) (\<lambda>tps.
             Inr \<lparr>it_types = tps, it_adapter = adapter, it_payload = ToUpper iTypes\<rparr>))"

record RematchName =
  rn_names :: "string list"
  rn_adapter :: string
  rn_payload :: string

definition Match_RematchName :: "RematchName \<Rightarrow> mstate \<Rightarrow> match_result" where
  "Match_RematchName u st =
     (if RematchName (md st) \<in> set (rn_names u) then answer True (rn_adapter u) st else answer False '''' st)"

definition RuleType_RematchName :: "RematchName \<Rightarrow> RuleType" where
  "RuleType_RematchName u = RematchName_rt"

definition Adapter_RematchName :: "RematchName \<Rightarrow> string" where "Adapter_RematchName u = rn_adapter u"

definition Payload_RematchName :: "RematchName \<Rightarrow> string" where "Payload_RematchName u = rn_payload u"

definition NewRematchName :: "string \<Rightarrow> string \<Rightarrow> RematchName result" where
  "NewRematchName iNames adapter =
     (let names = map TrimSpace (split_on (CHR ''/'') iNames) in
      if '''' \<in> set names then Inl ''rematch name couldn't be empty''
      else Inr \<lparr>rn_names = names, rn_adapter = adapter, rn_payload = iNames\<rparr>)"

section \<open>Rules on processes\<close>

record Process =
  ps_pattern :: string
  ps_adapter :: string
  ps_ruleType :: RuleType
  ps_regexp :: "string option"

definition Payload_Process :: "Process \<Rightarrow> string" where "Payload_Process ps = ps_pattern ps"

definition Adapter_Process :: "Process \<Rightarrow> string" where "Adapter_Process ps = ps_adapter ps"

definition RuleType_Process :: "Process \<Rightarrow> RuleType" where "RuleType_Process ps = ps_ruleType ps"

text \<open>Calling a method of a \<open>nil\<close> regular expression panics.\<close>

definition matchTarget :: "env \<Rightarrow> Process \<Rightarrow> string \<Rightarrow> bool outcome" where
  "matchTarget E ps target =
     (if ps_ruleType ps \<in> {ProcessNameRegex_rt, ProcessPathRegex_rt} then
        (case ps_regexp ps of
           None \<Rightarrow> Panic ''nil pointer dereference''
         | Some r \<Rightarrow> Return (regexp2_MatchString E r target))
      else if ps_ruleType ps \<in> {ProcessNameWildcard_rt, ProcessPathWildcard_rt} then
        of_loop (Match_wildcard (ToLower (ps_pattern ps)) (ToLower target))
      else Return (EqualFold target (ps_pattern ps)))"

definition on_name :: "Process \<Rightarrow> bool" where
  "on_name ps = (ps_ruleType ps \<in> {ProcessName_rt, ProcessNameRegex_rt, ProcessNameWildcard_rt})"

definition Match_Process :: "env \<Rightarrow> RuleMatchHelper \<Rightarrow> Process \<Rightarrow> mstate \<Rightarrow> match_result" where
  "Match_Process E h ps st0 =
     obind (call_back (FindProcess h) st0) (\<lambda>st.
      let target = (if on_name ps then Process (md st) else ProcessPath (md st)) in
      obind (matchTarget E ps target) (\<lambda>m. answer m (ps_adapter ps) st))"

text \<open>\<open>filepath.Base\<close> on a system whose separator is a slash.\<close>

definition filepath_Base :: "string \<Rightarrow> string" where
  "filepath_Base path =
     (if path = '''' then ''.''
      else let p = rev (dropWhile (\<lambda>c. c = CHR ''/'') (rev path)) in
        if p = '''' then ''/''
        else rev (takeWhile (\<lambda>c. c \<noteq> CHR ''/'') (rev p)))"

definition MatchProcess_Process :: "env \<Rightarrow> Process \<Rightarrow> string \<Rightarrow> bool outcome" where
  "MatchProcess_Process E ps processPath =
     (let target = (if on_name ps then filepath_Base processPath else processPath) in matchTarget E ps target)"

definition MatchProcessName_Process :: "env \<Rightarrow> Process \<Rightarrow> string \<Rightarrow> bool outcome" where
  "MatchProcessName_Process E ps name = (if on_name ps then matchTarget E ps name else Return True)"

definition NewProcess :: "env \<Rightarrow> string \<Rightarrow> string \<Rightarrow> RuleType \<Rightarrow> Process result" where
  "NewProcess E pattern adapter ruleType =
     (let ps = \<lparr>ps_pattern = pattern, ps_adapter = adapter, ps_ruleType = ruleType, ps_regexp = None\<rparr> in
      if ruleType \<in> {ProcessNameRegex_rt, ProcessPathRegex_rt} then
        rbind (regexp2_Compile E pattern) (\<lambda>r. Inr (ps\<lparr>ps_regexp := Some r\<rparr>))
      else Inr ps)"

record Uid =
  u_uids :: "32 word Range list"
  u_oUid :: string
  u_adapter :: string

definition NewUid :: "env \<Rightarrow> string \<Rightarrow> string \<Rightarrow> Uid result" where
  "NewUid E oUid adapter =
     (if \<not> (GOOS E = ''linux'' \<or> GOOS E = ''android'') then Inl ''uid rule not support this platform''
      else case NewUnsignedRanges oUid of
             Inl err \<Rightarrow> Inl (errPayload @ '', '' @ err)
           | Inr uidRange \<Rightarrow>
               if length uidRange = 0 then Inl errPayload
               else Inr \<lparr>u_uids = uidRange, u_oUid = oUid, u_adapter = adapter\<rparr>)"

definition RuleType_Uid :: "Uid \<Rightarrow> RuleType" where "RuleType_Uid u = Uid_rt"

definition Match_Uid :: "RuleMatchHelper \<Rightarrow> Uid \<Rightarrow> mstate \<Rightarrow> match_result" where
  "Match_Uid h u st0 =
     obind (call_back (FindProcess h) st0) (\<lambda>st.
      if Uid (md st) \<noteq> 0 \<and> Check (u_uids u) (Uid (md st)) then answer True (u_adapter u) st
      else answer False '''' st)"

definition Adapter_Uid :: "Uid \<Rightarrow> string" where "Adapter_Uid u = u_adapter u"

definition Payload_Uid :: "Uid \<Rightarrow> string" where "Payload_Uid u = u_oUid u"

section \<open>The final rule\<close>

record Match =
  m_adapter :: string

definition RuleType_Match :: "Match \<Rightarrow> RuleType" where "RuleType_Match f = MATCH_rt"

definition Match_Match :: "Match \<Rightarrow> mstate \<Rightarrow> match_result" where
  "Match_Match f st = answer True (m_adapter f) st"

definition Adapter_Match :: "Match \<Rightarrow> string" where "Adapter_Match f = m_adapter f"

definition Payload_Match :: "Match \<Rightarrow> string" where "Payload_Match f = ''''"

definition NewMatch :: "string \<Rightarrow> Match" where "NewMatch adapter = \<lparr>m_adapter = adapter\<rparr>"

end
