(* ===== verification/Rules_Match.thy ===== *)
theory Rules_Match
  imports Rules_Common
begin

text \<open>
  Rules that contain rules: the logic rules and sub-rules of \<open>rules/logic/logic.go\<close>, rule sets
  (\<open>rules/provider\<close>), and the wrappers with the hit counters (\<open>rules/wrapper/wrapper.go\<close>).

  The recursion of \<open>Match\<close> goes through the tables of sub-rules and of rule providers, so it is
  bounded by fuel: one unit is used for every list of sub-rules and every provider that is entered,
  and a computation that runs out of it is \<open>Diverges\<close>.  The loops and the methods of the single
  types take the matching of the contained rules as an argument; \<open>Match\<close> closes the knot.
\<close>

section \<open>Rules\<close>

record RuleSet =
  rs_ruleProviderName :: string
  rs_adapter :: string
  rs_isSrc :: bool
  rs_noResolveIP :: bool

text \<open>
  The table of sub-rules that a logic rule points to is the same for all rules of a configuration
  and is part of \<open>conf\<close>.  A wrapper is known by the address of its counters.
\<close>

datatype rule =
    RDomain Domain | RDomainSuffix DomainSuffix | RDomainKeyword DomainKeyword
  | RDomainRegex DomainRegex | RDomainWildcard DomainWildcard | RGEOSITE GEOSITE | RGEOIP GEOIP
  | RASN ASN | RIPCIDR IPCIDR | RIPSuffix IPSuffix | RPort Port | RDSCP DSCP | RInName InName
  | RInUser InUser | RInType InType | RNetworkType NetworkType | RProcess Process
  | RRematchName RematchName | RUid Uid | RMatch Match | RRuleSet RuleSet | RLogic Logic
  | RWrapper nat rule
and Logic =
  Logic (logic_payload: string) (logic_adapter: string) (logic_ruleType: RuleType) (logic_rules: "rule list")

datatype ruleStrategy =
    classicalStrategy (c_rules: "rule list") (c_count: int)
  | domainStrategy "(string \<Rightarrow> bool) option" int
  | ipcidrStrategy "(Addr \<Rightarrow> bool) option" int

record conf =
  RuleProviders :: "string \<Rightarrow> ruleStrategy option option"
  subRules :: "string \<Rightarrow> rule list option"

fun RuleType :: "rule \<Rightarrow> RuleType" where
  "RuleType (RDomain d) = RuleType_Domain d"
| "RuleType (RDomainSuffix d) = RuleType_DomainSuffix d"
| "RuleType (RDomainKeyword d) = RuleType_DomainKeyword d"
| "RuleType (RDomainRegex d) = RuleType_DomainRegex d"
| "RuleType (RDomainWildcard d) = RuleType_DomainWildcard d"
| "RuleType (RGEOSITE g) = RuleType_GEOSITE g"
| "RuleType (RGEOIP g) = RuleType_GEOIP g"
| "RuleType (RASN a) = RuleType_ASN a"
| "RuleType (RIPCIDR i) = RuleType_IPCIDR i"
| "RuleType (RIPSuffix i) = RuleType_IPSuffix i"
| "RuleType (RPort p) = RuleType_Port p"
| "RuleType (RDSCP d) = RuleType_DSCP d"
| "RuleType (RInName u) = RuleType_InName u"
| "RuleType (RInUser u) = RuleType_InUser u"
| "RuleType (RInType u) = RuleType_InType u"
| "RuleType (RNetworkType n) = RuleType_NetworkType n"
| "RuleType (RProcess p) = RuleType_Process p"
| "RuleType (RRematchName u) = RuleType_RematchName u"
| "RuleType (RUid u) = RuleType_Uid u"
| "RuleType (RMatch f) = RuleType_Match f"
| "RuleType (RRuleSet rs) = RuleSet_rt"
| "RuleType (RLogic l) = logic_ruleType l"
| "RuleType (RWrapper a r) = RuleType r"

fun Adapter :: "rule \<Rightarrow> string" where
  "Adapter (RDomain d) = Adapter_Domain d"
| "Adapter (RDomainSuffix d) = Adapter_DomainSuffix d"
| "Adapter (RDomainKeyword d) = Adapter_DomainKeyword d"
| "Adapter (RDomainRegex d) = Adapter_DomainRegex d"
| "Adapter (RDomainWildcard d) = Adapter_DomainWildcard d"
| "Adapter (RGEOSITE g) = Adapter_GEOSITE g"
| "Adapter (RGEOIP g) = Adapter_GEOIP g"
| "Adapter (RASN a) = Adapter_ASN a"
| "Adapter (RIPCIDR i) = Adapter_IPCIDR i"
| "Adapter (RIPSuffix i) = Adapter_IPSuffix i"
| "Adapter (RPort p) = Adapter_Port p"
| "Adapter (RDSCP d) = Adapter_DSCP d"
| "Adapter (RInName u) = Adapter_InName u"
| "Adapter (RInUser u) = Adapter_InUser u"
| "Adapter (RInType u) = Adapter_InType u"
| "Adapter (RNetworkType n) = Adapter_NetworkType n"
| "Adapter (RProcess p) = Adapter_Process p"
| "Adapter (RRematchName u) = Adapter_RematchName u"
| "Adapter (RUid u) = Adapter_Uid u"
| "Adapter (RMatch f) = Adapter_Match f"
| "Adapter (RRuleSet rs) = rs_adapter rs"
| "Adapter (RLogic l) = logic_adapter l"
| "Adapter (RWrapper a r) = Adapter r"

text \<open>The payload of a logic rule is rebuilt from the rules in it.\<close>

definition show_rule :: "rule \<Rightarrow> string \<Rightarrow> string" where
  "show_rule r payload = ''('' @ String_RuleType (RuleType r) @ '','' @ payload @ '')''"

fun show_rules :: "(rule \<Rightarrow> string outcome) \<Rightarrow> rule list \<Rightarrow> string list outcome" where
  "show_rules payload_of [] = Return []"
| "show_rules payload_of (r # rs) =
     obind (payload_of r) (\<lambda>p. obind (show_rules payload_of rs) (\<lambda>ps. Return (show_rule r p # ps)))"

definition Payload_Logic :: "(rule \<Rightarrow> string outcome) \<Rightarrow> Logic \<Rightarrow> string outcome" where
  "Payload_Logic payload_of l =
     (case logic_ruleType l of
        NOT_rt \<Rightarrow>
          obind (idx_get (logic_rules l) 0) (\<lambda>r. obind (payload_of r) (\<lambda>p.
            Return (''(!'' @ show_rule r p @ '')'')))
      | OR_rt \<Rightarrow>
          obind (show_rules payload_of (logic_rules l)) (\<lambda>ps. Return (''('' @ join_with '' || '' ps @ '')''))
      | AND_rt \<Rightarrow>
          obind (show_rules payload_of (logic_rules l)) (\<lambda>ps. Return (''('' @ join_with '' && '' ps @ '')''))
      | _ \<Rightarrow> Return (logic_payload l))"

section \<open>Loops over rules\<close>

text \<open>Whether a rule of the list matches; the loop ends at the first one.\<close>

fun first_match :: "(rule \<Rightarrow> mstate \<Rightarrow> match_result) \<Rightarrow> rule list \<Rightarrow> mstate \<Rightarrow> (bool \<times> mstate) outcome" where
  "first_match m [] st = Return (False, st)"
| "first_match m (r # rs) st =
     obind (m r st) (\<lambda>((b, _), st'). if b then Return (True, st') else first_match m rs st')"

text \<open>Whether all rules match; the loop ends at the first that does not.\<close>

fun all_match :: "(rule \<Rightarrow> mstate \<Rightarrow> match_result) \<Rightarrow> rule list \<Rightarrow> mstate \<Rightarrow> (bool \<times> mstate) outcome" where
  "all_match m [] st = Return (True, st)"
| "all_match m (r # rs) st =
     obind (m r st) (\<lambda>((b, _), st'). if b then all_match m rs st' else Return (False, st'))"

text \<open>Whether a method that some rules do not have holds for one of the rules.\<close>

fun any_rule :: "(rule \<Rightarrow> bool outcome) \<Rightarrow> rule list \<Rightarrow> bool outcome" where
  "any_rule p [] = Return False"
| "any_rule p (r # rs) = obind (p r) (\<lambda>b. if b then Return True else any_rule p rs)"

section \<open>Logic rules\<close>

definition passes :: "RuleMatchHelper \<Rightarrow> string \<Rightarrow> mstate \<Rightarrow> bool outcome" where
  "passes h a st =
     (if a = ''PASS-RULE'' then Return True
      else case CheckPassRule h of None \<Rightarrow> Return False | Some f \<Rightarrow> f a st)"

text \<open>
  The loop of \<open>matchSubRules\<close>: \<open>m\<close> matches one rule, \<open>sub\<close> is the recursive call.  A rule
  that leads to further sub-rules is matched by them a second time.
\<close>

primrec sub_rules_loop ::
  "(rule \<Rightarrow> mstate \<Rightarrow> match_result) \<Rightarrow> (string \<Rightarrow> mstate \<Rightarrow> match_result) \<Rightarrow> RuleMatchHelper \<Rightarrow>
   rule list \<Rightarrow> mstate \<Rightarrow> match_result" where
  "sub_rules_loop m sub h [] = (\<lambda>st. answer False '''' st)"
| "sub_rules_loop m sub h (r # rs) = (\<lambda>st.
     obind (m r st) (\<lambda>((b, a), st1).
       if b then
         obind (if RuleType r = SubRules_rt then sub (Adapter r) st1 else answer b a st1)
           (\<lambda>((b2, a2), st2).
             obind (if b2 then passes h a2 st2 else Return False) (\<lambda>pass.
               if pass then sub_rules_loop m sub h rs st2 else answer b2 a2 st2))
       else sub_rules_loop m sub h rs st1))"

definition rules_of :: "conf \<Rightarrow> string \<Rightarrow> rule list" where
  "rules_of C name = (case subRules C name of None \<Rightarrow> [] | Some rs \<Rightarrow> rs)"

primrec matchSubRules ::
  "(nat \<Rightarrow> rule \<Rightarrow> mstate \<Rightarrow> match_result) \<Rightarrow> conf \<Rightarrow> RuleMatchHelper \<Rightarrow> nat \<Rightarrow> string \<Rightarrow> mstate \<Rightarrow> match_result" where
  "matchSubRules m C h 0 = (\<lambda>name st. Diverges)"
| "matchSubRules m C h (Suc k) =
     (\<lambda>name st. sub_rules_loop (m k) (matchSubRules m C h k) h (rules_of C name) st)"

definition Match_Logic ::
  "(rule \<Rightarrow> mstate \<Rightarrow> match_result) \<Rightarrow> (string \<Rightarrow> mstate \<Rightarrow> match_result) \<Rightarrow> Logic \<Rightarrow> mstate \<Rightarrow> match_result" where
  "Match_Logic m sub l st =
     (case logic_ruleType l of
        SubRules_rt \<Rightarrow>
          obind (idx_get (logic_rules l) 0) (\<lambda>r. obind (m r st) (\<lambda>((b, _), st').
            if b then sub (logic_adapter l) st' else answer False '''' st'))
      | NOT_rt \<Rightarrow>
          obind (idx_get (logic_rules l) 0) (\<lambda>r. obind (m r st) (\<lambda>((b, _), st').
            if \<not> b then answer True (logic_adapter l) st' else answer False '''' st'))
      | OR_rt \<Rightarrow>
          obind (first_match m (logic_rules l) st) (\<lambda>(b, st').
            if b then answer True (logic_adapter l) st' else answer False '''' st')
      | AND_rt \<Rightarrow>
          obind (all_match m (logic_rules l) st) (\<lambda>(b, st'). answer b (logic_adapter l) st')
      | _ \<Rightarrow> answer False '''' st)"

section \<open>Rule sets\<close>

definition Match_classical ::
  "(RuleMatchHelper \<Rightarrow> rule \<Rightarrow> mstate \<Rightarrow> match_result) \<Rightarrow> rule list \<Rightarrow> RuleMatchHelper \<Rightarrow> mstate \<Rightarrow> (bool \<times> mstate) outcome" where
  "Match_classical m rules h st = first_match (m h) rules st"

definition Match_domain :: "(string \<Rightarrow> bool) option \<Rightarrow> mstate \<Rightarrow> (bool \<times> mstate) outcome" where
  "Match_domain domainSet st =
     Return (case domainSet of None \<Rightarrow> False | Some has \<Rightarrow> has (RuleHost (md st)), st)"

definition Match_ipcidr :: "(Addr \<Rightarrow> bool) option \<Rightarrow> RuleMatchHelper \<Rightarrow> mstate \<Rightarrow> (bool \<times> mstate) outcome" where
  "Match_ipcidr cidrSet h st =
     obind (call_back (ResolveIP h) st) (\<lambda>st'.
      Return (case cidrSet of None \<Rightarrow> False | Some isContain \<Rightarrow> isContain (DstIP (md st')), st'))"

definition Match_baseProvider ::
  "(RuleMatchHelper \<Rightarrow> rule \<Rightarrow> mstate \<Rightarrow> match_result) \<Rightarrow> ruleStrategy option \<Rightarrow> RuleMatchHelper \<Rightarrow> mstate \<Rightarrow> (bool \<times> mstate) outcome" where
  "Match_baseProvider m strategy h st =
     (case strategy of
        None \<Rightarrow> Return (False, st)
      | Some (classicalStrategy rules _) \<Rightarrow> Match_classical m rules h st
      | Some (domainStrategy domainSet _) \<Rightarrow> Match_domain domainSet st
      | Some (ipcidrStrategy cidrSet _) \<Rightarrow> Match_ipcidr cidrSet h st)"

definition swap_md :: "mstate \<Rightarrow> mstate" where
  "swap_md st = st\<lparr>md := SwapSrcDst (md st)\<rparr>"

definition Match_RuleSet ::
  "(ruleStrategy option \<Rightarrow> RuleMatchHelper \<Rightarrow> mstate \<Rightarrow> (bool \<times> mstate) outcome) \<Rightarrow> conf \<Rightarrow>
   RuleMatchHelper \<Rightarrow> RuleSet \<Rightarrow> mstate \<Rightarrow> match_result" where
  "Match_RuleSet provider_match C h rs st =
     (case RuleProviders C (rs_ruleProviderName rs) of
        None \<Rightarrow> answer False '''' st
      | Some provider \<Rightarrow>
          if rs_isSrc rs then
            obind (provider_match provider (h\<lparr>ResolveIP := None\<rparr>) (swap_md st)) (\<lambda>(b, st').
              answer b (rs_adapter rs) (swap_md st'))
          else
            obind (provider_match provider (if rs_noResolveIP rs then h\<lparr>ResolveIP := None\<rparr> else h) st)
              (\<lambda>(b, st'). answer b (rs_adapter rs) st'))"

definition NewRuleSet :: "string \<Rightarrow> string \<Rightarrow> bool \<Rightarrow> bool \<Rightarrow> RuleSet" where
  "NewRuleSet ruleProviderName adapter isSrc noResolveIP =
     \<lparr>rs_ruleProviderName = ruleProviderName, rs_adapter = adapter, rs_isSrc = isSrc,
      rs_noResolveIP = noResolveIP\<rparr>"

section \<open>Wrappers\<close>

definition set_wrapper :: "nat \<Rightarrow> RuleWrapper \<Rightarrow> mstate \<Rightarrow> mstate" where
  "set_wrapper a w st = st\<lparr>wrappers := (wrappers st)(a := w)\<rparr>"

definition IsDisabled :: "nat \<Rightarrow> mstate \<Rightarrow> bool" where
  "IsDisabled a st = disabled (wrappers st a)"

definition SetDisabled :: "nat \<Rightarrow> bool \<Rightarrow> mstate \<Rightarrow> mstate" where
  "SetDisabled a v st = set_wrapper a ((wrappers st a)\<lparr>disabled := v\<rparr>) st"

definition HitCount :: "nat \<Rightarrow> mstate \<Rightarrow> 64 word" where "HitCount a st = hitCount (wrappers st a)"

definition MissCount :: "nat \<Rightarrow> mstate \<Rightarrow> 64 word" where "MissCount a st = missCount (wrappers st a)"

definition Hit :: "nat \<Rightarrow> mstate \<Rightarrow> mstate" where
  "Hit a st =
     (case time_Now st of (now, st1) \<Rightarrow>
        set_wrapper a ((wrappers st1 a)\<lparr>hitCount := hitCount (wrappers st1 a) + 1, hitAt := now\<rparr>) st1)"

definition Miss :: "nat \<Rightarrow> mstate \<Rightarrow> mstate" where
  "Miss a st =
     (case time_Now st of (now, st1) \<Rightarrow>
        set_wrapper a ((wrappers st1 a)\<lparr>missCount := missCount (wrappers st1 a) + 1, missAt := now\<rparr>) st1)"

definition Match_RuleWrapper :: "(mstate \<Rightarrow> match_result) \<Rightarrow> RuleMatchHelper \<Rightarrow> nat \<Rightarrow> mstate \<Rightarrow> match_result" where
  "Match_RuleWrapper m h a st =
     (if IsDisabled a st then answer False '''' st
      else obind (m st) (\<lambda>((ok, adapter), st').
        if Diagnostic h then answer ok adapter st'
        else answer ok adapter (if ok then Hit a st' else Miss a st')))"

section \<open>Process lookups\<close>

text \<open>
  \<open>HasProcessRule\<close>, \<open>MatchProcess\<close> and \<open>MatchProcessName\<close> of the containers; the argument
  gives the method of the rules in them.
\<close>

definition HasProcessRule_Logic :: "(rule \<Rightarrow> bool outcome) \<Rightarrow> Logic \<Rightarrow> bool outcome" where
  "HasProcessRule_Logic p l =
     (if logic_ruleType l = SubRules_rt then Return True else any_rule p (logic_rules l))"

definition MatchProcess_Logic :: "(rule \<Rightarrow> bool outcome) \<Rightarrow> Logic \<Rightarrow> bool outcome" where
  "MatchProcess_Logic p l =
     (if logic_ruleType l = SubRules_rt then Return True else any_rule p (logic_rules l))"

definition MatchProcessName_Logic :: "(rule \<Rightarrow> bool outcome) \<Rightarrow> Logic \<Rightarrow> bool outcome" where
  "MatchProcessName_Logic p l =
     (if logic_ruleType l = SubRules_rt then Return True else any_rule p (logic_rules l))"

text \<open>Only the strategy of classical rules has the methods.\<close>

definition HasProcessRule_RuleSet :: "(rule \<Rightarrow> bool outcome) \<Rightarrow> conf \<Rightarrow> RuleSet \<Rightarrow> bool outcome" where
  "HasProcessRule_RuleSet p C rs =
     (case RuleProviders C (rs_ruleProviderName rs) of
        Some (Some (classicalStrategy rules _)) \<Rightarrow> any_rule p rules
      | _ \<Rightarrow> Return False)"

definition MatchProcess_RuleSet :: "(rule \<Rightarrow> bool outcome) \<Rightarrow> conf \<Rightarrow> RuleSet \<Rightarrow> bool outcome" where
  "MatchProcess_RuleSet p C rs =
     (case RuleProviders C (rs_ruleProviderName rs) of
        Some (Some (classicalStrategy rules _)) \<Rightarrow> any_rule p rules
      | _ \<Rightarrow> Return False)"

definition MatchProcessName_RuleSet :: "(rule \<Rightarrow> bool outcome) \<Rightarrow> conf \<Rightarrow> RuleSet \<Rightarrow> bool outcome" where
  "MatchProcessName_RuleSet p C rs =
     (case RuleProviders C (rs_ruleProviderName rs) of
        Some (Some (classicalStrategy rules _)) \<Rightarrow> any_rule p rules
      | _ \<Rightarrow> Return False)"

definition HasProcessRule_RuleWrapper :: "bool outcome \<Rightarrow> nat \<Rightarrow> mstate \<Rightarrow> bool outcome" where
  "HasProcessRule_RuleWrapper inner a st = (if IsDisabled a st then Return False else inner)"

section \<open>Matching\<close>

lemma first_match_cong [fundef_cong]:
  assumes "rs = rs'" "st = st'" "\<And>r s. r \<in> set rs' \<Longrightarrow> m r s = m' r s"
  shows "first_match m rs st = first_match m' rs' st'"
proof -
  have "(\<And>r s. r \<in> set xs \<Longrightarrow> m r s = m' r s) \<Longrightarrow> first_match m xs t = first_match m' xs t" for xs t
  proof (induction xs arbitrary: t)
    case (Cons x xs)
    have "first_match m xs s = first_match m' xs s" for s using Cons by simp
    thus ?case using Cons.prems[of x] by (simp cong: if_cong)
  qed simp
  thus ?thesis using assms by simp
qed

lemma all_match_cong [fundef_cong]:
  assumes "rs = rs'" "st = st'" "\<And>r s. r \<in> set rs' \<Longrightarrow> m r s = m' r s"
  shows "all_match m rs st = all_match m' rs' st'"
proof -
  have "(\<And>r s. r \<in> set xs \<Longrightarrow> m r s = m' r s) \<Longrightarrow> all_match m xs t = all_match m' xs t" for xs t
  proof (induction xs arbitrary: t)
    case (Cons x xs)
    have "all_match m xs s = all_match m' xs s" for s using Cons by simp
    thus ?case using Cons.prems[of x] by (simp cong: if_cong)
  qed simp
  thus ?thesis using assms by simp
qed

lemma idx_get_in_set: "idx_get xs i = Return x \<Longrightarrow> x \<in> set xs"
  by (auto simp: idx_get_def split: if_splits)

lemma obind_cong: "m = m' \<Longrightarrow> (\<And>x. m' = Return x \<Longrightarrow> f x = g x) \<Longrightarrow> obind m f = obind m' g"
  by (cases m') auto

lemma Match_Logic_cong [fundef_cong]:
  assumes "l = l'" "st = st'" "\<And>r s. r \<in> set (logic_rules l') \<Longrightarrow> m r s = m' r s"
    and "\<And>n s. sub n s = sub' n s"
  shows "Match_Logic m sub l st = Match_Logic m' sub' l' st'"
proof -
  have "sub = sub'" using assms(4) by (intro ext)
  moreover have "first_match m (logic_rules l') st' = first_match m' (logic_rules l') st'"
    "all_match m (logic_rules l') st' = all_match m' (logic_rules l') st'"
    using assms(3) by (simp_all cong: first_match_cong all_match_cong)
  ultimately show ?thesis unfolding assms(1,2) Match_Logic_def
    by (auto split: RuleType.split intro!: obind_cong dest!: idx_get_in_set simp: assms(3))
qed

lemma sub_rules_loop_cong:
  assumes "\<And>r s. r \<in> set rs \<Longrightarrow> m r s = m' r s" and "\<And>n s. sub n s = sub' n s"
  shows "sub_rules_loop m sub h rs st = sub_rules_loop m' sub' h rs st"
  using assms(1)
proof (induction rs arbitrary: st)
  case (Cons r rs)
  have "sub_rules_loop m sub h rs s = sub_rules_loop m' sub' h rs s" for s using Cons by simp
  moreover have "sub = sub'" using assms(2) by (intro ext)
  ultimately show ?case using Cons.prems[of r] by (simp cong: if_cong)
qed simp

lemma matchSubRules_cong [fundef_cong]:
  assumes "C = C'" "h = h'" "n = n'" "name = name'" "st = st'"
    and "\<And>k r s. k < n' \<Longrightarrow> m k r s = m' k r s"
  shows "matchSubRules m C h n name st = matchSubRules m' C' h' n' name' st'"
proof -
  have "(\<And>k r s. k < j \<Longrightarrow> m k r s = m' k r s) \<Longrightarrow> matchSubRules m C h j nm t = matchSubRules m' C h j nm t" for j nm t
  proof (induction j arbitrary: nm t)
    case (Suc j)
    thus ?case by (auto intro!: sub_rules_loop_cong)
  qed simp
  thus ?thesis using assms by simp
qed

function Match :: "nat \<Rightarrow> env \<Rightarrow> conf \<Rightarrow> RuleMatchHelper \<Rightarrow> rule \<Rightarrow> mstate \<Rightarrow> match_result" where
  "Match n E C h (RDomain d) st = Match_Domain d st"
| "Match n E C h (RDomainSuffix d) st = Match_DomainSuffix d st"
| "Match n E C h (RDomainKeyword d) st = Match_DomainKeyword d st"
| "Match n E C h (RDomainRegex d) st = Match_DomainRegex E d st"
| "Match n E C h (RDomainWildcard d) st = Match_DomainWildcard d st"
| "Match n E C h (RGEOSITE g) st = Match_GEOSITE E g st"
| "Match n E C h (RGEOIP g) st = Match_GEOIP E h g st"
| "Match n E C h (RASN a) st = Match_ASN E h a st"
| "Match n E C h (RIPCIDR i) st = Match_IPCIDR h i st"
| "Match n E C h (RIPSuffix i) st = Match_IPSuffix h i st"
| "Match n E C h (RPort p) st = Match_Port p st"
| "Match n E C h (RDSCP d) st = Match_DSCP d st"
| "Match n E C h (RInName u) st = Match_InName u st"
| "Match n E C h (RInUser u) st = Match_InUser u st"
| "Match n E C h (RInType u) st = Match_InType u st"
| "Match n E C h (RNetworkType t) st = Match_NetworkType t st"
| "Match n E C h (RProcess p) st = Match_Process E h p st"
| "Match n E C h (RRematchName u) st = Match_RematchName u st"
| "Match n E C h (RUid u) st = Match_Uid h u st"
| "Match n E C h (RMatch f) st = Match_Match f st"
| "Match n E C h (RRuleSet rs) st =
     (case n of
        0 \<Rightarrow> Diverges
      | Suc k \<Rightarrow> Match_RuleSet (Match_baseProvider (\<lambda>h' r st'. Match k E C h' r st')) C h rs st)"
| "Match n E C h (RLogic l) st =
     Match_Logic (\<lambda>r st'. Match n E C h r st')
       (\<lambda>name st'. matchSubRules (\<lambda>k r st''. Match k E C h r st'') C h n name st') l st"
| "Match n E C h (RWrapper a r) st = Match_RuleWrapper (\<lambda>st'. Match n E C h r st') h a st"
  by pat_completeness auto
termination
proof (relation "inv_image (less_than <*lex*> less_than) (\<lambda>(n, E, C, h, r, st). (n, size r))", goal_cases)
  case (3 n E C h l st r st')
  have "size r < size l" by (cases l) (use 3 in \<open>auto dest: size_list_estimation'[of _ _ "size r" size]\<close>)
  thus ?case by simp
qed auto

section \<open>Other methods that descend into rules\<close>

lemma any_rule_cong [fundef_cong]:
  assumes "rs = rs'" "\<And>r. r \<in> set rs' \<Longrightarrow> p r = q r"
  shows "any_rule p rs = any_rule q rs'"
proof -
  have "(\<And>r. r \<in> set xs \<Longrightarrow> p r = q r) \<Longrightarrow> any_rule p xs = any_rule q xs" for xs
    by (induction xs) (simp_all cong: if_cong)
  thus ?thesis using assms by simp
qed

lemma process_logic_cong [fundef_cong]:
  assumes "l = l'" "\<And>r. r \<in> set (logic_rules l') \<Longrightarrow> p r = q r"
  shows "HasProcessRule_Logic p l = HasProcessRule_Logic q l'"
    and "MatchProcess_Logic p l = MatchProcess_Logic q l'"
    and "MatchProcessName_Logic p l = MatchProcessName_Logic q l'"
  using assms any_rule_cong[of "logic_rules l" "logic_rules l'" p q]
  by (simp_all add: HasProcessRule_Logic_def MatchProcess_Logic_def MatchProcessName_Logic_def)

lemma Payload_Logic_cong [fundef_cong]:
  assumes "l = l'" "\<And>r. r \<in> set (logic_rules l') \<Longrightarrow> p r = q r"
  shows "Payload_Logic p l = Payload_Logic q l'"
proof -
  have "(\<And>r. r \<in> set xs \<Longrightarrow> p r = q r) \<Longrightarrow> show_rules p xs = show_rules q xs" for xs
    by (induction xs) simp_all
  hence "show_rules p (logic_rules l') = show_rules q (logic_rules l')" using assms(2) by blast
  thus ?thesis unfolding assms(1) Payload_Logic_def
    by (auto split: RuleType.split intro!: obind_cong dest!: idx_get_in_set simp: assms(2))
qed

lemma logic_size: "r \<in> set (logic_rules l) \<Longrightarrow> size r < size l"
  by (cases l) (auto dest: size_list_estimation'[of _ _ "size r" size])

function Payload :: "rule \<Rightarrow> string outcome" where
  "Payload (RDomain d) = Return (Payload_Domain d)"
| "Payload (RDomainSuffix d) = Return (Payload_DomainSuffix d)"
| "Payload (RDomainKeyword d) = Return (Payload_DomainKeyword d)"
| "Payload (RDomainRegex d) = Return (Payload_DomainRegex d)"
| "Payload (RDomainWildcard d) = Return (Payload_DomainWildcard d)"
| "Payload (RGEOSITE g) = Return (Payload_GEOSITE g)"
| "Payload (RGEOIP g) = Return (Payload_GEOIP g)"
| "Payload (RASN a) = Return (Payload_ASN a)"
| "Payload (RIPCIDR i) = Return (Payload_IPCIDR i)"
| "Payload (RIPSuffix i) = Return (Payload_IPSuffix i)"
| "Payload (RPort p) = Return (Payload_Port p)"
| "Payload (RDSCP d) = Return (Payload_DSCP d)"
| "Payload (RInName u) = Return (Payload_InName u)"
| "Payload (RInUser u) = Return (Payload_InUser u)"
| "Payload (RInType u) = Return (Payload_InType u)"
| "Payload (RNetworkType t) = Return (Payload_NetworkType t)"
| "Payload (RProcess p) = Return (Payload_Process p)"
| "Payload (RRematchName u) = Return (Payload_RematchName u)"
| "Payload (RUid u) = Return (Payload_Uid u)"
| "Payload (RMatch f) = Return (Payload_Match f)"
| "Payload (RRuleSet rs) = Return (rs_ruleProviderName rs)"
| "Payload (RLogic l) = Payload_Logic (\<lambda>r. Payload r) l"
| "Payload (RWrapper a r) = Payload r"
  by pat_completeness auto
termination by (relation "measure size") (auto dest: logic_size)

function (sequential) ProviderNames :: "rule \<Rightarrow> string list" where
  "ProviderNames (RRuleSet rs) = [rs_ruleProviderName rs]"
| "ProviderNames (RLogic l) = concat (map (\<lambda>r. ProviderNames r) (logic_rules l))"
| "ProviderNames (RWrapper a r) = ProviderNames r"
| "ProviderNames _ = []"
  by pat_completeness auto
termination by (relation "measure size") (auto dest: logic_size)

text \<open>
  The optional methods of the rules, with one unit of fuel for every provider entered; \<open>False\<close>
  stands for a rule without the method.
\<close>

function (sequential) HasProcessRule :: "nat \<Rightarrow> conf \<Rightarrow> mstate \<Rightarrow> rule \<Rightarrow> bool outcome" where
  "HasProcessRule n C st (RProcess ps) = Return True"
| "HasProcessRule n C st (RUid u) = Return True"
| "HasProcessRule n C st (RLogic l) = HasProcessRule_Logic (\<lambda>r. HasProcessRule n C st r) l"
| "HasProcessRule n C st (RRuleSet rs) =
     (case n of 0 \<Rightarrow> Diverges | Suc k \<Rightarrow> HasProcessRule_RuleSet (\<lambda>r. HasProcessRule k C st r) C rs)"
| "HasProcessRule n C st (RWrapper a r) = HasProcessRule_RuleWrapper (HasProcessRule n C st r) a st"
| "HasProcessRule n C st _ = Return False"
  by pat_completeness auto
termination by (relation "inv_image (less_than <*lex*> less_than) (\<lambda>(n, C, st, r). (n, size r))") (auto dest: logic_size)

function (sequential) MatchProcess :: "nat \<Rightarrow> env \<Rightarrow> conf \<Rightarrow> string \<Rightarrow> rule \<Rightarrow> bool outcome" where
  "MatchProcess n E C path (RProcess ps) = MatchProcess_Process E ps path"
| "MatchProcess n E C path (RUid u) = Return True"
| "MatchProcess n E C path (RLogic l) = MatchProcess_Logic (\<lambda>r. MatchProcess n E C path r) l"
| "MatchProcess n E C path (RRuleSet rs) =
     (case n of 0 \<Rightarrow> Diverges | Suc k \<Rightarrow> MatchProcess_RuleSet (\<lambda>r. MatchProcess k E C path r) C rs)"
| "MatchProcess n E C path (RWrapper a r) = MatchProcess n E C path r"
| "MatchProcess n E C path _ = Return False"
  by pat_completeness auto
termination by (relation "inv_image (less_than <*lex*> less_than) (\<lambda>(n, E, C, path, r). (n, size r))") (auto dest: logic_size)

function (sequential) MatchProcessName :: "nat \<Rightarrow> env \<Rightarrow> conf \<Rightarrow> string \<Rightarrow> rule \<Rightarrow> bool outcome" where
  "MatchProcessName n E C name (RProcess ps) = MatchProcessName_Process E ps name"
| "MatchProcessName n E C name (RUid u) = Return True"
| "MatchProcessName n E C name (RLogic l) = MatchProcessName_Logic (\<lambda>r. MatchProcessName n E C name r) l"
| "MatchProcessName n E C name (RRuleSet rs) =
     (case n of 0 \<Rightarrow> Diverges | Suc k \<Rightarrow> MatchProcessName_RuleSet (\<lambda>r. MatchProcessName k E C name r) C rs)"
| "MatchProcessName n E C name (RWrapper a r) = MatchProcessName n E C name r"
| "MatchProcessName n E C name _ = Return False"
  by pat_completeness auto
termination by (relation "inv_image (less_than <*lex*> less_than) (\<lambda>(n, E, C, name, r). (n, size r))") (auto dest: logic_size)

text \<open>The matchers that a rule set offers to the DNS server.\<close>

definition MatchDomain_RuleSet :: "nat \<Rightarrow> env \<Rightarrow> conf \<Rightarrow> RuleSet \<Rightarrow> string \<Rightarrow> mstate \<Rightarrow> bool outcome" where
  "MatchDomain_RuleSet n E C rs domain st =
     obind (Match n E C no_helper (RRuleSet rs) (st\<lparr>md := zero_metadata\<lparr>Host := domain\<rparr>\<rparr>)) (\<lambda>((ok, _), _). Return ok)"

definition MatchIp_RuleSet :: "nat \<Rightarrow> env \<Rightarrow> conf \<Rightarrow> RuleSet \<Rightarrow> Addr \<Rightarrow> mstate \<Rightarrow> bool outcome" where
  "MatchIp_RuleSet n E C rs ip st =
     obind (Match n E C no_helper (RRuleSet rs) (st\<lparr>md := zero_metadata\<lparr>DstIP := ip\<rparr>\<rparr>)) (\<lambda>((ok, _), _). Return ok)"

end
