(* ===== verification/Rules_Parse.thy ===== *)
theory Rules_Parse
  imports Rules_Match
begin

text \<open>
  Parsing of rules: \<open>rules/common/base.go\<close>, the payloads of logic rules
  (\<open>rules/logic/logic.go\<close>), \<open>rules/parser.go\<close>, the classical rule provider, and the parsing
  and checking of rules and sub-rules in \<open>config/config.go\<close>.

  A parser can fail with an error, so its result is a sum; the parsers that call each other also
  take fuel, and run out of it as \<open>Diverges\<close>.  The nesting of a rule is bounded by the length of
  its text, so \<open>Suc (length payload)\<close> is always enough.
\<close>

section \<open>The parts of a rule\<close>

definition ParseParams :: "string list \<Rightarrow> bool \<times> bool" where
  "ParseParams params =
     (let isSrc = (''src'' \<in> set params) in (isSrc, if isSrc then True else ''no-resolve'' \<in> set params))"

definition trimArr :: "string list \<Rightarrow> string list" where
  "trimArr arr = map (trim_set {CHR '' ''}) arr"

definition comma_payload_types :: "string list" where
  "comma_payload_types =
     [''NOT'', ''OR'', ''AND'', ''SUB-RULE'', ''DOMAIN-REGEX'', ''PROCESS-NAME-REGEX'', ''PROCESS-PATH-REGEX'']"

text \<open>The type, the payload, the target and the parameters.\<close>

definition ParseRulePayload :: "string \<Rightarrow> bool \<Rightarrow> string \<times> string \<times> string \<times> string list" where
  "ParseRulePayload ruleRaw needTarget =
     (let item = trimArr (split_on (CHR '','') ruleRaw);
          tp = ToUpper (item ! 0);
          l = length item in
      if l > 1 then
        (if tp = ''MATCH'' then (tp, '''', item ! 1, [])
         else if tp \<in> set comma_payload_types then
           (if needTarget then (tp, join_with '','' (drop 1 (take (l - 1) item)), item ! (l - 1), [])
            else (tp, join_with '','' (drop 1 item), '''', []))
         else
           (tp, item ! 1,
            if l > 2 \<and> needTarget then item ! 2 else '''',
            if needTarget then drop 3 item else drop 2 item))
      else (tp, '''', '''', []))"

section \<open>The payload of a logic rule\<close>

definition containRange :: "nat Range \<Rightarrow> nat \<Rightarrow> nat \<Rightarrow> bool" where
  "containRange r preStart preEnd = (preStart < start r \<and> preEnd > endr r)"

text \<open>
  The loop of \<open>format\<close>: the position, the stack of open parentheses with its top at the head, and
  the pairs found so far.
\<close>

fun format_loop :: "nat \<Rightarrow> nat list \<Rightarrow> nat Range list \<Rightarrow> string \<Rightarrow> nat Range list result" where
  "format_loop i stack subRanges [] =
     (if length stack \<noteq> 0 then Inl ''format error is missing )'' else Inr subRanges)"
| "format_loop i stack subRanges (c # cs) =
     (if c = CHR ''('' then format_loop (Suc i) (i # stack) subRanges cs
      else if c = CHR '')'' then
        (case stack of
           [] \<Rightarrow> Inl ''missing '(' ''
         | s # stack' \<Rightarrow> format_loop (Suc i) stack' (subRanges @ [\<lparr>start = s, endr = i\<rparr>]) cs)
      else format_loop (Suc i) stack subRanges cs)"

text \<open>The starts are all different, so the order of the sorted ranges is determined.\<close>

definition format :: "string \<Rightarrow> nat Range list result" where
  "format payload = rbind (format_loop 0 [] [] payload) (\<lambda>subRanges. Inr (sort_key start subRanges))"

text \<open>The body of the loop of \<open>findSubRuleRange\<close>.\<close>

definition keep_range :: "string \<Rightarrow> nat Range list \<Rightarrow> nat Range \<Rightarrow> nat Range list" where
  "keep_range payload subRuleRange rr =
     (if start rr = 0 \<and> int (endr rr) = int (length payload) - 1 then subRuleRange
      else if \<exists>r\<in>set subRuleRange. containRange rr (start r) (endr r) then subRuleRange
      else subRuleRange @ [rr])"

definition findSubRuleRange :: "string \<Rightarrow> nat Range list \<Rightarrow> nat Range list" where
  "findSubRuleRange payload ruleRanges = foldl (keep_range payload) [] ruleRanges"

section \<open>Parsing rules\<close>

type_synonym ParseRuleFunc = "string \<Rightarrow> string \<Rightarrow> string \<Rightarrow> string list \<Rightarrow> rule result outcome"

definition robind :: "'a result outcome \<Rightarrow> ('a \<Rightarrow> 'b result outcome) \<Rightarrow> 'b result outcome" where
  "robind m f = obind m (\<lambda>r. case r of Inl e \<Rightarrow> Return (Inl e) | Inr x \<Rightarrow> f x)"

definition payloadToRule :: "ParseRuleFunc \<Rightarrow> string \<Rightarrow> rule result outcome" where
  "payloadToRule parseRule subPayload =
     (case ParseRulePayload subPayload False of (tp, payload, target, param) \<Rightarrow>
        if tp = ''MATCH'' \<or> tp = ''SUB-RULE''
        then Return (Inl (''unsupported rule type ['' @ tp @ ''] on logic rule''))
        else if tp = '''' then Return (Inl (''['' @ subPayload @ ''] format is error''))
        else parseRule tp payload target param)"

fun parse_ranges :: "ParseRuleFunc \<Rightarrow> string \<Rightarrow> nat Range list \<Rightarrow> rule list result outcome" where
  "parse_ranges parseRule payload [] = Return (Inr [])"
| "parse_ranges parseRule payload (r # rs) =
     obind (slice_of payload (int (start r) + 1) (int (endr r))) (\<lambda>subPayload.
     robind (payloadToRule parseRule subPayload) (\<lambda>rule.
     robind (parse_ranges parseRule payload rs) (\<lambda>rules. Return (Inr (rule # rules)))))"

definition parsePayload :: "string \<Rightarrow> ParseRuleFunc \<Rightarrow> rule list result outcome" where
  "parsePayload payload parseRule =
     (if \<not> HasPrefix payload ''('' \<or> \<not> HasSuffix payload '')'' then Return (Inl ''payload format error'')
      else case format payload of
             Inl err \<Rightarrow> Return (Inl err)
           | Inr subAllRanges \<Rightarrow> parse_ranges parseRule payload (findSubRuleRange payload subAllRanges))"

definition NewSubRule :: "string \<Rightarrow> string \<Rightarrow> ParseRuleFunc \<Rightarrow> Logic result outcome" where
  "NewSubRule payload adapter parseRule =
     robind (parsePayload (''('' @ payload @ '')'') parseRule) (\<lambda>rules.
       if length rules \<noteq> 1 then Return (Inl ''Sub-Rule rule must contain one rule'')
       else Return (Inr (Logic payload adapter SubRules_rt rules)))"

definition NewNOT :: "string \<Rightarrow> string \<Rightarrow> ParseRuleFunc \<Rightarrow> Logic result outcome" where
  "NewNOT payload adapter parseRule =
     robind (parsePayload payload parseRule) (\<lambda>rules.
       if length rules \<noteq> 1 then Return (Inl ''not rule must contain one rule'')
       else Return (Inr (Logic payload adapter NOT_rt rules)))"

definition NewOR :: "string \<Rightarrow> string \<Rightarrow> ParseRuleFunc \<Rightarrow> Logic result outcome" where
  "NewOR payload adapter parseRule =
     robind (parsePayload payload parseRule) (\<lambda>rules. Return (Inr (Logic payload adapter OR_rt rules)))"

definition NewAND :: "string \<Rightarrow> string \<Rightarrow> ParseRuleFunc \<Rightarrow> Logic result outcome" where
  "NewAND payload adapter parseRule =
     robind (parsePayload payload parseRule) (\<lambda>rules. Return (Inr (Logic payload adapter AND_rt rules)))"

definition made :: "('a \<Rightarrow> rule) \<Rightarrow> 'a result \<Rightarrow> rule result outcome" where
  "made C r = Return (rbind r (\<lambda>x. Inr (C x)))"

definition made_logic :: "Logic result outcome \<Rightarrow> rule result outcome" where
  "made_logic r = robind r (\<lambda>l. Return (Inr (RLogic l)))"

primrec ParseRule :: "nat \<Rightarrow> env \<Rightarrow> ParseRuleFunc" where
  "ParseRule 0 E = (\<lambda>tp payload target params. Diverges)"
| "ParseRule (Suc n) E = (\<lambda>tp payload target params.
     let (isSrc, noResolve) = ParseParams params in
     if tp \<noteq> ''MATCH'' \<and> payload = '''' then Return (Inl (''missing subsequent parameters: '' @ tp))
     else if tp = ''DOMAIN'' then made RDomain (Inr (NewDomain payload target))
     else if tp = ''DOMAIN-SUFFIX'' then made RDomainSuffix (Inr (NewDomainSuffix payload target))
     else if tp = ''DOMAIN-KEYWORD'' then made RDomainKeyword (Inr (NewDomainKeyword payload target))
     else if tp = ''DOMAIN-REGEX'' then made RDomainRegex (NewDomainRegex E payload target)
     else if tp = ''DOMAIN-WILDCARD'' then made RDomainWildcard (Inr (NewDomainWildcard payload target))
     else if tp = ''GEOSITE'' then made RGEOSITE (NewGEOSITE E payload target)
     else if tp = ''GEOIP'' then made RGEOIP (NewGEOIP E payload target isSrc noResolve)
     else if tp = ''SRC-GEOIP'' then made RGEOIP (NewGEOIP E payload target True True)
     else if tp = ''IP-ASN'' then made RASN (NewIPASN E payload target isSrc noResolve)
     else if tp = ''SRC-IP-ASN'' then made RASN (NewIPASN E payload target True True)
     else if tp = ''IP-CIDR'' \<or> tp = ''IP-CIDR6'' then
       made RIPCIDR (NewIPCIDR payload target [WithIPCIDRSourceIP isSrc, WithIPCIDRNoResolve noResolve])
     else if tp = ''SRC-IP-CIDR'' then
       made RIPCIDR (NewIPCIDR payload target [WithIPCIDRSourceIP True, WithIPCIDRNoResolve True])
     else if tp = ''IP-SUFFIX'' then made RIPSuffix (NewIPSuffix payload target isSrc noResolve)
     else if tp = ''SRC-IP-SUFFIX'' then made RIPSuffix (NewIPSuffix payload target True True)
     else if tp = ''SRC-PORT'' then made RPort (NewPort payload target SrcPort_rt)
     else if tp = ''DST-PORT'' then made RPort (NewPort payload target DstPort_rt)
     else if tp = ''IN-PORT'' then made RPort (NewPort payload target InPort_rt)
     else if tp = ''DSCP'' then made RDSCP (NewDSCP payload target)
     else if tp = ''PROCESS-NAME'' then made RProcess (NewProcess E payload target ProcessName_rt)
     else if tp = ''PROCESS-PATH'' then made RProcess (NewProcess E payload target ProcessPath_rt)
     else if tp = ''PROCESS-NAME-REGEX'' then made RProcess (NewProcess E payload target ProcessNameRegex_rt)
     else if tp = ''PROCESS-PATH-REGEX'' then made RProcess (NewProcess E payload target ProcessPathRegex_rt)
     else if tp = ''PROCESS-NAME-WILDCARD'' then made RProcess (NewProcess E payload target ProcessNameWildcard_rt)
     else if tp = ''PROCESS-PATH-WILDCARD'' then made RProcess (NewProcess E payload target ProcessPathWildcard_rt)
     else if tp = ''NETWORK'' then made RNetworkType (NewNetworkType payload target)
     else if tp = ''UID'' then made RUid (NewUid E payload target)
     else if tp = ''IN-TYPE'' then made RInType (NewInType payload target)
     else if tp = ''IN-USER'' then made RInUser (NewInUser payload target)
     else if tp = ''IN-NAME'' then made RInName (NewInName payload target)
     else if tp = ''REMATCH-NAME'' then made RRematchName (NewRematchName payload target)
     else if tp = ''SUB-RULE'' then made_logic (NewSubRule payload target (ParseRule n E))
     else if tp = ''AND'' then made_logic (NewAND payload target (ParseRule n E))
     else if tp = ''OR'' then made_logic (NewOR payload target (ParseRule n E))
     else if tp = ''NOT'' then made_logic (NewNOT payload target (ParseRule n E))
     else if tp = ''RULE-SET'' then made RRuleSet (Inr (NewRuleSet payload target isSrc noResolve))
     else if tp = ''MATCH'' then made RMatch (Inr (NewMatch target))
     else Return (Inl (''unsupported rule type: '' @ tp)))"

declare ParseRule.simps [simp del]

text \<open>The parser with the fuel that is enough for the payload.\<close>

definition parse_rule :: "env \<Rightarrow> ParseRuleFunc" where
  "parse_rule E tp payload target params = ParseRule (Suc (length payload)) E tp payload target params"

section \<open>Classical rule providers\<close>

definition payloadToRule_classical :: "env \<Rightarrow> string \<Rightarrow> rule result outcome" where
  "payloadToRule_classical E rule =
     (case ParseRulePayload rule False of (tp, payload, target, params) \<Rightarrow>
        if tp = ''MATCH'' \<or> tp = ''RULE-SET'' \<or> tp = ''SUB-RULE''
        then Return (Inl (''unsupported rule type on classical rule-set: '' @ tp))
        else parse_rule E tp payload target params)"

text \<open>The rules and their number; a rule that does not parse is skipped.\<close>

definition Insert_classical :: "env \<Rightarrow> string \<Rightarrow> rule list \<times> int \<Rightarrow> (rule list \<times> int) outcome" where
  "Insert_classical E rule c =
     obind (payloadToRule_classical E rule) (\<lambda>res.
       case res of Inl _ \<Rightarrow> Return c | Inr r \<Rightarrow> Return (fst c @ [r], snd c + 1))"

definition Reset_classical :: "rule list \<times> int \<Rightarrow> rule list \<times> int" where
  "Reset_classical c = ([], 0)"

fun insert_all :: "env \<Rightarrow> string list \<Rightarrow> rule list \<times> int \<Rightarrow> (rule list \<times> int) outcome" where
  "insert_all E [] c = Return c"
| "insert_all E (r # rs) c =
     (if r \<noteq> '''' then obind (Insert_classical E r c) (insert_all E rs) else insert_all E rs c)"

definition rulesParseInline :: "env \<Rightarrow> string list \<Rightarrow> rule list \<times> int \<Rightarrow> ruleStrategy outcome" where
  "rulesParseInline E rs c =
     obind (insert_all E rs (Reset_classical c)) (\<lambda>(rules, count). Return (classicalStrategy rules count))"

section \<open>Rules of a configuration\<close>

definition rule_error :: "string \<Rightarrow> nat \<Rightarrow> string \<Rightarrow> string \<Rightarrow> string" where
  "rule_error fmt idx line msg = fmt @ ''['' @ show_nat idx @ ''] ['' @ line @ ''] error: '' @ msg"

text \<open>
  One line of the loop of \<open>parseRules\<close>.  Proxies, rule providers and sub-rules are looked up by
  name only, so they are given as sets of names.  A wrapper gets the index of its line as address.
\<close>

definition parse_line ::
  "env \<Rightarrow> string set \<Rightarrow> string set \<Rightarrow> string set \<Rightarrow> string \<Rightarrow> nat \<Rightarrow> string \<Rightarrow> rule result outcome" where
  "parse_line E proxies ruleProviders subRuleNames fmt idx line =
     (case ParseRulePayload line True of (tp, payload, target, params) \<Rightarrow>
        if target = '''' then Return (Inl (rule_error fmt idx line ''format invalid''))
        else if target \<notin> proxies \<and> tp \<noteq> ''SUB-RULE''
        then Return (Inl (rule_error fmt idx line (''proxy ['' @ target @ ''] not found'')))
        else if target \<notin> proxies \<and> target \<notin> subRuleNames
        then Return (Inl (rule_error fmt idx line (''sub-rule ['' @ target @ ''] not found'')))
        else obind (parse_rule E tp payload target params) (\<lambda>res.
          case res of
            Inl err \<Rightarrow> Return (Inl (rule_error fmt idx line err))
          | Inr parsed \<Rightarrow>
              (case List.find (\<lambda>name. name \<notin> ruleProviders) (ProviderNames parsed) of
                 Some name \<Rightarrow> Return (Inl (rule_error fmt idx line (''rule set ['' @ name @ ''] not found'')))
               | None \<Rightarrow> Return (Inr (if fmt = ''rules'' then RWrapper idx parsed else parsed)))))"

fun parse_lines ::
  "env \<Rightarrow> string set \<Rightarrow> string set \<Rightarrow> string set \<Rightarrow> string \<Rightarrow> nat \<Rightarrow> string list \<Rightarrow> rule list result outcome" where
  "parse_lines E proxies ruleProviders subRuleNames fmt idx [] = Return (Inr [])"
| "parse_lines E proxies ruleProviders subRuleNames fmt idx (line # lines) =
     robind (parse_line E proxies ruleProviders subRuleNames fmt idx line) (\<lambda>parsed.
     robind (parse_lines E proxies ruleProviders subRuleNames fmt (Suc idx) lines) (\<lambda>rules.
     Return (Inr (parsed # rules))))"

definition parseRules ::
  "env \<Rightarrow> string list \<Rightarrow> string set \<Rightarrow> string set \<Rightarrow> string set \<Rightarrow> string \<Rightarrow> rule list result outcome" where
  "parseRules E rulesConfig proxies ruleProviders subRuleNames fmt =
     parse_lines E proxies ruleProviders subRuleNames fmt 0 rulesConfig"

text \<open>
  \<open>verifySubRuleCircularReferences\<close> for the rules of the list \<open>n\<close> that are still to be looked at;
  \<open>arr\<close> is the chain of lists that led here.  The result is the error, if there is one.
\<close>

partial_function (option) verify_loop ::
  "(string \<Rightarrow> rule list option) \<Rightarrow> string \<Rightarrow> string list \<Rightarrow> nat \<Rightarrow> rule list \<Rightarrow> string option option" where
  "verify_loop subs n arr i rules =
     (case rules of
        [] \<Rightarrow> Some None
      | rule # rest \<Rightarrow>
          if RuleType rule = SubRules_rt then
            (case subs (Adapter rule) of
               None \<Rightarrow> Some (Some (''sub-rule['' @ show_nat i @ '':'' @ n @ ''] error: ['' @ Adapter rule @ ''] not found''))
             | Some target \<Rightarrow>
                 if Adapter rule \<in> set arr then
                   Some (Some (''sub-rule error: circular references ['' @ join_with ''->'' (arr @ [Adapter rule]) @ '']''))
                 else Option.bind (verify_loop subs (Adapter rule) (arr @ [Adapter rule]) 0 target) (\<lambda>err.
                        case err of
                          Some e \<Rightarrow> Some (Some e)
                        | None \<Rightarrow> verify_loop subs n arr (Suc i) rest))
          else verify_loop subs n arr (Suc i) rest)"

definition verifySubRuleCircularReferences ::
  "string \<Rightarrow> (string \<Rightarrow> rule list option) \<Rightarrow> string list \<Rightarrow> string option option" where
  "verifySubRuleCircularReferences n subs arr =
     verify_loop subs n (arr @ [n]) 0 (case subs n of None \<Rightarrow> [] | Some rs \<Rightarrow> rs)"

text \<open>The names in the order in which the map is traversed.\<close>

fun verifySubRule :: "(string \<Rightarrow> rule list option) \<Rightarrow> string list \<Rightarrow> string option option" where
  "verifySubRule subs [] = Some None"
| "verifySubRule subs (name # names) =
     (case verifySubRuleCircularReferences name subs [] of
        None \<Rightarrow> None
      | Some (Some err) \<Rightarrow> Some (Some err)
      | Some None \<Rightarrow> verifySubRule subs names)"

text \<open>The loop of \<open>parseSubRules\<close> over the lists of the configuration, in the order of the map.\<close>

fun parse_sub_lists ::
  "env \<Rightarrow> string set \<Rightarrow> string set \<Rightarrow> string set \<Rightarrow> (string \<times> string list) list \<Rightarrow>
   (string \<Rightarrow> rule list option) \<Rightarrow> (string \<Rightarrow> rule list option) result outcome" where
  "parse_sub_lists E proxies ruleProviders names [] subs = Return (Inr subs)"
| "parse_sub_lists E proxies ruleProviders names ((name, rawRules) # rest) subs =
     (if length name = 0 then Return (Inl ''sub-rule name is empty'')
      else robind (parseRules E rawRules proxies ruleProviders names (''sub-rules['' @ name @ '']'')) (\<lambda>rules.
             parse_sub_lists E proxies ruleProviders names rest (subs(name \<mapsto> rules))))"

definition parseSubRules ::
  "env \<Rightarrow> (string \<times> string list) list \<Rightarrow> string set \<Rightarrow> string set \<Rightarrow> (string \<Rightarrow> rule list option) result outcome" where
  "parseSubRules E cfg proxies ruleProviders =
     (let names = set (map fst cfg);
          subs0 = (\<lambda>name. if name \<in> names then Some [] else None) in
      robind (parse_sub_lists E proxies ruleProviders names cfg subs0) (\<lambda>subs.
        obind (of_loop (verifySubRule subs (map fst cfg))) (\<lambda>err.
          Return (case err of Some e \<Rightarrow> Inl e | None \<Rightarrow> Inr subs))))"

end
