(* ===== verification/Parse_Proofs.thy ===== *)
theory Parse_Proofs
  imports Rules_Parse
begin

text \<open>
  Facts about the parsing of rules: the parser returns on every text, and the rules it builds are
  well-formed.
\<close>

section \<open>Returning\<close>

definition returns :: "'a outcome \<Rightarrow> bool" where
  "returns m \<longleftrightarrow> (\<exists>x. m = Return x)"

text \<open>A result is good when it is an error or satisfies the predicate.\<close>

definition yields :: "('a \<Rightarrow> bool) \<Rightarrow> 'a result outcome \<Rightarrow> bool" where
  "yields P m \<longleftrightarrow> (\<exists>e. m = Return (Inl e)) \<or> (\<exists>x. m = Return (Inr x) \<and> P x)"

section \<open>Well-formed rules\<close>

definition no_sub :: "rule \<Rightarrow> bool" where
  "no_sub r \<longleftrightarrow> RuleType r \<noteq> SubRules_rt"

function (sequential) wf_rule :: "rule \<Rightarrow> bool" where
  "wf_rule (RIPSuffix s) \<longleftrightarrow> 0 \<le> is_bits s \<and> is_bits s \<le> 8 * int (length (is_ipBytes s))"
| "wf_rule (RPort p) \<longleftrightarrow> p_ruleType p \<in> {SrcPort_rt, DstPort_rt, InPort_rt} \<and> p_portRanges p \<noteq> []"
| "wf_rule (RProcess p) \<longleftrightarrow>
     ps_ruleType p \<in> {ProcessName_rt, ProcessPath_rt, ProcessNameRegex_rt, ProcessPathRegex_rt,
                       ProcessNameWildcard_rt, ProcessPathWildcard_rt} \<and>
     (ps_ruleType p \<in> {ProcessNameRegex_rt, ProcessPathRegex_rt} \<longrightarrow> ps_regexp p \<noteq> None)"
| "wf_rule (RLogic l) \<longleftrightarrow>
     logic_ruleType l \<in> {AND_rt, OR_rt, NOT_rt, SubRules_rt} \<and>
     (logic_ruleType l \<in> {NOT_rt, SubRules_rt} \<longrightarrow> length (logic_rules l) = 1) \<and>
     (\<forall>r\<in>set (logic_rules l). wf_rule r \<and> no_sub r)"
| "wf_rule (RWrapper a r) \<longleftrightarrow> wf_rule r"
| "wf_rule _ \<longleftrightarrow> True"
  by pat_completeness auto
termination by (relation "measure size") (auto dest: logic_size)

section \<open>Parentheses\<close>

text \<open>What the loop of \<open>format\<close> keeps about the open positions and the pairs found.\<close>

definition pairs_ok :: "string \<Rightarrow> nat \<Rightarrow> nat list \<Rightarrow> nat Range list \<Rightarrow> bool" where
  "pairs_ok s i stack rs \<longleftrightarrow>
     (\<forall>j\<in>set stack. j < i) \<and> (\<forall>r\<in>set rs. start r < endr r \<and> endr r < i)"

text \<open>What the parser builds, for a rule type and a target.\<close>

definition parsed_ok :: "string \<Rightarrow> string \<Rightarrow> rule \<Rightarrow> bool" where
  "parsed_ok tp target r \<longleftrightarrow> wf_rule r \<and> Adapter r = target \<and> (tp \<noteq> ''SUB-RULE'' \<longrightarrow> no_sub r)"

definition wf_subs :: "(string \<Rightarrow> rule list option) \<Rightarrow> bool" where
  "wf_subs subs \<longleftrightarrow> (\<forall>name rs. subs name = Some rs \<longrightarrow> (\<forall>r\<in>set rs. wf_rule r))"

lemma format_loop_pairs:
  "format_loop i stack rs cs = Inr rs' \<Longrightarrow> pairs_ok s i stack rs \<Longrightarrow> pairs_ok s (i + length cs) [] rs'"
proof (induction cs arbitrary: i stack rs)
  case (Cons c cs)
  from Cons.prems show ?case
    by (auto split: if_splits list.splits dest!: Cons.IH simp: pairs_ok_def less_Suc_eq)
qed (auto simp: pairs_ok_def split: if_splits)

lemma format_pairs:
  assumes "format payload = Inr rs" "r \<in> set rs"
  shows "start r < endr r \<and> endr r < length payload"
proof -
  obtain rs0 where "format_loop 0 [] [] payload = Inr rs0" "rs = sort_key start rs0"
    using assms(1) by (auto simp: format_def elim: rbind.elims)
  thus ?thesis using format_loop_pairs[of 0 "[]" "[]" payload rs0 payload] assms(2) by (auto simp: pairs_ok_def)
qed

lemma findSubRuleRange_sub:
  assumes "r \<in> set (findSubRuleRange payload rs)"
  shows "r \<in> set rs \<and> \<not> (start r = 0 \<and> int (endr r) = int (length payload) - 1)"
proof -
  have "r \<in> set (foldl (keep_range payload) acc xs) \<Longrightarrow>
    r \<in> set acc \<or> r \<in> set xs \<and> \<not> (start r = 0 \<and> int (endr r) = int (length payload) - 1)" for acc xs
  proof (induction xs arbitrary: acc)
    case (Cons x xs)
    show ?case using Cons.IH[of "keep_range payload acc x"] Cons.prems
      by (auto simp: keep_range_def split: if_splits)
  qed simp
  from this[of "[]" rs] show ?thesis using assms by (simp add: findSubRuleRange_def)
qed

text \<open>The text between a pair of parentheses is shorter than the payload by more than two.\<close>

lemma sub_payload:
  assumes "format payload = Inr rs" "r \<in> set (findSubRuleRange payload rs)"
  obtains sp where "slice_of payload (int (start r) + 1) (int (endr r)) = Return sp"
    and "length sp + 3 \<le> length payload"
proof -
  have b: "start r < endr r" "endr r < length payload" "\<not> (start r = 0 \<and> int (endr r) = int (length payload) - 1)"
    using findSubRuleRange_sub[OF assms(2)] format_pairs[OF assms(1)] by blast+
  let ?sp = "take (nat (int (endr r) - (int (start r) + 1))) (drop (nat (int (start r) + 1)) payload)"
  have "slice_of payload (int (start r) + 1) (int (endr r)) = Return ?sp"
    using b by (intro slice_of_Return) auto
  moreover have "length ?sp + 3 \<le> length payload" using b by (auto simp: nat_diff_distrib)
  ultimately show ?thesis using that by blast
qed

section \<open>The parser returns\<close>

lemma yieldsI [intro]: "yields P (Return (Inl e))" "P x \<Longrightarrow> yields P (Return (Inr x))"
  by (auto simp: yields_def)

lemma yields_simps [simp]: "yields P (Return (Inl e))" "yields P (Return (Inr x)) \<longleftrightarrow> P x"
  by (auto simp: yields_def)

lemma yields_robind:
  assumes "yields Q m" "\<And>x. Q x \<Longrightarrow> yields P (f x)"
  shows "yields P (robind m f)"
proof -
  from assms(1) consider e where "m = Return (Inl e)" | x where "m = Return (Inr x)" "Q x"
    by (auto simp: yields_def)
  thus ?thesis by cases (use assms(2) in \<open>auto simp: robind_def\<close>)
qed

lemma yields_weaken: "yields Q m \<Longrightarrow> (\<And>x. Q x \<Longrightarrow> P x) \<Longrightarrow> yields P m"
  by (auto simp: yields_def)

lemma yields_if: "(c \<Longrightarrow> yields P a) \<Longrightarrow> (\<not> c \<Longrightarrow> yields P b) \<Longrightarrow> yields P (if c then a else b)"
  by simp

lemma yields_made: "(\<And>x. r = Inr x \<Longrightarrow> P (C x)) \<Longrightarrow> yields P (made C r)"
  by (cases r) (auto simp: made_def)

lemma trim_set_length: "length (trim_set cs s) \<le> length s"
  unfolding trim_set_def by (metis length_dropWhile_le length_rev order_trans)

lemma split_on_length: "sum_list (map length (split_on c s)) + length (split_on c s) = Suc (length s)"
  by (induction s) (auto split: list.splits)

lemma join_length: "ws \<noteq> [] \<Longrightarrow> length (join_with [c] ws) + 1 = sum_list (map length ws) + length ws"
  by (induction "[c]" ws rule: join_with.induct) auto

lemma trimArr_length: "sum_list (map length (trimArr ws)) \<le> sum_list (map length ws)"
  by (induction ws) (auto simp: trimArr_def intro: add_mono trim_set_length)

lemma sum_list_member: "x \<in> set xs \<Longrightarrow> length x \<le> sum_list (map length xs)"
  by (induction xs) auto

lemma item_length:
  assumes "item = trimArr (split_on c s)" "w \<in> set item"
  shows "length w \<le> length s"
proof -
  have "length w \<le> sum_list (map length item)" using assms(2) by (rule sum_list_member)
  also have "\<dots> \<le> sum_list (map length (split_on c s))" using assms(1) trimArr_length by simp
  also have "\<dots> \<le> length s" using split_on_length[of c s] by (cases "split_on c s") auto
  finally show ?thesis .
qed

lemma join_items_length:
  assumes "item = trimArr (split_on c s)"
  shows "length (join_with [c] (drop 1 (take k item))) \<le> length s"
proof (cases "drop 1 (take k item) = []")
  case False
  have sub: "sum_list (map length (drop 1 (take k item))) + length (drop 1 (take k item)) \<le> sum_list (map length item) + length item"
  proof -
    have "item = take 1 item @ drop 1 (take k item) @ drop (max 1 k) item"
      by (cases k; cases item) (auto simp: max_def)
    then obtain a b where "item = a @ drop 1 (take k item) @ b" by blast
    thus ?thesis by (metis (no_types, lifting) add.commute add_mono le_add1 le_add2 length_append map_append order_trans sum_list_append)
  qed
  have "sum_list (map length item) + length item \<le> Suc (length s)"
    using trimArr_length[of "split_on c s"] split_on_length[of c s] assms by (simp add: trimArr_def)
  thus ?thesis using join_length[OF False, of c] sub by linarith
qed simp

lemma ParseRulePayload_length:
  assumes "ParseRulePayload s nt = (tp, payload, target, params)"
  shows "length payload \<le> length s"
proof -
  let ?item = "trimArr (split_on (CHR '','') s)"
  have j: "length (join_with '','' (drop 1 (take k ?item))) \<le> length s" for k
    by (rule join_items_length[OF refl])
  have j': "length (join_with '','' (drop (Suc 0) ?item)) \<le> length s"
    using j[of "length ?item"] by simp
  have "1 < length ?item \<Longrightarrow> length (?item ! 1) \<le> length s" by (rule item_length[where c = "CHR '',''", OF refl]) simp
  thus ?thesis using assms j j'
    by (auto simp: ParseRulePayload_def Let_def split: if_splits)
qed

lemma payloadToRule_yields:
  assumes "\<And>tp payload target params. length payload \<le> length sp \<Longrightarrow> yields (parsed_ok tp target) (pr tp payload target params)"
  shows "yields (\<lambda>r. wf_rule r \<and> no_sub r) (payloadToRule pr sp)"
proof -
  obtain tp payload target params where p: "ParseRulePayload sp False = (tp, payload, target, params)"
    by (cases "ParseRulePayload sp False") auto
  show ?thesis using assms[OF ParseRulePayload_length[OF p], of tp target params]
    by (auto simp: payloadToRule_def p parsed_ok_def elim: yields_weaken)
qed

lemma parse_ranges_yields:
  assumes "\<forall>r\<in>set rs. \<exists>sp. slice_of payload (int (start r) + 1) (int (endr r)) = Return sp \<and>
             yields (\<lambda>r. wf_rule r \<and> no_sub r) (payloadToRule pr sp)"
  shows "yields (\<lambda>rules. length rules = length rs \<and> (\<forall>r\<in>set rules. wf_rule r \<and> no_sub r)) (parse_ranges pr payload rs)"
  using assms
proof (induction rs)
  case (Cons r rs)
  then obtain sp where sp: "slice_of payload (int (start r) + 1) (int (endr r)) = Return sp"
    "yields (\<lambda>r. wf_rule r \<and> no_sub r) (payloadToRule pr sp)" by auto
  have IH: "yields (\<lambda>rules. length rules = length rs \<and> (\<forall>r\<in>set rules. wf_rule r \<and> no_sub r)) (parse_ranges pr payload rs)"
    using Cons by simp
  show ?case unfolding parse_ranges.simps sp(1) obind.simps
    by (rule yields_robind[OF sp(2)], rule yields_robind[OF IH]) auto
qed simp

lemma parsePayload_yields:
  assumes "\<And>tp p target params. length p + 3 \<le> length payload \<Longrightarrow> yields (parsed_ok tp target) (pr tp p target params)"
  shows "yields (\<lambda>rules. \<forall>r\<in>set rules. wf_rule r \<and> no_sub r) (parsePayload payload pr)"
proof (cases "HasPrefix payload ''('' \<and> HasSuffix payload '')''")
  case True
  show ?thesis
  proof (cases "format payload")
    case (Inr rs)
    have "\<exists>sp. slice_of payload (int (start r) + 1) (int (endr r)) = Return sp \<and>
             yields (\<lambda>r. wf_rule r \<and> no_sub r) (payloadToRule pr sp)"
      if r: "r \<in> set (findSubRuleRange payload rs)" for r
    proof -
      obtain sp where sp: "slice_of payload (int (start r) + 1) (int (endr r)) = Return sp" "length sp + 3 \<le> length payload"
        using sub_payload[OF Inr r] by blast
      have "yields (\<lambda>r. wf_rule r \<and> no_sub r) (payloadToRule pr sp)"
        by (rule payloadToRule_yields, rule assms) (use sp(2) in linarith)
      thus ?thesis using sp(1) by blast
    qed
    hence "yields (\<lambda>rules. length rules = length (findSubRuleRange payload rs) \<and> (\<forall>r\<in>set rules. wf_rule r \<and> no_sub r))
      (parse_ranges pr payload (findSubRuleRange payload rs))" by (intro parse_ranges_yields) blast
    thus ?thesis using True Inr by (auto simp: parsePayload_def elim: yields_weaken)
  qed (use True in \<open>simp add: parsePayload_def\<close>)
qed (auto simp: parsePayload_def)

lemma logic_ok:
  "t \<in> {AND_rt, OR_rt, NOT_rt, SubRules_rt} \<Longrightarrow> (t \<in> {NOT_rt, SubRules_rt} \<Longrightarrow> length rules = 1) \<Longrightarrow>
   (t = SubRules_rt \<Longrightarrow> tp = ''SUB-RULE'') \<Longrightarrow>
   \<forall>r\<in>set rules. wf_rule r \<and> no_sub r \<Longrightarrow> parsed_ok tp target (RLogic (Logic payload target t rules))"
  by (auto simp: parsed_ok_def no_sub_def)

lemma made_logic_yields: "yields (\<lambda>l. P (RLogic l)) m \<Longrightarrow> yields P (made_logic m)"
  unfolding made_logic_def by (erule yields_robind) simp

lemma new_logic_yields:
  assumes "\<And>tp p target params. length p < length payload \<Longrightarrow> yields (parsed_ok tp target) (pr tp p target params)"
  shows "yields (parsed_ok tp target) (made_logic (NewAND payload target pr))"
    and "yields (parsed_ok tp target) (made_logic (NewOR payload target pr))"
    and "yields (parsed_ok tp target) (made_logic (NewNOT payload target pr))"
    and "tp = ''SUB-RULE'' \<Longrightarrow> yields (parsed_ok tp target) (made_logic (NewSubRule payload target pr))"
proof -
  have a: "yields (\<lambda>rules. \<forall>r\<in>set rules. wf_rule r \<and> no_sub r) (parsePayload payload pr)"
    by (rule parsePayload_yields) (rule assms, linarith)
  have b: "yields (\<lambda>rules. \<forall>r\<in>set rules. wf_rule r \<and> no_sub r) (parsePayload (''('' @ payload @ '')'') pr)"
    by (rule parsePayload_yields) (rule assms, simp)
  show "yields (parsed_ok tp target) (made_logic (NewAND payload target pr))"
    unfolding NewAND_def by (rule made_logic_yields, rule yields_robind[OF a]) (simp, rule logic_ok, auto)
  show "yields (parsed_ok tp target) (made_logic (NewOR payload target pr))"
    unfolding NewOR_def by (rule made_logic_yields, rule yields_robind[OF a]) (simp, rule logic_ok, auto)
  show "yields (parsed_ok tp target) (made_logic (NewNOT payload target pr))"
    unfolding NewNOT_def
    by (rule made_logic_yields, rule yields_robind[OF a], rule yields_if) (simp, simp, rule logic_ok, auto)
  show "tp = ''SUB-RULE'' \<Longrightarrow> yields (parsed_ok tp target) (made_logic (NewSubRule payload target pr))"
    unfolding NewSubRule_def
    by (rule made_logic_yields, rule yields_robind[OF b], rule yields_if) (simp, simp, rule logic_ok, auto)
qed

lemma leaf_ok:
  "wf_rule r \<Longrightarrow> Adapter r = target \<Longrightarrow> no_sub r \<Longrightarrow> parsed_ok tp target r"
  by (simp add: parsed_ok_def)

lemmas leaf_adapters =
  Adapter_Domain_def Adapter_DomainSuffix_def Adapter_DomainKeyword_def Adapter_DomainRegex_def
  Adapter_DomainWildcard_def Adapter_GEOSITE_def Adapter_GEOIP_def Adapter_ASN_def Adapter_IPCIDR_def
  Adapter_IPSuffix_def Adapter_Port_def Adapter_DSCP_def Adapter_InName_def Adapter_InUser_def
  Adapter_InType_def Adapter_NetworkType_def Adapter_Process_def Adapter_RematchName_def
  Adapter_Uid_def Adapter_Match_def

lemmas leaf_types =
  RuleType_Domain_def RuleType_DomainSuffix_def RuleType_DomainKeyword_def RuleType_DomainRegex_def
  RuleType_DomainWildcard_def RuleType_GEOSITE_def RuleType_GEOIP_def RuleType_ASN_def
  RuleType_IPCIDR_def RuleType_IPSuffix_def RuleType_Port_def RuleType_DSCP_def RuleType_InName_def
  RuleType_InUser_def RuleType_InType_def RuleType_NetworkType_def RuleType_Process_def
  RuleType_RematchName_def RuleType_Uid_def RuleType_Match_def

lemma rbind_Inr: "rbind m f = Inr y \<longleftrightarrow> (\<exists>x. m = Inr x \<and> f x = Inr y)"
  by (cases m) auto

lemma AsSlice_length: "length (AsSlice ip) = (if Is4 ip then 4 else if Is6 ip then 16 else 0)"
  by (cases ip) (auto simp: word_bytes_def)

lemma ParseAddr_valid: "ParseAddr s = Some ip \<Longrightarrow> IsValid ip"
proof -
  have v6: "parseIPv6 t = Some ip \<Longrightarrow> IsValid ip" for t
    by (auto simp: parseIPv6_def Let_def split: option.splits if_splits prod.splits)
  have "ParseAddr_from t cs = Some ip \<Longrightarrow> IsValid ip" for t cs
    by (induction cs) (auto split: if_splits intro: v6)
  thus "ParseAddr s = Some ip \<Longrightarrow> IsValid ip" by (simp add: ParseAddr_def)
qed

lemma ParsePrefix_bits:
  "ParsePrefix s = Some p \<Longrightarrow> pbits p \<le> 8 * length (AsSlice (paddr p))"
  by (auto simp: ParsePrefix_def Let_def AsSlice_length split: option.splits if_splits
      dest!: ParseAddr_valid elim!: IsValid.elims)

lemma leaf_yields:
  "yields (parsed_ok tp t) (made RDomain (Inr (NewDomain p t)))"
  "yields (parsed_ok tp t) (made RDomainSuffix (Inr (NewDomainSuffix p t)))"
  "yields (parsed_ok tp t) (made RDomainKeyword (Inr (NewDomainKeyword p t)))"
  "yields (parsed_ok tp t) (made RDomainRegex (NewDomainRegex E p t))"
  "yields (parsed_ok tp t) (made RDomainWildcard (Inr (NewDomainWildcard p t)))"
  "yields (parsed_ok tp t) (made RGEOSITE (NewGEOSITE E p t))"
  "yields (parsed_ok tp t) (made RGEOIP (NewGEOIP E p t a b))"
  "yields (parsed_ok tp t) (made RASN (NewIPASN E p t a b))"
  "yields (parsed_ok tp t) (made RIPCIDR (NewIPCIDR p t [WithIPCIDRSourceIP a, WithIPCIDRNoResolve b]))"
  "yields (parsed_ok tp t) (made RDSCP (NewDSCP p t))"
  "yields (parsed_ok tp t) (made RNetworkType (NewNetworkType p t))"
  "yields (parsed_ok tp t) (made RUid (NewUid E p t))"
  "yields (parsed_ok tp t) (made RInType (NewInType p t))"
  "yields (parsed_ok tp t) (made RInUser (NewInUser p t))"
  "yields (parsed_ok tp t) (made RInName (NewInName p t))"
  "yields (parsed_ok tp t) (made RRematchName (NewRematchName p t))"
  "yields (parsed_ok tp t) (made RRuleSet (Inr (NewRuleSet p t a b)))"
  "yields (parsed_ok tp t) (made RMatch (Inr (NewMatch t)))"
  by (rule yields_made, rule leaf_ok;
      auto simp: no_sub_def leaf_adapters leaf_types rbind_Inr NewDomain_def NewDomainSuffix_def
        NewDomainKeyword_def NewDomainRegex_def NewDomainWildcard_def NewGEOSITE_def NewGEOIP_def NewIPASN_def
        NewIPCIDR_def WithIPCIDRSourceIP_def WithIPCIDRNoResolve_def NewDSCP_def NewNetworkType_def NewUid_def
        NewInType_def NewInUser_def NewInName_def NewRematchName_def NewRuleSet_def NewMatch_def Let_def
        split: option.splits sum.splits if_splits)+

lemma checked_yields:
  "ty \<in> {SrcPort_rt, DstPort_rt, InPort_rt} \<Longrightarrow> yields (parsed_ok tp t) (made RPort (NewPort p t ty))"
  "ty \<in> {ProcessName_rt, ProcessPath_rt, ProcessNameRegex_rt, ProcessPathRegex_rt,
         ProcessNameWildcard_rt, ProcessPathWildcard_rt} \<Longrightarrow>
   yields (parsed_ok tp t) (made RProcess (NewProcess E p t ty))"
  "yields (parsed_ok tp t) (made RIPSuffix (NewIPSuffix p t a b))"
  subgoal by (rule yields_made, rule leaf_ok)
    (auto simp: NewPort_def no_sub_def leaf_adapters leaf_types split: sum.splits if_splits)
  subgoal by (rule yields_made, rule leaf_ok)
    (auto simp: NewProcess_def Let_def no_sub_def leaf_adapters leaf_types rbind_Inr split: if_splits)
  subgoal by (rule yields_made, rule leaf_ok)
    (auto simp: NewIPSuffix_def no_sub_def leaf_adapters leaf_types split: option.splits dest!: ParsePrefix_bits)
  done

lemma ParseRule_yields:
  "length payload < n \<Longrightarrow> yields (parsed_ok tp target) (ParseRule n E tp payload target params)"
proof (induction n arbitrary: tp payload target params)
  case (Suc n)
  have IH: "yields (parsed_ok tp' target') (ParseRule n E tp' p target' params')"
    if "length p < length payload" for tp' p target' params'
    using that Suc by simp
  obtain a b where ab: "ParseParams params = (a, b)" by (cases "ParseParams params")
  show ?case unfolding ParseRule.simps ab Let_def prod.case
    by (intro yields_if leaf_yields checked_yields new_logic_yields(1,2,3)[OF IH] new_logic_yields(4)[OF IH]
        yieldsI(1); (assumption | rule insertI1 insertI2 | rule insertI2)+)
qed simp

section \<open>Rules of a configuration\<close>

lemma parse_rule_yields: "yields (parsed_ok tp target) (parse_rule E tp payload target params)"
  unfolding parse_rule_def by (rule ParseRule_yields) simp

lemma parse_line_yields: "yields wf_rule (parse_line E px rp sn fmt idx line)"
proof -
  obtain tp payload target params where p: "ParseRulePayload line True = (tp, payload, target, params)"
    by (cases "ParseRulePayload line True") auto
  have "yields (parsed_ok tp target) (parse_rule E tp payload target params)" by (rule parse_rule_yields)
  moreover have "wf_rule (if fmt = ''rules'' then RWrapper idx r else r) = wf_rule r" for r by simp
  ultimately show ?thesis
    by (auto simp: parse_line_def p yields_def parsed_ok_def simp del: if_split split: option.splits if_split_asm)
qed

lemma parse_lines_yields: "yields (\<lambda>rs. \<forall>r\<in>set rs. wf_rule r) (parse_lines E px rp sn fmt idx ls)"
proof (induction ls arbitrary: idx)
  case (Cons l ls)
  show ?case unfolding parse_lines.simps
    by (rule yields_robind[OF parse_line_yields], rule yields_robind[OF Cons.IH]) auto
qed simp

lemma parse_sub_lists_yields:
  "wf_subs subs \<Longrightarrow> dom subs = N \<Longrightarrow> set (map fst cfg) \<subseteq> N \<Longrightarrow>
   yields (\<lambda>subs'. wf_subs subs' \<and> dom subs' = N) (parse_sub_lists E px rp sn cfg subs)"
proof (induction E px rp sn cfg subs rule: parse_sub_lists.induct)
  case (2 E px rp sn name raw rest subs)
  show ?case
  proof (cases "length name = 0")
    case False
    have "yields (\<lambda>subs'. wf_subs subs' \<and> dom subs' = N) (parse_sub_lists E px rp sn rest (subs(name \<mapsto> rules)))"
      if "\<forall>r\<in>set rules. wf_rule r" for rules
      using that 2(2,3,4) by (intro 2(1)[OF False]) (auto simp: wf_subs_def split: if_split_asm)
    thus ?thesis using False by (simp add: parseRules_def yields_robind[OF parse_lines_yields])
  qed simp
qed simp

section \<open>Properties\<close>

text \<open>
  C20.  Parsing a rule returns for every type, payload, target and parameters: it never panics and
  the recursion through logic payloads ends.  The answer is an error or a well-formed rule that has
  the target as its adapter: every IP suffix fits its address, every process rule with a pattern has
  its expression, every negation and sub-rule condition holds exactly one rule, and no sub-rule is
  nested in a logic rule or appears under another type.
\<close>

theorem parsed_rules_well_formed:
  "yields (\<lambda>r. wf_rule r \<and> Adapter r = target \<and> (tp = ''SUB-RULE'' \<or> no_sub r)) (parse_rule E tp payload target params)"
  by (rule yields_weaken[OF parse_rule_yields]) (auto simp: parsed_ok_def)

end
