(* ===== verification/Match_Proofs.thy ===== *)
theory Match_Proofs
  imports Parse_Proofs
begin

text \<open>
  Matching of rules: it returns on verified configurations, and what it may change.
\<close>

section \<open>Verification of sub-rules\<close>

text \<open>The lists that the rules of a list refer to.\<close>

definition sub_targets :: "rule list \<Rightarrow> string set" where
  "sub_targets rs = {Adapter r | r. r \<in> set rs \<and> \<not> no_sub r}"

definition refers :: "(string \<Rightarrow> rule list option) \<Rightarrow> (string \<times> string) set" where
  "refers subs = {(a, b). \<exists>rs. subs a = Some rs \<and> b \<in> sub_targets rs}"

text \<open>Every list that is referred to exists, and no list refers to itself, directly or through others.\<close>

definition well_founded_subs :: "(string \<Rightarrow> rule list option) \<Rightarrow> bool" where
  "well_founded_subs subs \<longleftrightarrow> Range (refers subs) \<subseteq> dom subs \<and> acyclic (refers subs)"

text \<open>The callbacks return.\<close>

definition helper_ok :: "RuleMatchHelper \<Rightarrow> bool" where
  "helper_ok h \<longleftrightarrow>
     (\<forall>f st. ResolveIP h = Some f \<longrightarrow> returns (f st)) \<and>
     (\<forall>f st. FindProcess h = Some f \<longrightarrow> returns (f st)) \<and>
     (\<forall>f a st. CheckPassRule h = Some f \<longrightarrow> returns (f a st))"

text \<open>
  The rule sets do not contain each other in a circle: the rules of a set only use sets of a smaller
  rank.  They hold no sub-rules, which the parser refuses in them.
\<close>

definition acyclic_sets :: "conf \<Rightarrow> (string \<Rightarrow> nat) \<Rightarrow> bool" where
  "acyclic_sets C rk \<longleftrightarrow>
     (\<forall>p rules cnt. RuleProviders C p = Some (Some (classicalStrategy rules cnt)) \<longrightarrow>
        (\<forall>r\<in>set rules. wf_rule r \<and> no_sub r \<and> (\<forall>q\<in>set (ProviderNames r). rk q < rk p)))"

text \<open>The classical rule sets have been read by the parser.\<close>

definition loaded_sets :: "env \<Rightarrow> (string \<Rightarrow> ruleStrategy option option) \<Rightarrow> bool" where
  "loaded_sets E P \<longleftrightarrow>
     (\<forall>p rules cnt. P p = Some (Some (classicalStrategy rules cnt)) \<longrightarrow>
        (\<exists>raw c. rulesParseInline E raw c = Return (classicalStrategy rules cnt)))"

definition ranked_sets :: "(string \<Rightarrow> ruleStrategy option option) \<Rightarrow> (string \<Rightarrow> nat) \<Rightarrow> bool" where
  "ranked_sets P rk \<longleftrightarrow>
     (\<forall>p rules cnt. P p = Some (Some (classicalStrategy rules cnt)) \<longrightarrow>
        (\<forall>r\<in>set rules. \<forall>q\<in>set (ProviderNames r). rk q < rk p))"

definition circular_set :: ruleStrategy where
  "circular_set = classicalStrategy
     [RLogic (Logic ''((RULE-SET,loop))'' '''' AND_rt
        [RRuleSet \<lparr>rs_ruleProviderName = ''loop'', rs_adapter = '''', rs_isSrc = False, rs_noResolveIP = False\<rparr>])] 1"

text \<open>An environment without databases, and a metadata state.\<close>

definition bare_env :: env where
  "bare_env = \<lparr>regexp2_Compile = Inr, regexp2_MatchString = (\<lambda>r s. False), GeodataMode = False, InitGeoIP = None,
     InitGeoSite = None, InitASN = None, LoadGeoIPMatcher = (\<lambda>_. Inl ''no data''),
     LoadGeoSiteMatcher = (\<lambda>_. Inl ''no data''), LookupCode = (\<lambda>_. []), LookupASN = (\<lambda>_. ([], [])), GOOS = ''linux''\<rparr>"

definition bare_state :: mstate where
  "bare_state = \<lparr>md = zero_metadata, resolved = False, attemptProcessLookup = True, complete = True,
     wrappers = (\<lambda>_. \<lparr>disabled = False, hitCount = 0, hitAt = 0, missCount = 0, missAt = 0\<rparr>), times = int, tick = 0\<rparr>"

definition example_subs :: "(string \<times> string list) list" where
  "example_subs =
     [(''a'', [''DOMAIN-SUFFIX,example.com,DIRECT'', ''SUB-RULE,(NETWORK,TCP),b'']), (''b'', [''RULE-SET,ads,DIRECT''])]"

definition example_rules :: "string list" where
  "example_rules = [''SUB-RULE,(NETWORK,TCP),a'', ''MATCH,DIRECT'']"

definition example_sets :: "string \<Rightarrow> ruleStrategy option option" where
  "example_sets = [''ads'' \<mapsto> Some (classicalStrategy [RDomainKeyword \<lparr>dk_keyword = ''ads'', dk_adapter = ''''\<rparr>] 1)]"

definition self_table :: "string \<Rightarrow> rule list option" where
  "self_table = [''a'' \<mapsto> [RLogic (Logic ''(NETWORK,TCP)'' ''a'' SubRules_rt [RNetworkType \<lparr>n_network = TCP, n_adapter = ''''\<rparr>])]]"

definition succeeds :: "'a result outcome \<Rightarrow> bool" where
  "succeeds m = (case m of Return (Inr x) \<Rightarrow> True | _ \<Rightarrow> False)"

lemma verify_loop_Nil [simp]: "verify_loop subs n arr i [] = Some None"
  by (subst verify_loop.simps) simp

lemma verify_loop_Cons:
  "verify_loop subs n arr i (r # rest) =
     (if no_sub r then verify_loop subs n arr (Suc i) rest
      else case subs (Adapter r) of
             None \<Rightarrow> Some (Some (''sub-rule['' @ show_nat i @ '':'' @ n @ ''] error: ['' @ Adapter r @ ''] not found''))
           | Some target \<Rightarrow>
               if Adapter r \<in> set arr then
                 Some (Some (''sub-rule error: circular references ['' @ join_with ''->'' (arr @ [Adapter r]) @ '']''))
               else Option.bind (verify_loop subs (Adapter r) (arr @ [Adapter r]) 0 target) (\<lambda>err.
                      case err of Some e \<Rightarrow> Some (Some e) | None \<Rightarrow> verify_loop subs n arr (Suc i) rest))"
  by (subst verify_loop.simps) (simp add: no_sub_def)

lemma verify_loop_ok:
  "verify_loop subs n arr i rules = Some None \<longleftrightarrow>
   (\<forall>a\<in>sub_targets rules. a \<notin> set arr \<and> (\<exists>rs. subs a = Some rs \<and> verify_loop subs a (arr @ [a]) 0 rs = Some None))"
proof (induction rules arbitrary: i)
  case Nil
  show ?case by (simp add: sub_targets_def)
next
  case (Cons r rules)
  show ?case
  proof (cases "no_sub r")
    case True
    hence "sub_targets (r # rules) = sub_targets rules" by (auto simp: sub_targets_def)
    thus ?thesis using Cons True by (simp add: verify_loop_Cons)
  next
    case False
    hence "sub_targets (r # rules) = insert (Adapter r) (sub_targets rules)" by (auto simp: sub_targets_def)
    thus ?thesis using Cons[of "Suc i"] False
      by (auto simp: verify_loop_Cons split: option.splits if_splits bind_splits)
  qed
qed

lemma verify_loop_returns:
  assumes "finite (dom subs)" "distinct arr" "set arr \<subseteq> dom subs"
  shows "verify_loop subs n arr i rules \<noteq> None"
  using assms(2,3)
proof (induction "card (dom subs) - length arr" arbitrary: n arr i rules rule: less_induct)
  case less
  note outer = less
  show ?case
  proof (induction rules arbitrary: i)
    case (Cons r rules)
    have "verify_loop subs (Adapter r) (arr @ [Adapter r]) 0 target \<noteq> None"
      if "subs (Adapter r) = Some target" "Adapter r \<notin> set arr" for target
    proof (rule outer(1))
      have "set (arr @ [Adapter r]) \<subseteq> dom subs" "distinct (arr @ [Adapter r])" using that outer(2,3) by auto
      thus "distinct (arr @ [Adapter r])" "set (arr @ [Adapter r]) \<subseteq> dom subs" by blast+
      have "length (arr @ [Adapter r]) \<le> card (dom subs)"
        using \<open>distinct (arr @ [Adapter r])\<close> \<open>set (arr @ [Adapter r]) \<subseteq> dom subs\<close> assms(1)
        by (metis card_mono distinct_card)
      thus "card (dom subs) - length (arr @ [Adapter r]) < card (dom subs) - length arr" by simp
    qed
    thus ?case using Cons by (auto simp: verify_loop_Cons split: option.splits if_splits bind_splits)
  qed simp
qed

lemma verified_path:
  assumes "(x, y) \<in> (refers subs)\<^sup>+" "subs x = Some rs" "verify_loop subs x (arr @ [x]) 0 rs = Some None"
  shows "y \<in> dom subs \<and> y \<notin> set (arr @ [x])"
  using assms
proof (induction arbitrary: arr rs rule: converse_trancl_induct)
  case (base x)
  thus ?case by (auto simp: refers_def verify_loop_ok[of subs x])
next
  case (step x z)
  from step(1,4,5) obtain rs' where z: "z \<notin> set (arr @ [x])" "subs z = Some rs'"
    "verify_loop subs z ((arr @ [x]) @ [z]) 0 rs' = Some None"
    by (auto simp: refers_def verify_loop_ok[of subs x])
  show ?case using step.IH[OF z(2,3)] by auto
qed

lemma acyclic_verified:
  assumes "finite (dom subs)" "well_founded_subs subs" "distinct arr" "set arr \<subseteq> dom subs"
    and "\<forall>a\<in>set arr. (a, x) \<in> (refers subs)\<^sup>*" and "subs x = Some rs"
  shows "verify_loop subs x arr 0 rs = Some None"
  using assms(3-6)
proof (induction "card (dom subs) - length arr" arbitrary: x arr rs rule: less_induct)
  case less
  have "a \<notin> set arr \<and> (\<exists>rs'. subs a = Some rs' \<and> verify_loop subs a (arr @ [a]) 0 rs' = Some None)"
    if a: "a \<in> sub_targets rs" for a
  proof -
    have e: "(x, a) \<in> refers subs" using a less.prems(4) by (auto simp: refers_def)
    have fresh: "a \<notin> set arr"
    proof
      assume "a \<in> set arr"
      hence "(a, a) \<in> (refers subs)\<^sup>+" using less.prems(3) e by (meson rtrancl_into_trancl1)
      thus False using assms(2) by (auto simp: well_founded_subs_def acyclic_def)
    qed
    obtain rs' where rs': "subs a = Some rs'" using assms(2) e by (fastforce simp: well_founded_subs_def)
    have "verify_loop subs a (arr @ [a]) 0 rs' = Some None"
    proof (rule less.hyps)
      show d: "distinct (arr @ [a])" "set (arr @ [a]) \<subseteq> dom subs" using fresh less.prems(1,2) rs' by auto
      show "\<forall>b\<in>set (arr @ [a]). (b, a) \<in> (refers subs)\<^sup>*" using less.prems(3) e by (auto intro: rtrancl_into_rtrancl)
      show "subs a = Some rs'" by (rule rs')
      have "length (arr @ [a]) \<le> card (dom subs)" using d assms(1) by (metis card_mono distinct_card)
      thus "card (dom subs) - length (arr @ [a]) < card (dom subs) - length arr" by simp
    qed
    thus ?thesis using fresh rs' by blast
  qed
  thus ?case by (simp add: verify_loop_ok[of subs x arr])
qed

lemma verifySubRule_ok:
  "verifySubRule subs names = Some None \<longleftrightarrow>
   (\<forall>name\<in>set names. verifySubRuleCircularReferences name subs [] = Some None)"
  by (induction names) (auto split: option.splits)

lemma verifySubRule_returns:
  assumes "finite (dom subs)" "set names \<subseteq> dom subs"
  shows "verifySubRule subs names \<noteq> None"
  using assms(2)
proof (induction names)
  case (Cons name names)
  have "verifySubRuleCircularReferences name subs [] \<noteq> None"
    unfolding verifySubRuleCircularReferences_def
    using verify_loop_returns[OF assms(1), of "[name]"] Cons.prems by auto
  thus ?case using Cons by (auto split: option.splits)
qed simp

lemma verifySubRule_iff:
  assumes "finite (dom subs)" "set names = dom subs"
  shows "verifySubRule subs names = Some None \<longleftrightarrow> well_founded_subs subs"
proof
  assume v: "verifySubRule subs names = Some None"
  have ok: "verify_loop subs x ([] @ [x]) 0 rs = Some None" if "subs x = Some rs" for x rs
    using v that assms(2) by (force simp: verifySubRule_ok verifySubRuleCircularReferences_def)
  show "well_founded_subs subs" unfolding well_founded_subs_def acyclic_def
  proof (intro conjI allI subsetI notI)
    fix y assume "y \<in> Range (refers subs)"
    then obtain x rs where "(x, y) \<in> refers subs" "subs x = Some rs" by (auto simp: refers_def)
    thus "y \<in> dom subs" using verified_path[OF _ _ ok] by blast
  next
    fix x assume x: "(x, x) \<in> (refers subs)\<^sup>+"
    then obtain rs where "subs x = Some rs" by (auto simp: refers_def dest: tranclD)
    thus False using verified_path[OF x _ ok] by auto
  qed
next
  assume "well_founded_subs subs"
  thus "verifySubRule subs names = Some None" using assms
    by (auto simp: verifySubRule_ok verifySubRuleCircularReferences_def split: option.splits
        intro!: acyclic_verified)
qed

section \<open>Matching returns\<close>

lemma returns_simps [simp]: "returns (Return x)" "returns (answer b a st)" "\<not> returns Diverges" "\<not> returns (Panic e)"
  by (auto simp: returns_def answer_def)

lemma returns_obind: "returns m \<Longrightarrow> (\<And>x. m = Return x \<Longrightarrow> returns (f x)) \<Longrightarrow> returns (obind m f)"
  by (auto simp: returns_def)

lemma returns_if: "(c \<Longrightarrow> returns a) \<Longrightarrow> (\<not> c \<Longrightarrow> returns b) \<Longrightarrow> returns (if c then a else b)"
  by simp

lemma helper_ok_returns:
  assumes "helper_ok h"
  shows "returns (call_back (ResolveIP h) st)" "returns (call_back (FindProcess h) st)"
    "returns (resolve_for a b h st)" "returns (passes h ad st)"
  using assms by (auto simp: helper_ok_def call_back_def resolve_for_def passes_def split: option.splits)

lemma helper_ok_nil [simp]: "helper_ok h \<Longrightarrow> helper_ok (h\<lparr>ResolveIP := None\<rparr>)"
  by (simp add: helper_ok_def)

lemma suffix_bytes_agree_returns:
  "length a = length b \<Longrightarrow> k \<le> length b \<Longrightarrow> returns (suffix_bytes_agree k (int (length b)) a b)"
  by (induction k) (auto simp: idx_get_def intro!: returns_obind)

lemma suffix_agrees_returns:
  assumes "length a = length b" "0 \<le> bits" "bits \<le> 8 * int (length b)"
  shows "returns (suffix_agrees a b bits)"
  unfolding suffix_agrees_def Let_def
proof (rule returns_obind)
  show "returns (suffix_bytes_agree (nat (bits div 8)) (int (length b)) a b)"
    using assms by (intro suffix_bytes_agree_returns) auto
  have "bits mod 8 \<noteq> 0 \<Longrightarrow> bits div 8 < int (length b)"
    using assms(3) by presburger
  thus "returns (if \<not> ok then Return False
        else if bits mod 8 \<noteq> 0
             then obind (idx_get a (int (length b) - bits div 8 - 1))
                   (\<lambda>x. obind (idx_get b (int (length b) - bits div 8 - 1))
                         (\<lambda>y. Return (push_bit (nat (8 - bits mod 8)) x = push_bit (nat (8 - bits mod 8)) y)))
             else Return True)" for ok
    using assms by (auto simp: idx_get_def)
qed

lemma leaf_returns:
  assumes "helper_ok h"
  shows "returns (Match_Domain d st)" "returns (Match_DomainSuffix ds st)" "returns (Match_DomainKeyword dk st)"
    "returns (Match_DomainRegex E dr st)" "returns (Match_DomainWildcard dw st)" "returns (Match_GEOSITE E gs st)"
    "returns (Match_Port p st)" "returns (Match_DSCP dscp st)"
    "returns (Match_InName inn st)" "returns (Match_InUser iu st)" "returns (Match_InType it st)"
    "returns (Match_NetworkType nt st)" "returns (Match_RematchName rn st)" "returns (Match_Match f st)"
    "returns (Match_ASN E h a st)" "returns (Match_IPCIDR h i st)" "returns (Match_Uid h u st)"
  using helper_ok_returns[OF assms]
  by (simp_all add: Match_Domain_def Match_DomainSuffix_def Match_DomainKeyword_def Match_DomainRegex_def
      Match_DomainWildcard_def Match_wildcard_glob Match_GEOSITE_def Match_Port_def Match_DSCP_def Match_InName_def
      Match_InUser_def Match_InType_def Match_NetworkType_def Match_RematchName_def Match_Match_def
      Match_ASN_def Match_IPCIDR_def Match_Uid_def Let_def returns_obind split: prod.splits)

lemma GEOIP_returns: "helper_ok h \<Longrightarrow> returns (Match_GEOIP E h g st)"
  unfolding Match_GEOIP_def Let_def
  by (rule returns_obind) (auto simp: helper_ok_returns split: sum.splits option.splits)

lemma IPSuffix_returns: "helper_ok h \<Longrightarrow> wf_rule (RIPSuffix s) \<Longrightarrow> returns (Match_IPSuffix h s st)"
  unfolding Match_IPSuffix_def Let_def
  by (rule returns_obind) (auto simp: helper_ok_returns intro!: returns_obind suffix_agrees_returns)

lemma Process_returns: "helper_ok h \<Longrightarrow> wf_rule (RProcess ps) \<Longrightarrow> returns (Match_Process E h ps st)"
  unfolding Match_Process_def Let_def
  by (rule returns_obind) (auto simp: helper_ok_returns matchTarget_def Match_wildcard_glob)

lemma first_match_returns: "(\<And>r s. r \<in> set rs \<Longrightarrow> returns (m r s)) \<Longrightarrow> returns (first_match m rs st)"
  by (induction rs arbitrary: st) (auto intro!: returns_obind)

lemma all_match_returns: "(\<And>r s. r \<in> set rs \<Longrightarrow> returns (m r s)) \<Longrightarrow> returns (all_match m rs st)"
  by (induction rs arbitrary: st) (auto intro!: returns_obind)

lemma sub_rules_loop_returns:
  assumes "helper_ok h" "\<And>r s. r \<in> set rs \<Longrightarrow> returns (m r s)"
    and "\<And>a s. a \<in> sub_targets rs \<Longrightarrow> returns (sub a s)"
  shows "returns (sub_rules_loop m sub h rs st)"
  using assms(2,3)
proof (induction rs arbitrary: st)
  case (Cons r rs)
  have "sub_targets rs \<subseteq> sub_targets (r # rs)" by (auto simp: sub_targets_def)
  hence IH: "returns (sub_rules_loop m sub h rs s)" for s
    by (intro Cons.IH) (use Cons.prems in auto)
  have "RuleType r = SubRules_rt \<Longrightarrow> returns (sub (Adapter r) s)" for s
    using Cons.prems(2) by (auto simp: sub_targets_def no_sub_def)
  thus ?case using IH Cons.prems(1)[of r] helper_ok_returns(4)[OF assms(1)]
    by (auto intro!: returns_obind)
qed simp

lemma Match_Logic_returns:
  assumes "wf_rule (RLogic l)" "\<And>r s. r \<in> set (logic_rules l) \<Longrightarrow> returns (m r s)"
    and "logic_ruleType l = SubRules_rt \<Longrightarrow> \<forall>s. returns (sub (logic_adapter l) s)"
  shows "returns (Match_Logic m sub l st)"
proof -
  have one: "logic_ruleType l \<in> {NOT_rt, SubRules_rt} \<Longrightarrow> \<exists>r. logic_rules l = [r]"
    using assms(1) by (auto simp: length_Suc_conv)
  have "logic_ruleType l \<in> {AND_rt, OR_rt, NOT_rt, SubRules_rt}" using assms(1) by simp
  thus ?thesis using one assms(2,3) first_match_returns[of "logic_rules l" m st] all_match_returns[of "logic_rules l" m st]
    by (auto simp: Match_Logic_def idx_get_def intro!: returns_obind)
qed

lemma Match_RuleSet_returns:
  assumes "helper_ok h" "\<And>rules cnt r h' s. RuleProviders C (rs_ruleProviderName rs) = Some (Some (classicalStrategy rules cnt)) \<Longrightarrow>
    r \<in> set rules \<Longrightarrow> helper_ok h' \<Longrightarrow> returns (m h' r s)"
  shows "returns (Match_RuleSet (Match_baseProvider m) C h rs st)"
proof -
  have "returns (Match_baseProvider m prov h' s)"
    if "RuleProviders C (rs_ruleProviderName rs) = Some prov" "helper_ok h'" for prov h' s
    using that assms(2) helper_ok_returns[OF that(2)]
    by (auto simp: Match_baseProvider_def Match_classical_def Match_domain_def Match_ipcidr_def
        intro!: returns_obind first_match_returns split: option.splits ruleStrategy.splits)
  thus ?thesis using assms(1)
    by (auto simp: Match_RuleSet_def intro!: returns_obind split: option.splits)
qed

lemma flat_Match_returns:
  "wf_rule r \<Longrightarrow> no_sub r \<Longrightarrow> helper_ok h \<Longrightarrow> acyclic_sets C rk \<Longrightarrow>
   (\<And>q. q \<in> set (ProviderNames r) \<Longrightarrow> rk q < n) \<Longrightarrow> returns (Match n E C h r st)"
proof (induction n E C h r st rule: Match.induct)
  case (21 n E C h rs st)
  then obtain k where k: "n = Suc k" by (cases n) auto
  have "returns (Match k E C h' r s)" if "RuleProviders C (rs_ruleProviderName rs) = Some (Some (classicalStrategy rules cnt))"
    "r \<in> set rules" "helper_ok h'" for rules cnt r h' s
  proof (rule 21(1)[OF k])
    show "wf_rule r" "no_sub r" "helper_ok h'" "acyclic_sets C rk"
      using that 21(5) by (auto simp: acyclic_sets_def)
    have "rk (rs_ruleProviderName rs) < n" using 21(6) by simp
    moreover have "rk q < rk (rs_ruleProviderName rs)" if "q \<in> set (ProviderNames r)" for q
      using that 21(5) \<open>RuleProviders C _ = _\<close> \<open>r \<in> set rules\<close> by (auto simp: acyclic_sets_def)
    ultimately show "rk q < k" if "q \<in> set (ProviderNames r)" for q using that k by fastforce
  qed
  thus ?case using 21(4) k by (auto intro!: Match_RuleSet_returns)
next
  case (22 n E C h l st)
  have "returns (Match n E C h r s)" if r: "r \<in> set (logic_rules l)" for r s
  proof (rule 22(1)[OF r])
    show "wf_rule r" "no_sub r" using r 22(3) by auto
    show "rk q < n" if "q \<in> set (ProviderNames r)" for q by (rule 22(7)) (use r that in auto)
  qed (use 22 in auto)
  thus ?case using 22(3,4) by (auto simp: no_sub_def simp del: wf_rule.simps intro!: Match_Logic_returns)
next
  case (23 n E C h a r st)
  thus ?case by (auto simp: Match_RuleWrapper_def no_sub_def intro!: returns_obind)
qed (simp_all add: leaf_returns GEOIP_returns IPSuffix_returns Process_returns del: wf_rule.simps)

lemma sub_Match_returns:
  "wf_rule r \<Longrightarrow> \<not> no_sub r \<Longrightarrow> helper_ok h \<Longrightarrow> acyclic_sets C rk \<Longrightarrow> (\<And>q. rk q < n) \<Longrightarrow>
   (\<And>s. returns (matchSubRules (\<lambda>k r st. Match k E C h r st) C h n (Adapter r) s)) \<Longrightarrow>
   returns (Match n E C h r st)"
proof (induction n E C h r st rule: Match.induct)
  case (22 n E C h l st)
  have "returns (Match n E C h r s)" if r: "r \<in> set (logic_rules l)" for r s
    by (rule flat_Match_returns) (use r 22 in auto)
  thus ?case using 22(3,8) by (auto simp del: wf_rule.simps intro!: Match_Logic_returns)
next
  case (23 n E C h a r st)
  thus ?case by (auto simp: Match_RuleWrapper_def no_sub_def intro!: returns_obind)
qed (auto simp: no_sub_def leaf_types split: if_splits)

lemma Match_returns:
  assumes "wf_rule r" "helper_ok h" "acyclic_sets C rk" "\<And>q. rk q < n"
    and "\<not> no_sub r \<Longrightarrow> \<forall>s. returns (matchSubRules (\<lambda>k r st. Match k E C h r st) C h n (Adapter r) s)"
  shows "returns (Match n E C h r st)"
  using assms by (cases "no_sub r") (auto intro: flat_Match_returns sub_Match_returns)

lemma verified_matchSubRules:
  assumes "finite (dom (subRules C))" "wf_subs (subRules C)" "helper_ok h" "acyclic_sets C rk" "\<And>q. rk q < R"
  shows "distinct arr \<Longrightarrow> set arr \<subseteq> dom (subRules C) \<Longrightarrow> verify_loop (subRules C) n arr i rules = Some None \<Longrightarrow>
    a \<in> sub_targets rules \<Longrightarrow> R + 1 + (card (dom (subRules C)) - length arr) \<le> k \<Longrightarrow>
    returns (matchSubRules (\<lambda>k r st. Match k E C h r st) C h k a st)"
proof (induction "card (dom (subRules C)) - length arr" arbitrary: n arr i rules a k st rule: less_induct)
  case less
  let ?M = "\<lambda>k r st. Match k E C h r st"
  obtain rs where rs: "a \<notin> set arr" "subRules C a = Some rs" "verify_loop (subRules C) a (arr @ [a]) 0 rs = Some None"
    using less.prems(3,4) by (subst (asm) verify_loop_ok) blast
  obtain k' where k': "k = Suc k'" using less.prems(5) by (cases k) auto
  have arr: "distinct (arr @ [a])" "set (arr @ [a]) \<subseteq> dom (subRules C)" using rs less.prems(1,2) by auto
  hence "length (arr @ [a]) \<le> card (dom (subRules C))" using assms(1) by (metis card_mono distinct_card)
  hence d: "card (dom (subRules C)) - length (arr @ [a]) < card (dom (subRules C)) - length arr" by simp
  hence kR: "R + 1 + (card (dom (subRules C)) - length (arr @ [a])) \<le> k'" using less.prems(5) k' by simp
  have sub: "returns (matchSubRules ?M C h k' b s)" if "b \<in> sub_targets rs" for b s
    by (rule less.hyps[OF d arr rs(3) that kR])
  have "returns (Match k' E C h r s)" if r: "r \<in> set rs" for r s
  proof (rule Match_returns)
    show "wf_rule r" using r rs(2) assms(2) by (auto simp: wf_subs_def)
    show "rk q < k'" for q using assms(5)[of q] kR by linarith
    show "\<not> no_sub r \<Longrightarrow> \<forall>s. returns (matchSubRules ?M C h k' (Adapter r) s)"
      using r sub by (auto simp: sub_targets_def)
  qed (use assms in auto)
  thus ?case using sub rs(2) by (simp add: k' rules_of_def sub_rules_loop_returns[OF assms(3)])
qed

text \<open>All rules return on sub-rules that have passed the verification.\<close>

lemma verified_Match_returns:
  assumes "finite (dom (subRules C))" "wf_subs (subRules C)" "helper_ok h" "acyclic_sets C rk" "\<And>q. rk q < R"
    and "verifySubRule (subRules C) names = Some None" "set names = dom (subRules C)"
    and "wf_rule r" "R + card (dom (subRules C)) < n"
  shows "returns (Match n E C h r st)"
proof (rule Match_returns)
  let ?M = "\<lambda>k r st. Match k E C h r st"
  show "\<not> no_sub r \<Longrightarrow> \<forall>s. returns (matchSubRules ?M C h n (Adapter r) s)"
  proof (intro allI)
    fix s
    obtain k where k: "n = Suc k" using assms(9) by (cases n) auto
    let ?a = "Adapter r"
    show "returns (matchSubRules ?M C h n ?a s)"
    proof (cases "subRules C ?a")
      case None
      thus ?thesis by (simp add: k rules_of_def)
    next
      case (Some rs)
      hence v: "verify_loop (subRules C) ?a [?a] 0 rs = Some None"
        using assms(6,7) by (force simp: verifySubRule_ok verifySubRuleCircularReferences_def)
      have "card (dom (subRules C)) > 0" using Some assms(1) by (auto simp: card_gt_0_iff)
      hence kR: "R + 1 + (card (dom (subRules C)) - length [?a]) \<le> k" using assms(9) k by simp
      have sub: "returns (matchSubRules ?M C h k b s)" if "b \<in> sub_targets rs" for b s
        by (rule verified_matchSubRules[OF assms(1-5) _ _ v that kR]) (use Some in auto)
      have "returns (Match k E C h r' s)" if r': "r' \<in> set rs" for r' s
      proof (rule Match_returns)
        show "wf_rule r'" using r' Some assms(2) by (auto simp: wf_subs_def)
        show "rk q < k" for q using assms(5)[of q] kR by linarith
        show "\<not> no_sub r' \<Longrightarrow> \<forall>s. returns (matchSubRules ?M C h k (Adapter r') s)"
          using r' sub by (auto simp: sub_targets_def)
      qed (use assms in auto)
      thus ?thesis using sub Some by (simp add: k rules_of_def sub_rules_loop_returns[OF assms(3)])
    qed
  qed
  show "rk q < n" for q using assms(5)[of q] assms(9) by linarith
qed (use assms in auto)

section \<open>Rule sets of a configuration\<close>

lemma payloadToRule_classical_yields: "yields (\<lambda>r. wf_rule r \<and> no_sub r) (payloadToRule_classical E raw)"
proof -
  obtain tp payload target params where p: "ParseRulePayload raw False = (tp, payload, target, params)"
    by (cases "ParseRulePayload raw False") auto
  show ?thesis unfolding payloadToRule_classical_def p prod.case
    by (rule yields_if, simp, rule yields_weaken[OF parse_rule_yields]) (auto simp: parsed_ok_def)
qed

lemma insert_all_wf:
  "insert_all E raws c = Return c' \<Longrightarrow> \<forall>r\<in>set (fst c). wf_rule r \<and> no_sub r \<Longrightarrow> \<forall>r\<in>set (fst c'). wf_rule r \<and> no_sub r"
proof (induction raws arbitrary: c)
  case (Cons raw raws)
  show ?case
  proof (cases "raw = ''''")
    case False
    then obtain d where d: "Insert_classical E raw c = Return d" "insert_all E raws d = Return c'"
      using Cons.prems(1) by (cases "Insert_classical E raw c") auto
    from payloadToRule_classical_yields[of E raw]
    consider e where "payloadToRule_classical E raw = Return (Inl e)"
      | r where "payloadToRule_classical E raw = Return (Inr r)" "wf_rule r" "no_sub r"
      unfolding yields_def by blast
    hence "\<forall>r\<in>set (fst d). wf_rule r \<and> no_sub r"
      by cases (use d(1) Cons.prems(2) in \<open>auto simp: Insert_classical_def\<close>)
    thus ?thesis by (rule Cons.IH[OF d(2)])
  next
    case True
    hence "insert_all E raws c = Return c'" using Cons.prems(1) by simp
    thus ?thesis by (rule Cons.IH) (rule Cons.prems(2))
  qed
qed simp

lemma loaded_acyclic: "loaded_sets E P \<Longrightarrow> ranked_sets P rk \<Longrightarrow> acyclic_sets \<lparr>RuleProviders = P, subRules = subs\<rparr> rk"
  unfolding acyclic_sets_def conf.simps
proof (intro allI impI ballI)
  fix p rules cnt r
  assume a: "loaded_sets E P" "ranked_sets P rk" "P p = Some (Some (classicalStrategy rules cnt))" "r \<in> set rules"
  then obtain raw c where "rulesParseInline E raw c = Return (classicalStrategy rules cnt)"
    unfolding loaded_sets_def by blast
  hence "insert_all E raw (Reset_classical c) = Return (rules, cnt)"
    unfolding rulesParseInline_def by (cases "insert_all E raw (Reset_classical c)") (auto split: prod.splits)
  hence "\<forall>r\<in>set rules. wf_rule r \<and> no_sub r"
    using insert_all_wf[of E raw "Reset_classical c" "(rules, cnt)"] by (simp add: Reset_classical_def)
  thus "wf_rule r \<and> no_sub r \<and> (\<forall>q\<in>set (ProviderNames r). rk q < rk p)"
    using a by (auto simp: ranked_sets_def)
qed

lemma parseSubRules_verified:
  assumes "parseSubRules E cfg proxies sets = Return (Inr subs)"
  shows "wf_subs subs \<and> dom subs = set (map fst cfg) \<and> verifySubRule subs (map fst cfg) = Some None"
proof -
  define N where "N = set (map fst cfg)"
  define subs0 where "subs0 = (\<lambda>name. if name \<in> N then Some ([] :: rule list) else None)"
  define m where "m = parse_sub_lists E proxies sets N cfg subs0"
  have res: "robind m (\<lambda>subs'. obind (of_loop (verifySubRule subs' (map fst cfg))) (\<lambda>err.
      Return (case err of Some e \<Rightarrow> Inl e | None \<Rightarrow> Inr subs'))) = Return (Inr subs)"
    using assms unfolding parseSubRules_def Let_def N_def[symmetric] subs0_def[symmetric] m_def[symmetric] .
  have "yields (\<lambda>subs'. wf_subs subs' \<and> dom subs' = N) m"
    unfolding m_def by (rule parse_sub_lists_yields) (auto simp: wf_subs_def subs0_def N_def dom_def)
  then consider e where "m = Return (Inl e)" | subs' where "m = Return (Inr subs')" "wf_subs subs'" "dom subs' = N"
    unfolding yields_def by blast
  thus ?thesis
  proof cases
    case 1
    thus ?thesis using res by (simp add: robind_def)
  next
    case (2 subs')
    have "subs' = subs \<and> verifySubRule subs' (map fst cfg) = Some None"
    proof (cases "verifySubRule subs' (map fst cfg)")
      case None
      thus ?thesis using res 2(1) by (simp add: robind_def)
    next
      case (Some err)
      thus ?thesis using res 2(1) by (cases err) (simp_all add: robind_def)
    qed
    thus ?thesis using 2(2,3) unfolding N_def by blast
  qed
qed

lemma parseRules_wf: "parseRules E lines proxies sets names fmt = Return (Inr rules) \<Longrightarrow> r \<in> set rules \<Longrightarrow> wf_rule r"
proof -
  assume a: "parseRules E lines proxies sets names fmt = Return (Inr rules)" "r \<in> set rules"
  have "yields (\<lambda>rs. \<forall>r\<in>set rs. wf_rule r) (parseRules E lines proxies sets names fmt)"
    unfolding parseRules_def by (rule parse_lines_yields)
  thus "wf_rule r" unfolding a(1) yields_simps using a(2) by blast
qed

lemma verified_config_returns:
  assumes "parseSubRules E cfg proxies sets = Return (Inr subs)"
    and "parseRules E rulesConfig proxies sets (set (map fst cfg)) ''rules'' = Return (Inr rules)"
    and "loaded_sets E P" "ranked_sets P rk" "\<And>q. rk q < R" "helper_ok h" "r \<in> set rules" "R + length cfg < n"
  shows "returns (Match n E \<lparr>RuleProviders = P, subRules = subs\<rparr> h r st)"
proof (rule verified_Match_returns[where rk = rk and R = R and names = "map fst cfg"])
  have v: "wf_subs subs" "dom subs = set (map fst cfg)" "verifySubRule subs (map fst cfg) = Some None"
    using parseSubRules_verified[OF assms(1)] by blast+
  have "card (dom subs) \<le> length cfg" unfolding v(2) by (metis card_length length_map)
  thus "R + card (dom (subRules \<lparr>RuleProviders = P, subRules = subs\<rparr>)) < n" using assms(8) by simp
  show "acyclic_sets \<lparr>RuleProviders = P, subRules = subs\<rparr> rk" by (rule loaded_acyclic[OF assms(3,4)])
  show "wf_rule r" by (rule parseRules_wf[OF assms(2,7)])
qed (use parseSubRules_verified[OF assms(1)] assms in auto)

section \<open>A rule set that contains itself\<close>

lemma circular_set_diverges:
  assumes "RuleProviders C ''loop'' = Some (Some circular_set)" "rs_ruleProviderName rs = ''loop''"
  shows "Match n E C h (RRuleSet rs) st = Diverges"
  using assms(2)
proof (induction n arbitrary: h rs st)
  case (Suc n)
  have "Match n E C h' (RRuleSet \<lparr>rs_ruleProviderName = ''loop'', rs_adapter = '''', rs_isSrc = False, rs_noResolveIP = False\<rparr>) s = Diverges" for h' s
    by (rule Suc.IH) simp
  thus ?case using Suc.prems assms(1)
    by (simp add: Match_RuleSet_def Match_baseProvider_def circular_set_def Match_classical_def Match_Logic_def)
qed simp

lemma circular_set_loads: "rulesParseInline E [''AND,((RULE-SET,loop))''] c = Return circular_set"
proof -
  have "insert_all E [''AND,((RULE-SET,loop))''] ([], 0) = Return (c_rules circular_set, 1)"
    unfolding circular_set_def by code_simp
  thus ?thesis by (simp add: rulesParseInline_def Reset_classical_def circular_set_def)
qed

section \<open>Example configurations\<close>

declare verify_loop.simps [code]

lemma example_sets_loaded: "loaded_sets bare_env example_sets \<and> ranked_sets example_sets (\<lambda>_. 0)"
proof -
  have "insert_all bare_env [''DOMAIN-KEYWORD,ads''] ([], 0) = Return ([RDomainKeyword \<lparr>dk_keyword = ''ads'', dk_adapter = ''''\<rparr>], 1)"
    by code_simp
  hence "rulesParseInline bare_env [''DOMAIN-KEYWORD,ads''] ([], 0) =
    Return (classicalStrategy [RDomainKeyword \<lparr>dk_keyword = ''ads'', dk_adapter = ''''\<rparr>] 1)"
    by (simp add: rulesParseInline_def Reset_classical_def)
  thus ?thesis unfolding loaded_sets_def ranked_sets_def example_sets_def by (auto split: if_splits)
qed

lemma succeedsE: "succeeds m \<Longrightarrow> (\<And>x. m = Return (Inr x) \<Longrightarrow> thesis) \<Longrightarrow> thesis"
  by (auto simp: succeeds_def split: outcome.splits sum.splits)

lemma example_config:
  "succeeds (parseSubRules bare_env example_subs {''DIRECT''} {''ads''})"
  "succeeds (parseRules bare_env example_rules {''DIRECT''} {''ads''} (set (map fst example_subs)) ''rules'')"
  by code_simp+

text \<open>A payload in one pair of parentheses with none inside has one range, the outermost.\<close>

lemma format_loop_flat:
  "CHR ''('' \<notin> set s \<Longrightarrow> CHR '')'' \<notin> set s \<Longrightarrow>
   format_loop i stack subRanges (s @ cs) = format_loop (i + length s) stack subRanges cs"
  by (induction s arbitrary: i) auto

lemma flat_group_is_empty:
  assumes "CHR ''('' \<notin> set s" "CHR '')'' \<notin> set s"
  shows "parsePayload (''('' @ s @ '')'') parseRule = Return (Inr [])"
proof -
  have "format (''('' @ s @ '')'') = Inr [\<lparr>start = 0, endr = Suc (length s)\<rparr>]"
    using format_loop_flat[OF assms, of 1 "[0]" "[]" "'')''"] by (simp add: format_def)
  moreover have "findSubRuleRange (''('' @ s @ '')'') [\<lparr>start = 0, endr = Suc (length s)\<rparr>] = []"
    by (simp add: findSubRuleRange_def keep_range_def)
  moreover have "HasPrefix (''('' @ s @ '')'') ''(''" "HasSuffix (''('' @ s @ '')'') '')''"
    by (simp_all add: HasPrefix_def HasSuffix_iff)
  ultimately show ?thesis by (simp add: parsePayload_def)
qed

lemma nested_group_is_one:
  assumes "CHR ''('' \<notin> set s" "CHR '')'' \<notin> set s"
  shows "parsePayload (''('' @ (''('' @ s @ '')'') @ '')'') parseRule =
    robind (payloadToRule parseRule s) (\<lambda>r. Return (Inr [r]))"
proof -
  let ?p = "''('' @ (''('' @ s @ '')'') @ '')''"
  let ?in = "\<lparr>start = 1, endr = 2 + length s\<rparr> :: nat Range" and ?out = "\<lparr>start = 0, endr = 3 + length s\<rparr> :: nat Range"
  have "format ?p = Inr [?out, ?in]"
    using format_loop_flat[OF assms, of 2 "[1, 0]" "[]" "''))''"] by (simp add: format_def numeral_eq_Suc)
  moreover have "findSubRuleRange ?p [?out, ?in] = [?in]" by (simp add: findSubRuleRange_def keep_range_def)
  moreover have "HasPrefix ?p ''(''" "HasSuffix ?p '')''" by (simp_all add: HasPrefix_def HasSuffix_iff)
  moreover have "slice_of ?p 2 (2 + int (length s)) = Return s" by (simp add: slice_of_def nat_add_distrib)
  ultimately show ?thesis by (simp add: parsePayload_def robind_def)
qed

lemma NewSubRule_group:
  assumes "CHR ''('' \<notin> set s" "CHR '')'' \<notin> set s"
  shows "NewSubRule (''('' @ s @ '')'') target parse =
    robind (payloadToRule parse s) (\<lambda>r. Return (Inr (Logic (''('' @ s @ '')'') target SubRules_rt [r])))"
  unfolding NewSubRule_def nested_group_is_one[OF assms] robind_def
  by (cases "payloadToRule parse s") (auto split: sum.split)

section \<open>Properties\<close>

text \<open>
  C7.  The check of sub-rules always ends, and it accepts a table exactly when every sub-rule that
  is referred to exists and no sub-rule refers to itself, directly or through others.
\<close>

theorem verifySubRule_sound_complete:
  assumes "finite (dom subs)" "set names = dom subs"
  shows "verifySubRule subs names \<noteq> None \<and>
    (verifySubRule subs names = Some None \<longleftrightarrow>
       Range (refers subs) \<subseteq> dom subs \<and> acyclic (refers subs))"
  using verifySubRule_returns[OF assms(1)] verifySubRule_iff[OF assms] assms(2)
  by (simp add: well_founded_subs_def)

theorem verifySubRule_sound_complete_witness:
  "verifySubRule self_table [''a''] \<noteq> None \<and> verifySubRule self_table [''a''] \<noteq> Some None"
proof -
  have "(''a'', ''a'') \<in> refers self_table"
    by (auto simp: refers_def self_table_def sub_targets_def no_sub_def)
  hence "\<not> acyclic (refers self_table)" unfolding acyclic_def by blast
  thus ?thesis using verifySubRule_sound_complete[of self_table "[''a'']"] by (simp add: self_table_def)
qed

text \<open>
  C5.  In a configuration whose sub-rules and rules the parser has accepted, matching a rule returns
  an answer for every connection: it neither panics nor runs into endless recursion.  The rule sets
  are those the parser has read, and they must not contain each other in a circle, which the program
  does not check.  The depth of the recursion is bounded by the number of sub-rules plus the rank of
  the rule sets.
\<close>

theorem accepted_rules_match:
  assumes "parseSubRules E cfg proxies sets = Return (Inr subs)"
    and "parseRules E rulesConfig proxies sets (set (map fst cfg)) ''rules'' = Return (Inr rules)"
    and "loaded_sets E P" "ranked_sets P rk" "\<forall>q. rk q < R" "helper_ok h" "r \<in> set rules" "R + length cfg < n"
  shows "\<exists>b a st'. Match n E \<lparr>RuleProviders = P, subRules = subs\<rparr> h r st = Return ((b, a), st')"
  using verified_config_returns[OF assms(1-4) _ assms(6-8)] assms(5) by (auto simp: returns_def)

theorem accepted_rules_match_witness:
  "\<exists>subs rules b a st'.
     parseSubRules bare_env example_subs {''DIRECT''} {''ads''} = Return (Inr subs) \<and>
     Match 4 bare_env \<lparr>RuleProviders = example_sets, subRules = subs\<rparr> no_helper (rules ! 0) bare_state = Return ((b, a), st')"
proof -
  obtain subs where s: "parseSubRules bare_env example_subs {''DIRECT''} {''ads''} = Return (Inr subs)"
    by (rule succeedsE[OF example_config(1)])
  obtain rules where r: "parseRules bare_env example_rules {''DIRECT''} {''ads''} (set (map fst example_subs)) ''rules'' = Return (Inr rules)"
    by (rule succeedsE[OF example_config(2)])
  have "succeeds (robind (parseRules bare_env example_rules {''DIRECT''} {''ads''} (set (map fst example_subs)) ''rules'')
    (\<lambda>rs. if rs = [] then Diverges else Return (Inr ())))" by code_simp
  hence "rules ! 0 \<in> set rules" using r by (cases rules) (auto simp: robind_def succeeds_def)
  moreover have "helper_ok no_helper" by (simp add: helper_ok_def no_helper_def)
  ultimately show ?thesis
    using accepted_rules_match[OF s r conjunct1[OF example_sets_loaded] conjunct2[OF example_sets_loaded], of 1 no_helper "rules ! 0" 4 bare_state]
      s by (auto simp: example_subs_def)
qed

text \<open>
  C21.  A classical rule set may contain itself inside a logic rule: the loader accepts it, and then no
  depth of recursion is enough to match it against any connection.
\<close>

theorem circular_rule_set_never_returns:
  "rulesParseInline E [''AND,((RULE-SET,loop))''] c = Return circular_set \<and>
   Match n E (C\<lparr>RuleProviders := [''loop'' \<mapsto> Some circular_set]\<rparr>) h
     (RRuleSet (NewRuleSet ''loop'' adapter isSrc noResolve)) st = Diverges"
  by (rule conjI, rule circular_set_loads, rule circular_set_diverges) (simp_all add: NewRuleSet_def)

text \<open>
  C22.  A logic rule whose payload is any text in a single pair of parentheses, such as
  \<open>AND,(DOMAIN,example.com),target\<close>, is accepted with no rule inside, whatever the text says: the
  only range is taken for the outermost one and skipped, and the text is never parsed.  The AND rule
  then matches every connection and the OR rule none.  NOT and SUB-RULE differ: NOT refuses the
  payload, because it counts the rules, and SUB-RULE adds the outer parentheses itself and parses
  the text as its one rule.
\<close>

theorem single_group_is_never_parsed:
  assumes "CHR ''('' \<notin> set s" "CHR '')'' \<notin> set s" and "payload = ''('' @ s @ '')''"
  shows "parse_rule E ''AND'' payload target params = Return (Inr (RLogic (Logic payload target AND_rt []))) \<and>
    Match n E C h (RLogic (Logic payload target AND_rt [])) st = Return ((True, target), st) \<and>
    parse_rule E ''OR'' payload target params = Return (Inr (RLogic (Logic payload target OR_rt []))) \<and>
    Match n E C h (RLogic (Logic payload target OR_rt [])) st = Return ((False, ''''), st) \<and>
    parse_rule E ''NOT'' payload target params = Return (Inl ''not rule must contain one rule'') \<and>
    NewSubRule payload target parse = robind (payloadToRule parse s) (\<lambda>r. Return (Inr (Logic payload target SubRules_rt [r])))"
  using flat_group_is_empty[OF assms(1,2)] NewSubRule_group[OF assms(1,2), of target parse] assms(3)
  by (simp add: parse_rule_def ParseRule.simps NewAND_def NewOR_def NewNOT_def made_logic_def
      robind_def Match_Logic_def answer_def split_beta del: append_Cons)

theorem single_group_is_never_parsed_witness:
  "parse_rule bare_env ''AND'' ''(DOMAIN,example.com)'' ''REJECT'' [] =
     Return (Inr (RLogic (Logic ''(DOMAIN,example.com)'' ''REJECT'' AND_rt []))) \<and>
   Match 1 bare_env \<lparr>RuleProviders = example_sets, subRules = self_table\<rparr> no_helper
     (RLogic (Logic ''(DOMAIN,example.com)'' ''REJECT'' AND_rt [])) bare_state = Return ((True, ''REJECT''), bare_state)"
  using single_group_is_never_parsed[of "''DOMAIN,example.com''" "''(DOMAIN,example.com)''" bare_env "''REJECT''" "[]" 1
    "\<lparr>RuleProviders = example_sets, subRules = self_table\<rparr>" no_helper bare_state] by simp

end
