(* ===== verification/Frame_Proofs.thy ===== *)
theory Frame_Proofs
  imports Match_Proofs
begin

text \<open>
  What matching may change.  The locale \<open>match_relation\<close> says what a relation between the states
  before and after must satisfy so that it holds for the matching of every rule, however deep; it is
  interpreted with the relation that keeps the connection and with the one that keeps the counters.
\<close>

text \<open>
  The two metadata differ at most in the resolved destination, the cached regions and networks, and
  what is known of the process.
\<close>

definition framed :: "Metadata \<Rightarrow> Metadata \<Rightarrow> bool" where
  "framed m m' \<longleftrightarrow>
     m' = m\<lparr>DstIP := DstIP m', SrcGeoIP := SrcGeoIP m', DstGeoIP := DstGeoIP m', SrcIPASN := SrcIPASN m',
            DstIPASN := DstIPASN m', Uid := Uid m', Process := Process m', ProcessPath := ProcessPath m'\<rparr>"

text \<open>The callbacks keep to it: one sets the destination, the other the process.\<close>

definition helper_framed :: "RuleMatchHelper \<Rightarrow> bool" where
  "helper_framed h \<longleftrightarrow>
     (\<forall>f s t. ResolveIP h = Some f \<longrightarrow> f s = Return t \<longrightarrow> framed (md s) (md t)) \<and>
     (\<forall>f s t. FindProcess h = Some f \<longrightarrow> f s = Return t \<longrightarrow> framed (md s) (md t) \<and> DstIP (md t) = DstIP (md s))"

definition helper_uncounted :: "RuleMatchHelper \<Rightarrow> bool" where
  "helper_uncounted h \<longleftrightarrow>
     (\<forall>f s t. ResolveIP h = Some f \<or> FindProcess h = Some f \<longrightarrow> f s = Return t \<longrightarrow>
        wrappers t = wrappers s \<and> tick t = tick s)"

definition keeps_connection :: "RuleMatchHelper \<Rightarrow> mstate \<Rightarrow> mstate \<Rightarrow> bool" where
  "keeps_connection h s t \<longleftrightarrow>
     framed (md s) (md t) \<and> (ResolveIP h = None \<longrightarrow> DstIP (md t) = DstIP (md s))"

definition keeps_counters :: "RuleMatchHelper \<Rightarrow> mstate \<Rightarrow> mstate \<Rightarrow> bool" where
  "keeps_counters h s t \<longleftrightarrow> (Diagnostic h \<longrightarrow> wrappers t = wrappers s \<and> tick t = tick s)"

lemma leaf_same:
  "Match_Domain d s = Return (x, t) \<Longrightarrow> t = s"
  "Match_DomainSuffix ds s = Return (x, t) \<Longrightarrow> t = s"
  "Match_DomainKeyword dk s = Return (x, t) \<Longrightarrow> t = s"
  "Match_DomainRegex E dr s = Return (x, t) \<Longrightarrow> t = s"
  "Match_DomainWildcard dw s = Return (x, t) \<Longrightarrow> t = s"
  "Match_GEOSITE E gs s = Return (x, t) \<Longrightarrow> t = s"
  "Match_Port p s = Return (x, t) \<Longrightarrow> t = s"
  "Match_DSCP dscp s = Return (x, t) \<Longrightarrow> t = s"
  "Match_InName inn s = Return (x, t) \<Longrightarrow> t = s"
  "Match_InUser iu s = Return (x, t) \<Longrightarrow> t = s"
  "Match_InType it s = Return (x, t) \<Longrightarrow> t = s"
  "Match_NetworkType nt s = Return (x, t) \<Longrightarrow> t = s"
  "Match_RematchName rn s = Return (x, t) \<Longrightarrow> t = s"
  "Match_Match f s = Return (x, t) \<Longrightarrow> t = s"
  by (simp_all add: Match_Domain_def Match_DomainSuffix_def Match_DomainKeyword_def Match_DomainRegex_def
      Match_DomainWildcard_def Match_wildcard_glob Match_GEOSITE_def Match_Port_def Match_DSCP_def Match_InName_def
      Match_InUser_def Match_InType_def Match_NetworkType_def Match_RematchName_def Match_Match_def answer_def Let_def
      split: if_splits)

locale match_relation =
  fixes ok :: "RuleMatchHelper \<Rightarrow> bool" and R :: "RuleMatchHelper \<Rightarrow> mstate \<Rightarrow> mstate \<Rightarrow> bool"
  assumes rel_refl: "R h s s"
    and rel_trans: "R h s t \<Longrightarrow> R h t u \<Longrightarrow> R h s u"
    and ok_nil: "ok h \<Longrightarrow> ok (h\<lparr>ResolveIP := None\<rparr>)"
    and rel_nil: "R (h\<lparr>ResolveIP := None\<rparr>) s t \<Longrightarrow> R h s t"
    and rel_swap: "R (h\<lparr>ResolveIP := None\<rparr>) (swap_md s) t \<Longrightarrow> R h s (swap_md t)"
    and rel_resolve: "ok h \<Longrightarrow> ResolveIP h = Some f \<Longrightarrow> f s = Return t \<Longrightarrow> R h s t"
    and rel_find: "ok h \<Longrightarrow> FindProcess h = Some f \<Longrightarrow> f s = Return t \<Longrightarrow> R h s t"
    and rel_geo: "R h s (set_geo_cache b codes s)"
    and rel_asn: "R h s (s\<lparr>md := md s\<lparr>SrcIPASN := x\<rparr>\<rparr>)" "R h s (s\<lparr>md := md s\<lparr>DstIPASN := x\<rparr>\<rparr>)"
    and rel_count: "\<not> Diagnostic h \<Longrightarrow> R h s (Hit a s)" "\<not> Diagnostic h \<Longrightarrow> R h s (Miss a s)"
begin

lemma rel_call_back:
  "ok h \<Longrightarrow> call_back (ResolveIP h) s = Return t \<Longrightarrow> R h s t"
  "ok h \<Longrightarrow> call_back (FindProcess h) s = Return t \<Longrightarrow> R h s t"
  "ok h \<Longrightarrow> resolve_for a b h s = Return t \<Longrightarrow> R h s t"
  by (auto simp: call_back_def resolve_for_def split: option.splits if_splits intro: rel_refl rel_resolve rel_find)

lemma rel_leaf:
  assumes "ok h"
  shows "Match_GEOIP E h g s = Return (x, t) \<Longrightarrow> R h s t"
    and "Match_ASN E h a s = Return (x, t) \<Longrightarrow> R h s t"
    and "Match_IPCIDR h i s = Return (x, t) \<Longrightarrow> R h s t"
    and "Match_IPSuffix h sf s = Return (x, t) \<Longrightarrow> R h s t"
    and "Match_Process E h ps s = Return (x, t) \<Longrightarrow> R h s t"
    and "Match_Uid h u s = Return (x, t) \<Longrightarrow> R h s t"
  using rel_call_back[OF assms]
  by (auto simp: Match_GEOIP_def Match_ASN_def Match_IPCIDR_def Match_IPSuffix_def Match_Process_def Match_Uid_def
      answer_def Let_def obind_eq_Return split: if_splits option.splits sum.splits prod.splits
      intro: rel_trans[OF _ rel_geo] rel_trans[OF _ rel_asn(1)] rel_trans[OF _ rel_asn(2)])

lemma rel_first_match:
  "(\<And>r s x t. r \<in> set rs \<Longrightarrow> m r s = Return (x, t) \<Longrightarrow> R h s t) \<Longrightarrow> first_match m rs s = Return (b, t) \<Longrightarrow> R h s t"
proof (induction rs arbitrary: s)
  case (Cons r rs)
  from Cons.prems(2) obtain c a s' where s': "m r s = Return ((c, a), s')"
    "(if c then Return (True, s') else first_match m rs s') = Return (b, t)"
    by (auto simp: obind_eq_Return)
  have 1: "R h s s'" using Cons.prems(1)[OF _ s'(1)] by simp
  have IH: "R h s' t" if "first_match m rs s' = Return (b, t)"
    by (rule Cons.IH[OF _ that], rule Cons.prems(1)) auto
  have 2: "R h s' t" using s'(2) IH rel_refl by (cases c) auto
  from 1 2 show ?case by (rule rel_trans)
qed (auto intro: rel_refl)

lemma rel_all_match:
  "(\<And>r s x t. r \<in> set rs \<Longrightarrow> m r s = Return (x, t) \<Longrightarrow> R h s t) \<Longrightarrow> all_match m rs s = Return (b, t) \<Longrightarrow> R h s t"
proof (induction rs arbitrary: s)
  case (Cons r rs)
  from Cons.prems(2) obtain c a s' where s': "m r s = Return ((c, a), s')"
    "(if c then all_match m rs s' else Return (False, s')) = Return (b, t)"
    by (auto simp: obind_eq_Return)
  have 1: "R h s s'" using Cons.prems(1)[OF _ s'(1)] by simp
  have IH: "R h s' t" if "all_match m rs s' = Return (b, t)"
    by (rule Cons.IH[OF _ that], rule Cons.prems(1)) auto
  have 2: "R h s' t" using s'(2) IH rel_refl by (cases c) auto
  from 1 2 show ?case by (rule rel_trans)
qed (auto intro: rel_refl)

lemma rel_sub_rules_loop:
  assumes "\<And>r s x t. r \<in> set rs \<Longrightarrow> m r s = Return (x, t) \<Longrightarrow> R h s t"
    and "\<And>a s x t. sub a s = Return (x, t) \<Longrightarrow> R h s t"
  shows "sub_rules_loop m sub h rs s = Return (x, t) \<Longrightarrow> R h s t"
  using assms(1)
proof (induction rs arbitrary: s)
  case (Cons r rs)
  from Cons.prems(1) obtain b a s1 where s1: "m r s = Return ((b, a), s1)"
    "(if b then obind (if RuleType r = SubRules_rt then sub (Adapter r) s1 else answer b a s1)
        (\<lambda>((b2, a2), s2). obind (if b2 then passes h a2 s2 else Return False) (\<lambda>pass.
           if pass then sub_rules_loop m sub h rs s2 else answer b2 a2 s2))
      else sub_rules_loop m sub h rs s1) = Return (x, t)"
    by (auto simp: obind_eq_Return)
  have r1: "R h s s1" using Cons.prems(2)[OF _ s1(1)] by simp
  have IH: "sub_rules_loop m sub h rs s' = Return (x, t) \<Longrightarrow> R h s' t" for s'
    by (rule Cons.IH, assumption, rule Cons.prems(2)) auto
  show ?case
  proof (cases b)
    case True
    with s1(2) obtain b2 a2 s2 pass where s2:
      "(if RuleType r = SubRules_rt then sub (Adapter r) s1 else answer b a s1) = Return ((b2, a2), s2)"
      "(if pass then sub_rules_loop m sub h rs s2 else answer b2 a2 s2) = Return (x, t)"
      by (auto simp: obind_eq_Return)
    have "R h s1 s2" using s2(1) assms(2) rel_refl by (auto simp: answer_def split: if_splits)
    moreover have "R h s2 t" using s2(2) IH[of s2] rel_refl by (cases pass) (auto simp: answer_def)
    ultimately show ?thesis using r1 rel_trans by blast
  next
    case False
    thus ?thesis using s1(2) IH[of s1] r1 rel_trans by auto
  qed
qed (auto simp: answer_def intro: rel_refl)

lemma rel_matchSubRules:
  "(\<And>k r s x t. k < n \<Longrightarrow> m k r s = Return (x, t) \<Longrightarrow> R h s t) \<Longrightarrow>
   matchSubRules m C h n name s = Return (x, t) \<Longrightarrow> R h s t"
proof (induction n arbitrary: name s x t)
  case (Suc n)
  have a: "r \<in> set (rules_of C name) \<Longrightarrow> m n r s' = Return (x', t') \<Longrightarrow> R h s' t'" for r s' x' t'
    by (rule Suc.prems(1)) auto
  have b: "matchSubRules m C h n name' s' = Return (x', t') \<Longrightarrow> R h s' t'" for name' s' x' t'
    by (rule Suc.IH, rule Suc.prems(1)) auto
  have "sub_rules_loop (m n) (matchSubRules m C h n) h (rules_of C name) s = Return (x, t)"
    using Suc.prems(2) by simp
  thus ?case
    by (intro rel_sub_rules_loop[of "rules_of C name" "m n" h "matchSubRules m C h n" s x t]) (erule (1) a, erule b)
qed simp

lemma rel_Match_Logic:
  assumes "\<And>r s x t. r \<in> set (logic_rules l) \<Longrightarrow> m r s = Return (x, t) \<Longrightarrow> R h s t"
    and "\<And>a s x t. sub a s = Return (x, t) \<Longrightarrow> R h s t"
    and "Match_Logic m sub l s = Return (x, t)"
  shows "R h s t"
proof -
  have one: "R h s t" if "idx_get (logic_rules l) 0 = Return r" "m r s = Return ((b, a), s')"
    "s' = t \<or> sub (logic_adapter l) s' = Return (x, t)" for r b a s'
    using that assms(1)[OF idx_get_in_set] assms(2) rel_trans by blast
  have "first_match m (logic_rules l) s = Return (b, t) \<Longrightarrow> R h s t" "all_match m (logic_rules l) s = Return (b, t) \<Longrightarrow> R h s t" for b
    by (rule rel_first_match[of "logic_rules l" m h s b t], erule (1) assms(1), assumption)
       (rule rel_all_match[of "logic_rules l" m h s b t], erule (1) assms(1), assumption)
  thus ?thesis using assms(3) one rel_refl
    by (auto simp: Match_Logic_def answer_def obind_eq_Return split: RuleType.splits if_splits)
qed

lemma rel_Match_RuleSet:
  assumes "ok h" "\<And>h' r s x t. ok h' \<Longrightarrow> m h' r s = Return (x, t) \<Longrightarrow> R h' s t"
    and "Match_RuleSet (Match_baseProvider m) C h rs s = Return (x, t)"
  shows "R h s t"
proof -
  have prov: "R h' s' t'" if "ok h'" "Match_baseProvider m p h' s' = Return (b, t')" for p h' s' b t'
    using that(2) rel_call_back[OF that(1)] rel_first_match[of _ "m h'" h'] assms(2)[OF that(1)] rel_refl
    by (auto simp: Match_baseProvider_def Match_classical_def Match_domain_def Match_ipcidr_def obind_eq_Return
        split: option.splits ruleStrategy.splits)
  show ?thesis using assms(3) prov[OF ok_nil[OF assms(1)]] prov[OF assms(1)] rel_refl
    by (auto simp: Match_RuleSet_def answer_def obind_eq_Return split: option.splits if_splits
        intro: rel_swap rel_nil)
qed

lemma rel_Match_RuleWrapper:
  assumes "\<And>s x t. m s = Return (x, t) \<Longrightarrow> R h s t"
    and "Match_RuleWrapper m h a s = Return (x, t)"
  shows "R h s t"
proof -
  have "R h s (Hit a s')" "R h s (Miss a s')" if "m s = Return (y, s')" "\<not> Diagnostic h" for y s'
    using rel_trans[OF assms(1)[OF that(1)]] rel_count[OF that(2)] by auto
  with assms rel_refl show ?thesis
    by (auto simp: Match_RuleWrapper_def answer_def obind_eq_Return split: if_splits)
qed

lemma rel_Match: "ok h \<Longrightarrow> Match n E C h r s = Return (x, t) \<Longrightarrow> R h s t"
proof (induction n E C h r s arbitrary: x t rule: Match.induct)
  case (21 n E C h rs st)
  then obtain k where k: "n = Suc k" by (cases n) auto
  show ?case by (rule rel_Match_RuleSet[of h "Match k E C" C rs]) (use 21 k in auto)
next
  case (22 n E C h l st)
  have a: "r \<in> set (logic_rules l) \<Longrightarrow> Match n E C h r s = Return (x, t) \<Longrightarrow> R h s t" for r s x t
    by (rule 22(1)) (use 22(3) in auto)
  have b: "k < n \<Longrightarrow> Match k E C h r s = Return (x, t) \<Longrightarrow> R h s t" for k r s x t
    by (rule 22(2)) (use 22(3) in auto)
  have c: "matchSubRules (\<lambda>k r st. Match k E C h r st) C h n name s = Return (x, t) \<Longrightarrow> R h s t" for name s x t
    by (rule rel_matchSubRules[of n "\<lambda>k r st. Match k E C h r st" h C name s x t]) (erule (1) b, assumption)
  have "Match_Logic (Match n E C h) (matchSubRules (\<lambda>k r st. Match k E C h r st) C h n) l st = Return (x, t)"
    using 22(4) by simp
  thus ?case
    by (intro rel_Match_Logic[of l "Match n E C h" h "matchSubRules (\<lambda>k r st. Match k E C h r st) C h n" st x t])
       (erule (1) a, erule c)
next
  case (23 n E C h a r st)
  have IH: "R h s t" if "Match n E C h r s = Return (x, t)" for s x t
    by (rule 23(1)) (use 23(2) that in auto)
  show ?case
    by (rule rel_Match_RuleWrapper[of "Match n E C h r" h a st x t]) (erule IH, use 23(3) in simp)
qed ((simp only: Match.simps, ((rule rel_leaf; assumption) | (drule leaf_same, simp only: rel_refl)))+)

end


lemma framed_refl [simp]: "framed m m"
  by (simp add: framed_def)

lemma framed_trans: "framed a b \<Longrightarrow> framed b c \<Longrightarrow> framed a c"
  unfolding framed_def by (erule ssubst)+ simp

lemma framed_caches:
  "framed m (m\<lparr>SrcGeoIP := x\<rparr>)" "framed m (m\<lparr>DstGeoIP := x\<rparr>)" "framed m (m\<lparr>SrcIPASN := y\<rparr>)" "framed m (m\<lparr>DstIPASN := y\<rparr>)"
  by (simp_all add: framed_def)

lemma framed_SrcIP: "framed m m' \<Longrightarrow> SrcIP m' = SrcIP m"
  unfolding framed_def by (erule ssubst) simp

lemma framed_swap: "framed (SwapSrcDst m) m' \<Longrightarrow> DstIP m' = DstIP (SwapSrcDst m) \<Longrightarrow> framed m (SwapSrcDst m')"
  unfolding framed_def SwapSrcDst_def by (cases m, cases m') simp

interpretation connection: match_relation helper_framed keeps_connection
proof
  show "keeps_connection h s t \<Longrightarrow> keeps_connection h t u \<Longrightarrow> keeps_connection h s u" for h s t u
    unfolding keeps_connection_def using framed_trans by auto
  show "keeps_connection (h\<lparr>ResolveIP := None\<rparr>) (swap_md s) t \<Longrightarrow> keeps_connection h s (swap_md t)" for h s t
    using framed_swap[of "md s" "md t"] framed_SrcIP[of "SwapSrcDst (md s)" "md t"]
    by (simp add: keeps_connection_def swap_md_def SwapSrcDst_def)
qed (auto simp: keeps_connection_def helper_framed_def set_geo_cache_def framed_caches Hit_def Miss_def time_Now_def set_wrapper_def)

interpretation counters: match_relation helper_uncounted keeps_counters
proof
  show "helper_uncounted h \<Longrightarrow> helper_uncounted (h\<lparr>ResolveIP := None\<rparr>)" for h
    unfolding helper_uncounted_def by simp
  show "helper_uncounted h \<Longrightarrow> ResolveIP h = Some f \<Longrightarrow> f s = Return t \<Longrightarrow> keeps_counters h s t" for h f s t
    unfolding helper_uncounted_def keeps_counters_def by blast
  show "helper_uncounted h \<Longrightarrow> FindProcess h = Some f \<Longrightarrow> f s = Return t \<Longrightarrow> keeps_counters h s t" for h f s t
    unfolding helper_uncounted_def keeps_counters_def by blast
qed (auto simp: keeps_counters_def set_geo_cache_def swap_md_def)

end
