(* ===== verification/Tunnel.thy ===== *)
theory Tunnel
  imports Rules_Parse Reject
begin

text \<open>
  The routing decision of the tunnel: \<open>tunnel/tunnel.go\<close> with the modes of \<open>tunnel/mode.go\<close> and
  \<open>tunnel/status.go\<close>, the adapter types of \<open>constant/adapters.go\<close> and the rematch outbound of
  \<open>adapter/outbound/rematch.go\<close>.

  The package variables are the record \<open>tunnel\<close>.  Proxies live in a heap and are known by their
  address; a proxy is what its methods answer, and \<open>Unwrap\<close> gives the address of the member that a
  group has selected for the metadata.  The DNS resolver, the hosts table and the process lookup ask
  the outside world and are functions of the record \<open>world\<close>.  The read lock is not modelled.
\<close>

section \<open>Adapters\<close>

datatype AdapterType =
    Direct_at | Reject_at | RejectDrop_at | Compatible_at | Pass_at | PassRule_at | Rematch_at | Dns_at
  | Relay_at | Selector_at | Fallback_at | URLTest_at | LoadBalance_at | Shadowsocks_at
  | ShadowsocksR_at | Snell_at | Socks5_at | Http_at | Vmess_at | Vless_at | Trojan_at | Hysteria_at
  | Hysteria2_at | WireGuard_at | Tuic_at | Ssh_at | Mieru_at | AnyTLS_at | Sudoku_at | Masque_at
  | TrustTunnel_at | ShadowQuic_at | OpenVPN_at | Tailscale_at | ZeroTier_at | EasyTier_at | GostRelay_at

fun String_AdapterType :: "AdapterType \<Rightarrow> string" where
  "String_AdapterType Direct_at = ''Direct''"
| "String_AdapterType Reject_at = ''Reject''"
| "String_AdapterType RejectDrop_at = ''RejectDrop''"
| "String_AdapterType Compatible_at = ''Compatible''"
| "String_AdapterType Pass_at = ''Pass''"
| "String_AdapterType PassRule_at = ''PassRule''"
| "String_AdapterType Rematch_at = ''Rematch''"
| "String_AdapterType Dns_at = ''Dns''"
| "String_AdapterType Shadowsocks_at = ''Shadowsocks''"
| "String_AdapterType ShadowsocksR_at = ''ShadowsocksR''"
| "String_AdapterType Snell_at = ''Snell''"
| "String_AdapterType Socks5_at = ''Socks5''"
| "String_AdapterType Http_at = ''Http''"
| "String_AdapterType Vmess_at = ''Vmess''"
| "String_AdapterType Vless_at = ''Vless''"
| "String_AdapterType Trojan_at = ''Trojan''"
| "String_AdapterType Hysteria_at = ''Hysteria''"
| "String_AdapterType Hysteria2_at = ''Hysteria2''"
| "String_AdapterType WireGuard_at = ''WireGuard''"
| "String_AdapterType Tuic_at = ''Tuic''"
| "String_AdapterType Ssh_at = ''Ssh''"
| "String_AdapterType Mieru_at = ''Mieru''"
| "String_AdapterType AnyTLS_at = ''AnyTLS''"
| "String_AdapterType Sudoku_at = ''Sudoku''"
| "String_AdapterType Masque_at = ''Masque''"
| "String_AdapterType TrustTunnel_at = ''TrustTunnel''"
| "String_AdapterType ShadowQuic_at = ''ShadowQuic''"
| "String_AdapterType OpenVPN_at = ''OpenVPN''"
| "String_AdapterType Tailscale_at = ''Tailscale''"
| "String_AdapterType ZeroTier_at = ''ZeroTier''"
| "String_AdapterType EasyTier_at = ''EasyTier''"
| "String_AdapterType GostRelay_at = ''GostRelay''"
| "String_AdapterType Relay_at = ''Relay''"
| "String_AdapterType Selector_at = ''Selector''"
| "String_AdapterType Fallback_at = ''Fallback''"
| "String_AdapterType URLTest_at = ''URLTest''"
| "String_AdapterType LoadBalance_at = ''LoadBalance''"

definition String_Chain :: "string list \<Rightarrow> string" where
  "String_Chain c =
     (if length c = 0 then '''' else if length c = 1 then c ! 0
      else c ! (length c - 1) @ ''['' @ c ! 0 @ '']'')"

definition Last_Chain :: "string list \<Rightarrow> string" where
  "Last_Chain c = (if length c = 0 then '''' else c ! 0)"

text \<open>
  What the tunnel calls on a proxy.  \<open>DialContext\<close> is only called here on a rematch proxy, for its
  effect on the metadata; the second component tells that it has failed.
\<close>

record Proxy =
  px_Name :: string
  px_Type :: AdapterType
  px_SupportUDP :: bool
  px_Unwrap :: "Metadata \<Rightarrow> nat option"
  px_DialContext :: "Metadata \<Rightarrow> Metadata \<times> bool"

record Rematch =
  targetRematchName :: "string option"
  targetSubRule :: "string option"

definition applyMetadata :: "Rematch \<Rightarrow> Metadata \<Rightarrow> Metadata" where
  "applyMetadata l m =
     (let m1 = (case targetRematchName l of None \<Rightarrow> m | Some n \<Rightarrow> m\<lparr>RematchName := n\<rparr>) in
      case targetSubRule l of None \<Rightarrow> m1 | Some s \<Rightarrow> m1\<lparr>SpecialRules := s\<rparr>)"

definition DialContext_Rematch :: "Rematch \<Rightarrow> Metadata \<Rightarrow> Metadata \<times> bool" where
  "DialContext_Rematch l m = (applyMetadata l m, False)"

definition NewRematch :: "string \<Rightarrow> string option \<Rightarrow> string option \<Rightarrow> Proxy result" where
  "NewRematch name trn tsr =
     (if trn = None \<and> tsr = None
      then Inl (''rematch '' @ name @ '' requires at least one of target-rematch-name or target-sub-rule'')
      else Inr \<lparr>px_Name = name, px_Type = Rematch_at, px_SupportUDP = True, px_Unwrap = (\<lambda>_. None),
                px_DialContext = DialContext_Rematch \<lparr>targetRematchName = trn, targetSubRule = tsr\<rparr>\<rparr>)"

section \<open>Modes and state of the tunnel\<close>

datatype TunnelMode = Global | Rule | Direct

fun String_TunnelMode :: "TunnelMode \<Rightarrow> string" where
  "String_TunnelMode Global = ''global''"
| "String_TunnelMode Rule = ''rule''"
| "String_TunnelMode Direct = ''direct''"

definition ModeMapping :: "string \<Rightarrow> TunnelMode option" where
  "ModeMapping = [String_TunnelMode Global \<mapsto> Global, String_TunnelMode Rule \<mapsto> Rule, String_TunnelMode Direct \<mapsto> Direct]"

definition UnmarshalText_TunnelMode :: "string \<Rightarrow> TunnelMode result" where
  "UnmarshalText_TunnelMode data =
     (case ModeMapping (ToLower data) of None \<Rightarrow> Inl ''invalid mode'' | Some mode \<Rightarrow> Inr mode)"

datatype TunnelStatus = Suspend | Inner | Running

fun String_TunnelStatus :: "TunnelStatus \<Rightarrow> string" where
  "String_TunnelStatus Suspend = ''suspend''"
| "String_TunnelStatus Inner = ''inner''"
| "String_TunnelStatus Running = ''running''"

definition StatusMapping :: "string \<Rightarrow> TunnelStatus option" where
  "StatusMapping = [String_TunnelStatus Suspend \<mapsto> Suspend, String_TunnelStatus Inner \<mapsto> Inner, String_TunnelStatus Running \<mapsto> Running]"

definition UnmarshalText_TunnelStatus :: "string \<Rightarrow> TunnelStatus result" where
  "UnmarshalText_TunnelStatus data =
     (case StatusMapping (ToLower data) of None \<Rightarrow> Inl ''invalid status'' | Some status \<Rightarrow> Inr status)"

datatype FindProcessMode = FindProcessStrict | FindProcessAlways | FindProcessOff

fun String_FindProcessMode :: "FindProcessMode \<Rightarrow> string" where
  "String_FindProcessMode FindProcessAlways = ''always''"
| "String_FindProcessMode FindProcessOff = ''off''"
| "String_FindProcessMode FindProcessStrict = ''strict''"

definition validModes :: "string \<Rightarrow> FindProcessMode option" where
  "validModes =
     [String_FindProcessMode FindProcessStrict \<mapsto> FindProcessStrict,
      String_FindProcessMode FindProcessAlways \<mapsto> FindProcessAlways,
      String_FindProcessMode FindProcessOff \<mapsto> FindProcessOff]"

definition Set_FindProcessMode :: "string \<Rightarrow> FindProcessMode result" where
  "Set_FindProcessMode value =
     (case validModes (ToLower value) of None \<Rightarrow> Inl ''invalid find process mode'' | Some mode \<Rightarrow> Inr mode)"

record 'c tunnel =
  t_status :: TunnelStatus
  t_rules :: "rule list"
  t_conf :: conf
  t_proxies :: "string \<Rightarrow> nat option"
  t_heap :: "nat \<Rightarrow> Proxy"
  t_mode :: TunnelMode
  t_findProcessMode :: FindProcessMode
  t_bans :: "'c rejectBanCache"

definition OnSuspend :: "'c tunnel \<Rightarrow> 'c tunnel" where "OnSuspend t = t\<lparr>t_status := Suspend\<rparr>"
definition OnInnerLoading :: "'c tunnel \<Rightarrow> 'c tunnel" where "OnInnerLoading t = t\<lparr>t_status := Inner\<rparr>"
definition OnRunning :: "'c tunnel \<Rightarrow> 'c tunnel" where "OnRunning t = t\<lparr>t_status := Running\<rparr>"

definition UpdateRules :: "'c ban_ops \<Rightarrow> rule list \<Rightarrow> (string \<Rightarrow> rule list option) \<Rightarrow> (string \<Rightarrow> ruleStrategy option option) \<Rightarrow> 'c tunnel \<Rightarrow> 'c tunnel" where
  "UpdateRules B newRules newSubRule rp t =
     t\<lparr>t_rules := newRules, t_conf := \<lparr>RuleProviders = rp, subRules = newSubRule\<rparr>, t_bans := Reset B (t_bans t)\<rparr>"

definition UpdateProxies :: "'c ban_ops \<Rightarrow> (string \<Rightarrow> nat option) \<Rightarrow> 'c tunnel \<Rightarrow> 'c tunnel" where
  "UpdateProxies B newProxies t = t\<lparr>t_proxies := newProxies, t_bans := Reset B (t_bans t)\<rparr>"

definition SetMode :: "'c ban_ops \<Rightarrow> TunnelMode \<Rightarrow> 'c tunnel \<Rightarrow> 'c tunnel" where
  "SetMode B m t = t\<lparr>t_mode := m, t_bans := Reset B (t_bans t)\<rparr>"

definition SetFindProcessMode :: "'c ban_ops \<Rightarrow> FindProcessMode \<Rightarrow> 'c tunnel \<Rightarrow> 'c tunnel" where
  "SetFindProcessMode B m t = t\<lparr>t_findProcessMode := m, t_bans := Reset B (t_bans t)\<rparr>"

definition isHandle :: "'c tunnel \<Rightarrow> Type \<Rightarrow> bool" where
  "isHandle t ty = (t_status t = Running \<or> (t_status t = Inner \<and> ty = INNER))"

section \<open>The world outside\<close>

record HostValue =
  IsDomain :: bool
  Domain :: string
  RandIP :: Addr

text \<open>
  \<open>hosts_Search\<close> is \<open>resolver.DefaultHosts.Search\<close>; \<open>RandIP\<close> is the address that the random
  choice of the node gives.  The process lookup may call the matcher it is given, and panics or does
  not return when that call does.
\<close>

record world =
  MappingEnabled :: bool
  FindHostByIP :: "Addr \<Rightarrow> string option"
  IsFakeIP :: "Addr \<Rightarrow> bool"
  hosts_Search :: "string \<Rightarrow> bool \<Rightarrow> HostValue option \<times> bool"
  resolver_ResolveIP :: "string \<Rightarrow> Addr result"
  FindProcessNameByAddrWithMatcher :: "string \<Rightarrow> AddrPort \<Rightarrow> AddrPort \<Rightarrow> (string \<Rightarrow> bool outcome)
    \<Rightarrow> (32 word \<times> string) result outcome"
  EndpointResolverInstalled :: bool
  FindPackageName :: "Metadata \<Rightarrow> string result"
  CMFA :: bool

section \<open>Preparing metadata\<close>

definition fixMetadata :: "Metadata \<Rightarrow> Metadata" where
  "fixMetadata m =
     (let m1 = m\<lparr>DstIP := Unmap (DstIP m)\<rparr> in
      case ParseAddr (Host m1) of
        None \<Rightarrow> m1
      | Some ip \<Rightarrow> m1\<lparr>DstIP := Unmap ip, Host := ''''\<rparr>)"

definition needLookupIP :: "world \<Rightarrow> Metadata \<Rightarrow> bool" where
  "needLookupIP W m = (MappingEnabled W \<and> Host m = '''' \<and> IsValid (DstIP m))"

definition preHandleMetadata :: "world \<Rightarrow> Metadata \<Rightarrow> string option \<times> Metadata" where
  "preHandleMetadata W m =
     (if needLookupIP W m then
        (case FindHostByIP W (DstIP m) of
           Some host \<Rightarrow>
             let m1 = m\<lparr>Host := host, DNSMode := DNSMapping\<rparr> in
             if IsFakeIP W (DstIP m1) then (None, m1\<lparr>DstIP := NoAddr, DNSMode := DNSFakeIP\<rparr>)
             else (case hosts_Search W host False of
                     (Some node, True) \<Rightarrow> (None, m1\<lparr>DstIP := RandIP node\<rparr>)
                   | (Some node, False) \<Rightarrow> (None, if IsDomain node then m1\<lparr>Host := HostValue.Domain node\<rparr> else m1)
                   | (None, _) \<Rightarrow> (None, m1))
         | None \<Rightarrow>
             if IsFakeIP W (DstIP m) then (Some (''fake DNS record '' @ String_addr (DstIP m) @ '' missing''), m)
             else (None, m))
      else case hosts_Search W (Host m) True of
             (Some node, True) \<Rightarrow> (None, m\<lparr>Host := HostValue.Domain node\<rparr>)
           | _ \<Rightarrow> (None, m))"

definition zero_addrport :: AddrPort where "zero_addrport = \<lparr>ap_addr = NoAddr, ap_port = 0\<rparr>"

definition addrPortFromNetAddr :: "NetAddr option \<Rightarrow> AddrPort option" where
  "addrPortFromNetAddr addr =
     (case addr of
        None \<Rightarrow> None
      | Some a0 \<Rightarrow>
          let a = (case rawAddr a0 of
                     Some raw \<Rightarrow> if addrPort raw \<noteq> None then raw else a0
                   | None \<Rightarrow> a0) in
          case addrPort a of
            None \<Rightarrow> None
          | Some ap \<Rightarrow> if \<not> IsValid (ap_addr ap) \<or> ap_port ap = 0 then None
                       else Some \<lparr>ap_addr = Unmap (ap_addr ap), ap_port = ap_port ap\<rparr>)"

definition processLookupEndpoints :: "Metadata \<Rightarrow> AddrPort \<times> AddrPort" where
  "processLookupEndpoints m =
     (case addrPortFromNetAddr (RawSrcAddr m) of Some rawSrc \<Rightarrow> rawSrc | None \<Rightarrow> SourceAddrPort m,
      case addrPortFromNetAddr (RawDstAddr m) of Some dst \<Rightarrow> dst | None \<Rightarrow> zero_addrport)"

section \<open>Walking through groups\<close>

text \<open>
  The loops \<open>for a := adapter; a != nil; a = a.Unwrap(metadata, false)\<close>: the first answer of the
  body on the way from the adapter to the selected leaf.
\<close>

partial_function (option) unwrap_walk ::
  "(nat \<Rightarrow> Proxy) \<Rightarrow> Metadata \<Rightarrow> (nat \<Rightarrow> 'r option) \<Rightarrow> nat option \<Rightarrow> 'r option option" where
  "unwrap_walk heap m body a =
     (case a of
        None \<Rightarrow> Some None
      | Some p \<Rightarrow>
          (case body p of
             Some r \<Rightarrow> Some (Some r)
           | None \<Rightarrow> unwrap_walk heap m body (px_Unwrap (heap p) m)))"

definition rejectBanProxyActive :: "(nat \<Rightarrow> Proxy) \<Rightarrow> nat option \<Rightarrow> Metadata \<Rightarrow> bool option" where
  "rejectBanProxyActive heap proxy m =
     map_option (\<lambda>r. r = Some True)
       (unwrap_walk heap m (\<lambda>p. if px_Type (heap p) = Reject_at then Some True
                                else if px_Type (heap p) = RejectDrop_at then Some False else None) proxy)"

text \<open>The reject adapter at the end of the chain, with the names from the innermost adapter outwards.\<close>

partial_function (option) reject_loop ::
  "(nat \<Rightarrow> Proxy) \<Rightarrow> Metadata \<Rightarrow> nat option \<Rightarrow> string list \<Rightarrow> (nat \<times> string list) option option" where
  "reject_loop heap m a chain =
     (case a of
        None \<Rightarrow> Some None
      | Some p \<Rightarrow>
          if px_Type (heap p) = Reject_at \<or> px_Type (heap p) = RejectDrop_at
          then Some (Some (p, rev (chain @ [px_Name (heap p)])))
          else reject_loop heap m (px_Unwrap (heap p) m) (chain @ [px_Name (heap p)]))"

definition rejectAdapter :: "(nat \<Rightarrow> Proxy) \<Rightarrow> nat option \<Rightarrow> Metadata \<Rightarrow> (nat \<times> string list) option option" where
  "rejectAdapter heap proxy m = reject_loop heap m proxy []"

partial_function (option) leaf_loop :: "(nat \<Rightarrow> Proxy) \<Rightarrow> Metadata \<Rightarrow> nat \<Rightarrow> nat option" where
  "leaf_loop heap m leaf =
     (case px_Unwrap (heap leaf) m of None \<Rightarrow> Some leaf | Some nxt \<Rightarrow> leaf_loop heap m nxt)"

definition keepResolvedFakeIP :: "AdapterType \<Rightarrow> bool" where
  "keepResolvedFakeIP ty = (ty \<in> {Direct_at, Reject_at, RejectDrop_at})"

definition preserveFakeIPDomain :: "(nat \<Rightarrow> Proxy) \<Rightarrow> Metadata \<Rightarrow> nat option \<Rightarrow> Metadata outcome" where
  "preserveFakeIPDomain heap m proxy =
     (case proxy of
        None \<Rightarrow> Return m
      | Some p \<Rightarrow>
          if DNSMode m \<noteq> DNSFakeIP \<or> Host m = '''' \<or> \<not> IsValid (DstIP m) then Return m
          else obind (of_loop (leaf_loop heap m p)) (\<lambda>leaf.
                 Return (if keepResolvedFakeIP (px_Type (heap leaf)) then m else m\<lparr>DstIP := NoAddr\<rparr>)))"

section \<open>Matching rules\<close>

definition getRules :: "'c tunnel \<Rightarrow> Metadata \<Rightarrow> rule list" where
  "getRules t m =
     (case subRules (t_conf t) (SpecialRules m) of Some sr \<Rightarrow> sr | None \<Rightarrow> t_rules t)"

datatype decision = Found nat rule | DoRematch nat rule | NoRule

text \<open>What the walk through the groups of a matched adapter finds first.\<close>

definition pass_or_rematch :: "(nat \<Rightarrow> Proxy) \<Rightarrow> nat \<Rightarrow> nat option option" where
  "pass_or_rematch heap p =
     (if px_Type (heap p) = Pass_at then Some None
      else if px_Type (heap p) = Rematch_at then Some (Some p) else None)"

text \<open>The loop at the label \<open>GetRules\<close>.\<close>

fun rules_loop ::
  "(rule \<Rightarrow> mstate \<Rightarrow> match_result) \<Rightarrow> 'c tunnel \<Rightarrow> rule list \<Rightarrow> mstate \<Rightarrow> (decision \<times> mstate) outcome" where
  "rules_loop m t [] st = Return (NoRule, st)"
| "rules_loop m t (r # rs) st =
     obind (m r st) (\<lambda>((matched, ada), st').
       if \<not> matched then rules_loop m t rs st'
       else case t_proxies t ada of
              None \<Rightarrow> rules_loop m t rs st'
            | Some adapter \<Rightarrow>
                obind (of_loop (unwrap_walk (t_heap t) (md st') (pass_or_rematch (t_heap t)) (Some adapter))) (\<lambda>w.
                  case w of
                    Some None \<Rightarrow> rules_loop m t rs st'
                  | Some (Some p) \<Rightarrow> Return (DoRematch p r, st')
                  | None \<Rightarrow>
                      if NetWork (md st') = UDP \<and> \<not> px_SupportUDP (t_heap t adapter) then rules_loop m t rs st'
                      else Return (Found adapter r, st')))"

text \<open>The outer loop of \<open>matchLocked\<close>, with the names of the rematch proxies used so far.\<close>

primrec rematch_loop ::
  "nat \<Rightarrow> (rule \<Rightarrow> mstate \<Rightarrow> match_result) \<Rightarrow> 'c tunnel \<Rightarrow> string list \<Rightarrow> mstate \<Rightarrow>
   ((nat option \<times> rule option) \<times> mstate) outcome" where
  "rematch_loop 0 m t = (\<lambda>rematchChain st. Diverges)"
| "rematch_loop (Suc k) m t = (\<lambda>rematchChain st.
     obind (rules_loop m t (getRules t (md st)) st) (\<lambda>(d, st').
       case d of
         Found p r \<Rightarrow> Return ((Some p, Some r), st')
       | NoRule \<Rightarrow> Return ((t_proxies t ''DIRECT'', None), st')
       | DoRematch p r \<Rightarrow>
           if px_Name (t_heap t p) \<in> set rematchChain then Return ((Some p, Some r), st')
           else (case px_DialContext (t_heap t p) (md st') of (m', failed) \<Rightarrow>
                   if failed then Return ((Some p, Some r), st'\<lparr>md := m'\<rparr>)
                   else rematch_loop k m t (rematchChain @ [px_Name (t_heap t p)]) (st'\<lparr>md := m'\<rparr>))))"

text \<open>The fuel bounds both the depth of the rules and the number of rematches.\<close>

definition matchLocked ::
  "nat \<Rightarrow> env \<Rightarrow> 'c tunnel \<Rightarrow> RuleMatchHelper \<Rightarrow> mstate \<Rightarrow> ((nat option \<times> rule option) \<times> mstate) outcome" where
  "matchLocked n E t h st = rematch_loop n (Match n E (t_conf t) h) t [] st"

section \<open>The callbacks of the rules\<close>

fun processMatcherForRules :: "nat \<Rightarrow> conf \<Rightarrow> mstate \<Rightarrow> rule list \<Rightarrow> rule list outcome" where
  "processMatcherForRules n C st [] = Return []"
| "processMatcherForRules n C st (r # rs) =
     obind (HasProcessRule n C st r) (\<lambda>has.
     obind (processMatcherForRules n C st rs) (\<lambda>ms. Return (if has then r # ms else ms)))"

definition MatchProcess_rules :: "nat \<Rightarrow> env \<Rightarrow> conf \<Rightarrow> rule list \<Rightarrow> string \<Rightarrow> bool outcome" where
  "MatchProcess_rules n E C ms path = any_rule (MatchProcess n E C path) ms"

definition MatchProcessName_rules :: "nat \<Rightarrow> env \<Rightarrow> conf \<Rightarrow> rule list \<Rightarrow> string \<Rightarrow> bool outcome" where
  "MatchProcessName_rules n E C ms name = any_rule (MatchProcessName n E C name) ms"

definition resolve_callback :: "world \<Rightarrow> mstate \<Rightarrow> mstate outcome" where
  "resolve_callback W st =
     Return (if \<not> resolved st \<and> Host (md st) \<noteq> '''' \<and> \<not> Resolved (md st) then
               (case resolver_ResolveIP W (Host (md st)) of
                  Inl _ \<Rightarrow> st\<lparr>resolved := True\<rparr>
                | Inr ip \<Rightarrow> st\<lparr>md := (md st)\<lparr>DstIP := ip\<rparr>, resolved := True\<rparr>)
             else st)"

text \<open>The metadata after a process has been found.\<close>

definition found_process :: "world \<Rightarrow> 32 word \<Rightarrow> string \<Rightarrow> Metadata \<Rightarrow> Metadata" where
  "found_process W uid path m =
     (let m1 = m\<lparr>Process := filepath_Base path, ProcessPath := path, Uid := uid\<rparr> in
      if EndpointResolverInstalled W then m1
      else case FindPackageName W m1 of Inl _ \<Rightarrow> m1 | Inr pkg \<Rightarrow> m1\<lparr>Process := pkg\<rparr>)"

text \<open>The first lookup, by the addresses of the connection, and the lookup of the package.\<close>

definition find_by_addr :: "nat \<Rightarrow> env \<Rightarrow> world \<Rightarrow> 'c tunnel \<Rightarrow> mstate \<Rightarrow> mstate outcome" where
  "find_by_addr n E W t st =
     obind (processMatcherForRules n (t_conf t) st (getRules t (md st))) (\<lambda>ms.
       if ms = [] then Return st
       else obind (FindProcessNameByAddrWithMatcher W (String_NetWork (NetWork (md st)))
                     (fst (processLookupEndpoints (md st))) (snd (processLookupEndpoints (md st)))
                     (MatchProcess_rules n E (t_conf t) ms)) (\<lambda>found.
            Return (st\<lparr>md :=
              (case found of
                 Inl _ \<Rightarrow> md st
               | Inr (uid, path) \<Rightarrow> found_process W uid path (md st))\<rparr>)))"

definition find_package :: "nat \<Rightarrow> env \<Rightarrow> world \<Rightarrow> 'c tunnel \<Rightarrow> mstate \<Rightarrow> mstate outcome" where
  "find_package n E W t st =
     (case FindPackageName W (md st) of
        Inl _ \<Rightarrow> Return st
      | Inr pkg \<Rightarrow>
          obind (processMatcherForRules n (t_conf t) st (getRules t (md st))) (\<lambda>ms.
          obind (if ms = [] then Return True else MatchProcessName_rules n E (t_conf t) ms pkg) (\<lambda>candidate.
            Return (if candidate then st\<lparr>md := (md st)\<lparr>Process := pkg\<rparr>\<rparr> else st))))"

definition process_callback :: "nat \<Rightarrow> env \<Rightarrow> world \<Rightarrow> 'c tunnel \<Rightarrow> mstate \<Rightarrow> mstate outcome" where
  "process_callback n E W t st =
     (if \<not> attemptProcessLookup st then Return st
      else if \<not> CMFA W then find_by_addr n E W t (st\<lparr>attemptProcessLookup := False\<rparr>)
      else find_package n E W t (st\<lparr>attemptProcessLookup := False\<rparr>))"

definition pass_callback :: "'c tunnel \<Rightarrow> string \<Rightarrow> mstate \<Rightarrow> bool outcome" where
  "pass_callback t adapterName st =
     (case t_proxies t adapterName of
        None \<Rightarrow> Return False
      | Some adapter \<Rightarrow>
          obind (of_loop (unwrap_walk (t_heap t) (md st)
                   (\<lambda>p. if px_Type (t_heap t p) = PassRule_at then Some () else None) (Some adapter)))
            (\<lambda>r. Return (r \<noteq> None)))"

definition fakeIPRuleResolver :: "Metadata \<Rightarrow> (mstate \<Rightarrow> mstate outcome) option \<Rightarrow> (mstate \<Rightarrow> mstate outcome) option" where
  "fakeIPRuleResolver m resolveIP = (if DNSMode m = DNSFakeIP then None else resolveIP)"

definition route_helper :: "nat \<Rightarrow> env \<Rightarrow> world \<Rightarrow> 'c tunnel \<Rightarrow> Metadata \<Rightarrow> RuleMatchHelper" where
  "route_helper n E W t m =
     \<lparr>Diagnostic = False, ResolveIP = fakeIPRuleResolver m (Some (resolve_callback W)),
      FindProcess = Some (process_callback n E W t), CheckPassRule = Some (pass_callback t)\<rparr>"

section \<open>The decision\<close>

text \<open>The variables that the callbacks capture, and the lookup in the hosts table.\<close>

definition start_state :: "world \<Rightarrow> mstate \<Rightarrow> mstate" where
  "start_state W st0 =
     (let st1 = st0\<lparr>resolved := False, attemptProcessLookup := (Type (md st0) \<noteq> INNER)\<rparr> in
      case hosts_Search W (Host (md st0)) False of
        (Some node, True) \<Rightarrow> st1\<lparr>md := (md st0)\<lparr>DstIP := RandIP node\<rparr>, resolved := True\<rparr>
      | _ \<Rightarrow> st1)"

text \<open>The process lookup that does not wait for a rule, and the helper that is left.\<close>

definition find_process_first :: "FindProcessMode \<Rightarrow> RuleMatchHelper \<Rightarrow> mstate \<Rightarrow> (RuleMatchHelper \<times> mstate) outcome" where
  "find_process_first mode h st =
     (case mode of
        FindProcessAlways \<Rightarrow> obind (call_back (FindProcess h) st) (\<lambda>st'. Return (h\<lparr>FindProcess := None\<rparr>, st'))
      | FindProcessOff \<Rightarrow> Return (h\<lparr>FindProcess := None\<rparr>, st)
      | FindProcessStrict \<Rightarrow> Return (h, st))"

definition route_by_mode ::
  "nat \<Rightarrow> env \<Rightarrow> 'c tunnel \<Rightarrow> RuleMatchHelper \<Rightarrow> mstate \<Rightarrow> ((nat option \<times> rule option) \<times> mstate) outcome" where
  "route_by_mode n E t h st =
     (case t_mode t of
        Direct \<Rightarrow> Return ((t_proxies t ''DIRECT'', None), st)
      | Global \<Rightarrow> Return ((t_proxies t ''GLOBAL'', None), st)
      | Rule \<Rightarrow> matchLocked n E t h st)"

text \<open>The proxy and the rule with the error, and the state with the changed metadata.\<close>

definition resolveMetadata ::
  "nat \<Rightarrow> env \<Rightarrow> world \<Rightarrow> 'c tunnel \<Rightarrow> mstate \<Rightarrow>
   (((nat option \<times> rule option) \<times> string option) \<times> mstate) outcome" where
  "resolveMetadata n E W t st0 =
     (if SpecialProxy (md st0) \<noteq> '''' then
        (let proxy = t_proxies t (SpecialProxy (md st0));
             err = (if proxy = None then Some (''proxy '' @ SpecialProxy (md st0) @ '' not found'') else None) in
         obind (preserveFakeIPDomain (t_heap t) (md st0) proxy) (\<lambda>m. Return (((proxy, None), err), st0\<lparr>md := m\<rparr>)))
      else
        let st1 = start_state W st0 in
        obind (find_process_first (t_findProcessMode t) (route_helper n E W t (md st1)) st1) (\<lambda>(h, st2).
        obind (route_by_mode n E t h st2) (\<lambda>((proxy, rule), st3).
        obind (preserveFakeIPDomain (t_heap t) (md st3) proxy) (\<lambda>m.
          Return (((proxy, rule), None), st3\<lparr>md := m\<rparr>)))))"

text \<open>The leaf of the decision, when it is the direct outbound.\<close>

definition ResolveICMPDirect :: "nat \<Rightarrow> env \<Rightarrow> world \<Rightarrow> 'c tunnel \<Rightarrow> mstate \<Rightarrow> nat option outcome" where
  "ResolveICMPDirect n E W t st =
     obind (resolveMetadata n E W t st) (\<lambda>(((proxy, _), err), st').
       case proxy of
         None \<Rightarrow> Return None
       | Some p \<Rightarrow>
           if err \<noteq> None then Return None
           else obind (of_loop (leaf_loop (t_heap t) (md st') p)) (\<lambda>leaf.
                  Return (if px_Type (t_heap t leaf) \<noteq> Direct_at then None else Some leaf)))"

section \<open>Retrying to dial\<close>

text \<open>An error is known by the sentinels it wraps.\<close>

datatype sentinel = ErrIPNotFound | ErrIPVersion | ErrIPv6Disabled | ErrLoopbackReject | OtherError

definition shouldStopRetry :: "sentinel set \<Rightarrow> bool" where
  "shouldStopRetry err =
     (ErrIPNotFound \<in> err \<or> ErrIPVersion \<in> err \<or> ErrIPv6Disabled \<in> err \<or> ErrLoopbackReject \<in> err)"

text \<open>
  \<open>ft i\<close> is the answer of the i-th call and \<open>wait i\<close> tells whether the pause after it ended before
  the context did.  The result is the last answer with the number of calls and the errors reported.
\<close>

fun retry_loop ::
  "nat \<Rightarrow> nat \<Rightarrow> (nat \<Rightarrow> 't option \<times> sentinel set option) \<Rightarrow> (nat \<Rightarrow> bool) \<Rightarrow>
   ('t option \<times> sentinel set option) \<Rightarrow> sentinel set list \<Rightarrow>
   ('t option \<times> sentinel set option) \<times> nat \<times> sentinel set list" where
  "retry_loop 0 i ft wait t reported = (t, i, reported)"
| "retry_loop (Suc left) i ft wait t reported =
     (case ft i of
        (v, None) \<Rightarrow> ((v, None), Suc i, reported)
      | (v, Some err) \<Rightarrow>
          if shouldStopRetry err then ((v, Some err), Suc i, reported @ [err])
          else if wait i then retry_loop left (Suc i) ft wait (v, Some err) (reported @ [err])
          else ((v, Some err), Suc i, reported @ [err]))"

definition retry ::
  "(nat \<Rightarrow> 't option \<times> sentinel set option) \<Rightarrow> (nat \<Rightarrow> bool) \<Rightarrow>
   ('t option \<times> sentinel set option) \<times> nat \<times> sentinel set list" where
  "retry ft wait = retry_loop 10 0 ft wait (None, None) []"

end
