(* ===== verification/TunnelDNS.thy ===== *)
theory TunnelDNS
  imports Tunnel "HOL-Library.List_Lexorder" "HOL-Library.Char_ord"
begin

text \<open>
  Users of the routing decision: the preview of \<open>tunnel/diagnostics.go\<close>, and the choice of the node
  that answers DNS questions (\<open>tunnel/tunnel_dns_dialer.go\<close>, \<open>constant/dns_tunnel.go\<close>) with the
  registry of what the nodes can do (\<open>component/tunneldns/capability.go\<close>).

  Times are nanoseconds; every reading of the clock is an argument.  Opening the connection itself is
  not modelled: the dial function ends with the node and the metadata it would dial.
\<close>

section \<open>The reserved destination\<close>

definition TunnelDNSHost :: string where "TunnelDNSHost = ''server-dns.invalid''"
definition TunnelDNSPort :: string where "TunnelDNSPort = ''53''"
definition TunnelDNSAddress :: string where "TunnelDNSAddress = TunnelDNSHost @ '':'' @ TunnelDNSPort"

definition IsTunnelDNSHost :: "string \<Rightarrow> bool" where
  "IsTunnelDNSHost host = (host = TunnelDNSHost)"

definition CanServeTunnelDNS :: "AdapterType \<Rightarrow> bool" where
  "CanServeTunnelDNS at =
     (at \<notin> {Direct_at, Reject_at, RejectDrop_at, Compatible_at, Pass_at, PassRule_at, Rematch_at, Dns_at})"

section \<open>Capabilities\<close>

definition UnsupportedTTL :: int where "UnsupportedTTL = 300000000000"

record Capability =
  cap_Kind :: string
  cap_Node :: string
  cap_State :: string
  cap_LastProbe :: int
  cap_ExpiresAt :: int

record Registry =
  reg_nodes :: "string \<Rightarrow> Capability option"
  reg_kind :: string

definition NewRegistryFor :: "string \<Rightarrow> Registry" where
  "NewRegistryFor kind = \<lparr>reg_nodes = Map.empty, reg_kind = kind\<rparr>"

definition NewRegistry :: Registry where "NewRegistry = NewRegistryFor ''server_dns''"

text \<open>
  \<open>Supported\<close> reads under the read lock and gives the lock up before it takes the write lock, so
  it is two atomic steps.  \<open>None\<close> in the first means that the second follows.
\<close>

definition Supported_read :: "string \<Rightarrow> int \<Rightarrow> Registry \<Rightarrow> bool option" where
  "Supported_read node now r =
     (if node = '''' then Some True
      else case reg_nodes r node of
             None \<Rightarrow> Some True
           | Some entry \<Rightarrow>
               if cap_State entry \<noteq> ''unsupported'' then Some True
               else if now < cap_ExpiresAt entry then Some False else None)"

definition Supported_expire :: "string \<Rightarrow> int \<Rightarrow> Registry \<Rightarrow> bool \<times> Registry" where
  "Supported_expire node now r =
     (let r1 = (case reg_nodes r node of
                  None \<Rightarrow> r
                | Some current \<Rightarrow>
                    if cap_State current = ''unsupported'' \<and> \<not> now < cap_ExpiresAt current
                    then r\<lparr>reg_nodes := (reg_nodes r)(node \<mapsto> current\<lparr>cap_State := ''expired''\<rparr>)\<rparr>
                    else r)
      in ((case reg_nodes r1 node of None \<Rightarrow> True | Some entry \<Rightarrow> cap_State entry \<noteq> ''unsupported''), r1))"

text \<open>A call that no other call interrupts, with its two readings of the clock.\<close>

definition Supported :: "string \<Rightarrow> int \<Rightarrow> int \<Rightarrow> Registry \<Rightarrow> bool \<times> Registry" where
  "Supported node now now' r =
     (case Supported_read node now r of Some b \<Rightarrow> (b, r) | None \<Rightarrow> Supported_expire node now' r)"

definition mark :: "string \<Rightarrow> string \<Rightarrow> int \<Rightarrow> Registry \<Rightarrow> Registry" where
  "mark node state now r =
     (let entry = \<lparr>cap_Kind = reg_kind r, cap_Node = node, cap_State = state, cap_LastProbe = now,
                   cap_ExpiresAt = (if state = ''unsupported'' then now + UnsupportedTTL else 0)\<rparr>
      in r\<lparr>reg_nodes := (reg_nodes r)(node \<mapsto> entry)\<rparr>)"

definition MarkSupported :: "string \<Rightarrow> int \<Rightarrow> Registry \<Rightarrow> Registry" where
  "MarkSupported node now r = (if node = '''' then r else mark node ''supported'' now r)"

definition MarkUnsupported :: "string \<Rightarrow> int \<Rightarrow> Registry \<Rightarrow> Registry" where
  "MarkUnsupported node now r = (if node = '''' then r else mark node ''unsupported'' now r)"

definition Reset_Registry :: "Registry \<Rightarrow> Registry" where
  "Reset_Registry r = r\<lparr>reg_nodes := Map.empty\<rparr>"

text \<open>The state that \<open>Snapshot_Registry\<close> shows for one entry; it changes no entry.\<close>

definition shown_capability :: "int \<Rightarrow> Capability \<Rightarrow> Capability" where
  "shown_capability now entry =
     (if cap_State entry = ''unsupported'' \<and> \<not> now < cap_ExpiresAt entry then entry\<lparr>cap_State := ''expired''\<rparr>
      else entry)"

definition Snapshot_Registry :: "int \<Rightarrow> Registry \<Rightarrow> Capability list" where
  "Snapshot_Registry now r =
     map (\<lambda>node. shown_capability now (the (reg_nodes r node))) (sorted_list_of_set (dom (reg_nodes r)))"

section \<open>The node of a question\<close>

definition ContainsAny :: "string \<Rightarrow> string \<Rightarrow> bool" where
  "ContainsAny s chars = (\<exists>c\<in>set chars. c \<in> set s)"

definition inner_metadata :: Metadata where
  "inner_metadata = zero_metadata\<lparr>NetWork := TCP, Type := INNER\<rparr>"

definition tunnelDNSMatchTarget :: "string \<Rightarrow> Metadata result" where
  "tunnelDNSMatchTarget queryDomain =
     (if queryDomain = '''' then Inl ''tunnel DNS needs a domain to select a node with''
      else let match = inner_metadata\<lparr>DstPort := 443\<rparr> in
        if ContainsAny queryDomain ''[]'' then
          (case SetRemoteAddress (JoinHostPort queryDomain ''443'') match of
             (Some err, _) \<Rightarrow> Inl err
           | (None, m) \<Rightarrow> Inr m)
        else case ParseAddr queryDomain of
               Some ip \<Rightarrow> Inr (match\<lparr>DstIP := Unmap ip\<rparr>)
             | None \<Rightarrow> Inr (match\<lparr>Host := queryDomain\<rparr>))"

definition ErrTunnelDNSUnsupported :: string where
  "ErrTunnelDNSUnsupported = ''the selected node does not serve tunnel DNS''"
definition ErrTunnelDNSDirectNode :: string where
  "ErrTunnelDNSDirectNode = ErrTunnelDNSUnsupported @ '', it is direct''"
definition ErrTunnelDNSNoServerNode :: string where
  "ErrTunnelDNSNoServerNode = ErrTunnelDNSUnsupported @ '', it has no server''"

definition tunnelDNSNodeUsable :: "Proxy \<Rightarrow> int \<Rightarrow> int \<Rightarrow> Registry \<Rightarrow> string option \<times> Registry" where
  "tunnelDNSNodeUsable node now now' r =
     (if px_Type node = Direct_at then (Some (ErrTunnelDNSDirectNode @ '': '' @ px_Name node), r)
      else if \<not> CanServeTunnelDNS (px_Type node) then (Some (ErrTunnelDNSNoServerNode @ '': '' @ px_Name node), r)
      else case Supported (px_Name node) now now' r of
             (True, r') \<Rightarrow> (None, r')
           | (False, r') \<Rightarrow> (Some (ErrTunnelDNSUnsupported @ '': '' @ px_Name node @ '' did not answer recently''), r'))"

text \<open>The name that is returned with the pinned node or the error.\<close>

definition pin_node :: "(nat \<Rightarrow> Proxy) \<Rightarrow> nat \<Rightarrow> bool \<Rightarrow> int \<Rightarrow> int \<Rightarrow> Registry \<Rightarrow> (string \<times> nat result) \<times> Registry" where
  "pin_node heap a cacheOwner now now' reg =
     (let node = heap a; usable = tunnelDNSNodeUsable node now now' reg in
      ((px_Name node,
        case fst usable of
          Some err \<Rightarrow>
            if \<not> cacheOwner \<or> px_Type node = Direct_at \<or> \<not> CanServeTunnelDNS (px_Type node) then Inl err else Inr a
        | None \<Rightarrow> Inr a), snd usable))"

definition prepareTunnelDNS ::
  "nat \<Rightarrow> env \<Rightarrow> world \<Rightarrow> 'c tunnel \<Rightarrow> string \<Rightarrow> bool \<Rightarrow> int \<Rightarrow> int \<Rightarrow> Registry \<Rightarrow> mstate \<Rightarrow>
   (((string \<times> nat result) \<times> Registry) \<times> mstate) outcome" where
  "prepareTunnelDNS n E W t queryDomain cacheOwner now now' reg st =
     (case tunnelDNSMatchTarget queryDomain of
        Inl err \<Rightarrow> Return ((('''', Inl err), reg), st)
      | Inr match \<Rightarrow>
          obind (resolveMetadata n E W t (st\<lparr>md := match\<rparr>)) (\<lambda>(((proxy, rule), err), st1).
            case err of
              Some e \<Rightarrow> Return ((('''', Inl e), reg), st1)
            | None \<Rightarrow>
                (case proxy of
                   None \<Rightarrow> Return ((('''', Inl (ErrTunnelDNSUnsupported @ '': '' @ queryDomain @ '' matched no proxy'')), reg), st1)
                 | Some p \<Rightarrow>
                     obind (of_loop (leaf_loop (t_heap t) (md st1) p)) (\<lambda>a.
                       Return (pin_node (t_heap t) a cacheOwner now now' reg, st1)))))"

text \<open>The returned function: the error, or the node and the metadata it dials.\<close>

definition dial_tunnelDNS ::
  "(nat \<Rightarrow> Proxy) \<Rightarrow> nat \<Rightarrow> bool \<Rightarrow> int \<Rightarrow> int \<Rightarrow> Registry \<Rightarrow> (nat \<times> Metadata) result \<times> Registry" where
  "dial_tunnelDNS heap node cacheOwner now now' reg =
     (case tunnelDNSNodeUsable (heap node) now now' reg of (unusable, reg') \<Rightarrow>
        if unusable \<noteq> None \<and> \<not> cacheOwner then (Inl (the unusable), reg')
        else case SetRemoteAddress TunnelDNSAddress inner_metadata of
               (Some err, _) \<Rightarrow> (Inl err, reg')
             | (None, m) \<Rightarrow> (Inr (node, m), reg'))"

section \<open>The preview of a route\<close>

record RouteDiagnostic =
  rd_Proxy :: string
  rd_Rule :: string
  rd_RulePayload :: string
  rd_ResolvedIP :: string
  rd_Leaf :: string
  rd_LeafType :: string
  rd_DNSSource :: string
  rd_Complete :: bool
  rd_Reason :: string
  rd_Preview :: bool

definition diagnose_resolve :: "mstate \<Rightarrow> mstate outcome" where
  "diagnose_resolve st = Return (if \<not> Resolved (md st) then st\<lparr>complete := False\<rparr> else st)"

definition diagnose_helper :: "'c tunnel \<Rightarrow> RuleMatchHelper" where
  "diagnose_helper t =
     \<lparr>Diagnostic = True, ResolveIP = Some diagnose_resolve, FindProcess = None, CheckPassRule = Some (pass_callback t)\<rparr>"

definition diagnose_metadata :: "string \<Rightarrow> 16 word \<Rightarrow> NetWork \<Rightarrow> Addr list \<Rightarrow> Metadata" where
  "diagnose_metadata host port network knownIP =
     (let m = zero_metadata\<lparr>Host := host, DstPort := port, NetWork := network, Type := INNER\<rparr>;
          m1 = (case ParseAddr host of Some ip \<Rightarrow> m\<lparr>Host := '''', DstIP := Unmap ip\<rparr> | None \<Rightarrow> m)
      in if length knownIP > 0 \<and> IsValid (knownIP ! 0) then m1\<lparr>DstIP := knownIP ! 0\<rparr> else m1)"

text \<open>The result; the state holds the metadata and the counters left behind.\<close>

definition DiagnoseRoute ::
  "nat \<Rightarrow> env \<Rightarrow> 'c tunnel \<Rightarrow> string \<Rightarrow> 16 word \<Rightarrow> NetWork \<Rightarrow> Addr list \<Rightarrow> mstate \<Rightarrow> (RouteDiagnostic \<times> mstate) outcome" where
  "DiagnoseRoute n E t host port network knownIP st0 =
     (let st1 = st0\<lparr>md := diagnose_metadata host port network knownIP, complete := True\<rparr> in
      obind (route_by_mode n E t (diagnose_helper t) st1) (\<lambda>((proxy, rule), st).
      let result = \<lparr>rd_Proxy = '''', rd_Rule = '''', rd_RulePayload = '''', rd_ResolvedIP = '''', rd_Leaf = '''',
                    rd_LeafType = '''', rd_DNSSource = ''unknown'', rd_Complete = complete st,
                    rd_Reason = (if complete st then '''' else ''ip_rule_requires_dns''), rd_Preview = True\<rparr> in
      obind (case proxy of
               None \<Rightarrow> Return (result\<lparr>rd_Complete := False, rd_Reason := ''no_proxy_configured''\<rparr>)
             | Some p \<Rightarrow>
                 obind (of_loop (leaf_loop (t_heap t) (md st) p)) (\<lambda>leaf.
                   let ty = px_Type (t_heap t leaf) in
                   Return (result\<lparr>rd_Proxy := px_Name (t_heap t p), rd_Leaf := px_Name (t_heap t leaf),
                     rd_LeafType := String_AdapterType ty,
                     rd_DNSSource :=
                       (if ty = Direct_at then ''direct''
                        else if CanServeTunnelDNS ty then ''server-dns_or_public_fallback''
                        else ''no_server_node'')\<rparr>))) (\<lambda>result1.
      obind (case rule of
               None \<Rightarrow> Return result1
             | Some r \<Rightarrow> obind (Payload r) (\<lambda>p.
                 Return (result1\<lparr>rd_Rule := String_RuleType (RuleType r), rd_RulePayload := p\<rparr>))) (\<lambda>result2.
      Return (if IsValid (DstIP (md st)) then result2\<lparr>rd_ResolvedIP := String_addr (DstIP (md st))\<rparr> else result2, st)))))"

end
