(* ===== verification/Tunnel_Proofs.thy ===== *)
theory Tunnel_Proofs
  imports Frame_Proofs TunnelDNS
begin

text \<open>
  The routing decision: it returns on accepted configurations without circles, it changes only what it is meant to
  change of a connection, it keeps fake addresses away from remote nodes, and its users (the preview
  and the choice of a DNS node) keep their promises.
\<close>

section \<open>Walking through groups\<close>

text \<open>The groups do not contain each other in a circle.\<close>

definition ranked_groups :: "(nat \<Rightarrow> Proxy) \<Rightarrow> (nat \<Rightarrow> nat) \<Rightarrow> bool" where
  "ranked_groups heap rk \<longleftrightarrow> (\<forall>m p q. px_Unwrap (heap p) m = Some q \<longrightarrow> rk q < rk p)"

text \<open>The names of the rematch proxies.\<close>

definition rematch_names :: "'c tunnel \<Rightarrow> string set" where
  "rematch_names t = {px_Name (t_heap t p) | p. px_Type (t_heap t p) = Rematch_at}"

text \<open>
  The tunnel holds a configuration that the program has accepted: its rules and its \<open>k\<close> lists of
  sub-rules have been parsed and verified, and its rule sets have been loaded.
\<close>

definition accepted_tunnel :: "env \<Rightarrow> nat \<Rightarrow> 'c tunnel \<Rightarrow> bool" where
  "accepted_tunnel E k t \<longleftrightarrow>
     (\<exists>cfg raw proxies sets.
        parseSubRules E cfg proxies sets = Return (Inr (subRules (t_conf t))) \<and>
        parseRules E raw proxies sets (set (map fst cfg)) ''rules'' = Return (Inr (t_rules t)) \<and>
        loaded_sets E (RuleProviders (t_conf t)) \<and> length cfg = k)"

text \<open>
  What the program does not check when it accepts a configuration: rule sets refer to each other at
  most \<open>d\<close> levels deep and not in a circle, and groups do not select each other in a circle.
\<close>

definition acyclic_tunnel :: "nat \<Rightarrow> 'c tunnel \<Rightarrow> bool" where
  "acyclic_tunnel d t \<longleftrightarrow>
     (\<exists>rk. ranked_sets (RuleProviders (t_conf t)) rk \<and> (\<forall>q. rk q < d)) \<and> (\<exists>gk. ranked_groups (t_heap t) gk)"

text \<open>Fuel for all levels of rules, and for every rematch name.\<close>

definition fuel_covers :: "nat \<Rightarrow> nat \<Rightarrow> nat \<Rightarrow> 'c tunnel \<Rightarrow> bool" where
  "fuel_covers n k d t \<longleftrightarrow> d + k < n \<and> finite (rematch_names t) \<and> card (rematch_names t) < n"

text \<open>The lookup of a process by address returns when the matcher it is given does.\<close>

definition lookup_returns :: "world \<Rightarrow> bool" where
  "lookup_returns W \<longleftrightarrow> (\<forall>net src dst f. (\<forall>path. returns (f path)) \<longrightarrow>
     returns (FindProcessNameByAddrWithMatcher W net src dst f))"

text \<open>Like \<open>framed\<close>, and a rematch may also set its name and the list of rules.\<close>

definition routed :: "Metadata \<Rightarrow> Metadata \<Rightarrow> bool" where
  "routed m m' \<longleftrightarrow>
     m' = m\<lparr>DstIP := DstIP m', SrcGeoIP := SrcGeoIP m', DstGeoIP := DstGeoIP m', SrcIPASN := SrcIPASN m',
            DstIPASN := DstIPASN m', Uid := Uid m', Process := Process m', ProcessPath := ProcessPath m',
            RematchName := RematchName m', SpecialRules := SpecialRules m'\<rparr>"

text \<open>The rematch proxies are those of \<open>NewRematch\<close>.\<close>

definition made_rematches :: "(nat \<Rightarrow> Proxy) \<Rightarrow> bool" where
  "made_rematches heap \<longleftrightarrow>
     (\<forall>p. px_Type (heap p) = Rematch_at \<longrightarrow> (\<exists>l. px_DialContext (heap p) = DialContext_Rematch l))"

text \<open>
  The outbounds \<open>DIRECT\<close> (0), a group that has selected a remote node (1), the node (2), and a
  rematch proxy (3); the world knows no hosts, and every name resolves to one address.
\<close>

definition example_heap :: "nat \<Rightarrow> Proxy" where
  "example_heap p =
     \<lparr>px_Name = (if p = 0 then ''DIRECT'' else if p = 1 then ''group'' else if p = 2 then ''node'' else ''again''),
      px_Type = (if p = 0 then Direct_at else if p = 1 then Selector_at else if p = 2 then Trojan_at else Rematch_at),
      px_SupportUDP = True, px_Unwrap = (\<lambda>m. if p = 1 then Some 2 else None),
      px_DialContext = DialContext_Rematch \<lparr>targetRematchName = Some ''again'', targetSubRule = None\<rparr>\<rparr>"

definition example_tunnel :: "rule list \<Rightarrow> (string \<Rightarrow> rule list option) \<Rightarrow> unit tunnel" where
  "example_tunnel rules subs =
     \<lparr>t_status = Running, t_rules = rules, t_conf = \<lparr>RuleProviders = example_sets, subRules = subs\<rparr>,
      t_proxies = [''DIRECT'' \<mapsto> 0, ''group'' \<mapsto> 1, ''node'' \<mapsto> 2, ''again'' \<mapsto> 3, ''GLOBAL'' \<mapsto> 1], t_heap = example_heap,
      t_mode = Rule, t_findProcessMode = FindProcessStrict,
      t_bans = \<lparr>rb_entries = (), rb_heap = [], generation = 0\<rparr>\<rparr>"

text \<open>A lookup that asks the matcher about one path.\<close>

definition example_lookup :: "string \<Rightarrow> AddrPort \<Rightarrow> AddrPort \<Rightarrow> (string \<Rightarrow> bool outcome) \<Rightarrow> (32 word \<times> string) result outcome" where
  "example_lookup net src dst f =
     obind (f ''/bin/app'') (\<lambda>wanted. Return (if wanted then Inr (7, ''/bin/app'') else Inl ''none''))"

definition example_world :: world where
  "example_world =
     \<lparr>MappingEnabled = True, FindHostByIP = (\<lambda>_. None), IsFakeIP = (\<lambda>_. False), hosts_Search = (\<lambda>_ _. (None, False)),
      resolver_ResolveIP = (\<lambda>_. Inr (IPv4 16909060)), FindProcessNameByAddrWithMatcher = example_lookup,
      EndpointResolverInstalled = False, FindPackageName = (\<lambda>_. Inl ''none''), CMFA = False\<rparr>"

text \<open>A connection to a fake address, in a tunnel whose rules send everything to \<open>DIRECT\<close>.\<close>

definition fake_state :: mstate where
  "fake_state = bare_state\<lparr>md := zero_metadata\<lparr>Host := ''example.com'', DNSMode := DNSFakeIP, DstIP := IPv4 16909060\<rparr>\<rparr>"

text \<open>The i-th attempt is followed by another one; the errors of some attempts.\<close>

definition goes_on :: "(nat \<Rightarrow> 't option \<times> sentinel set option) \<Rightarrow> (nat \<Rightarrow> bool) \<Rightarrow> nat \<Rightarrow> bool" where
  "goes_on ft wait i \<longleftrightarrow> snd (ft i) \<noteq> None \<and> \<not> shouldStopRetry (the (snd (ft i))) \<and> wait i"

definition errors_of :: "(nat \<Rightarrow> 't option \<times> sentinel set option) \<Rightarrow> nat \<Rightarrow> nat \<Rightarrow> sentinel set list" where
  "errors_of ft i k = concat (map (\<lambda>j. case snd (ft j) of None \<Rightarrow> [] | Some e \<Rightarrow> [e]) [i..<k])"

lemma unwrap_walk_simps [simp]:
  "unwrap_walk heap m body None = Some None"
  "unwrap_walk heap m body (Some p) =
     (case body p of Some r \<Rightarrow> Some (Some r) | None \<Rightarrow> unwrap_walk heap m body (px_Unwrap (heap p) m))"
  by (subst unwrap_walk.simps, simp)+

lemma reject_loop_simps [simp]:
  "reject_loop heap m None chain = Some None"
  "reject_loop heap m (Some p) chain =
     (if px_Type (heap p) = Reject_at \<or> px_Type (heap p) = RejectDrop_at
      then Some (Some (p, rev (chain @ [px_Name (heap p)])))
      else reject_loop heap m (px_Unwrap (heap p) m) (chain @ [px_Name (heap p)]))"
  by (subst reject_loop.simps, simp)+

lemma unwrap_walk_returns:
  assumes "ranked_groups heap rk"
  shows "\<exists>r. unwrap_walk heap m body a = Some r"
proof (cases a)
  case (Some p)
  have "\<exists>r. unwrap_walk heap m body (Some p) = Some r"
  proof (induction "rk p" arbitrary: p rule: less_induct)
    case less
    show ?case
      using less[of "the (px_Unwrap (heap p) m)"] assms
      by (cases "px_Unwrap (heap p) m") (auto simp: ranked_groups_def split: option.split)
  qed
  thus ?thesis using Some by simp
qed simp

lemma leaf_loop_returns:
  assumes "ranked_groups heap rk"
  shows "\<exists>l. leaf_loop heap m p = Some l"
proof (induction "rk p" arbitrary: p rule: less_induct)
  case less
  show ?case
    using less[of "the (px_Unwrap (heap p) m)"] assms
    by (subst leaf_loop.simps) (auto simp: ranked_groups_def split: option.split)
qed

text \<open>The two walks that look for a reject adapter agree, and one returns exactly when the other does.\<close>

lemma reject_loop_walk:
  "reject_loop heap m a chain = Some r \<Longrightarrow>
   unwrap_walk heap m (\<lambda>p. if px_Type (heap p) = Reject_at then Some True
                           else if px_Type (heap p) = RejectDrop_at then Some False else None) a =
   Some (map_option (\<lambda>(p, _). px_Type (heap p) = Reject_at) r)"
proof (induction rule: reject_loop.raw_induct[rotated, consumes 1])
  case (1 loop heap m a chain r)
  show ?case using 1(2) by (auto split: option.splits if_splits dest!: 1(1))
qed

lemma walk_reject_loop:
  assumes "unwrap_walk heap m body a = Some r"
    and "\<forall>p. body p = None \<longleftrightarrow> px_Type (heap p) \<noteq> Reject_at \<and> px_Type (heap p) \<noteq> RejectDrop_at"
  shows "\<exists>r'. reject_loop heap m a chain = Some r'"
  using assms
proof (induction arbitrary: chain rule: unwrap_walk.raw_induct[rotated, consumes 1])
  case (1 loop heap m body a r)
  show ?case
  proof (cases a)
    case (Some p)
    show ?thesis using 1(2) 1(3)[rule_format, of p] 1(1)[OF _ 1(3)] Some by (auto split: option.splits)
  qed simp
qed

section \<open>The decision returns\<close>

lemma any_rule_returns: "(\<And>r. r \<in> set rs \<Longrightarrow> returns (p r)) \<Longrightarrow> returns (any_rule p rs)"
  by (induction rs) (auto intro!: returns_obind)

lemma HasProcessRule_returns:
  "acyclic_sets C rk \<Longrightarrow> (\<And>q. q \<in> set (ProviderNames r) \<Longrightarrow> rk q < n) \<Longrightarrow> returns (HasProcessRule n C st r)"
proof (induction n C st r rule: HasProcessRule.induct)
  case (3 n C st l)
  have "returns (HasProcessRule n C st r)" if r: "r \<in> set (logic_rules l)" for r
    by (rule 3(1)[OF r 3(2)], rule 3(3)) (use r in auto)
  thus ?case by (simp add: HasProcessRule_Logic_def any_rule_returns)
next
  case (4 n C st rs)
  then obtain k where k: "n = Suc k" by (cases n) auto
  have "returns (HasProcessRule k C st r)" if p: "RuleProviders C (rs_ruleProviderName rs) = Some (Some (classicalStrategy rules cnt))"
    "r \<in> set rules" for rules cnt r
  proof (rule 4(1)[OF k 4(2)])
    fix q assume "q \<in> set (ProviderNames r)"
    hence "rk q < rk (rs_ruleProviderName rs)" using p 4(2) by (auto simp: acyclic_sets_def)
    moreover have "rk (rs_ruleProviderName rs) < n" using 4(3) by simp
    ultimately show "rk q < k" using k by simp
  qed
  thus ?case by (auto simp: k HasProcessRule_RuleSet_def intro!: any_rule_returns split: option.split ruleStrategy.split)
qed (auto simp: HasProcessRule_RuleWrapper_def)

lemma MatchProcessName_returns:
  "wf_rule r \<Longrightarrow> acyclic_sets C rk \<Longrightarrow> (\<And>q. q \<in> set (ProviderNames r) \<Longrightarrow> rk q < n) \<Longrightarrow>
   returns (MatchProcessName n E C name r)"
proof (induction n E C name r rule: MatchProcessName.induct)
  case (3 n E C name l)
  have "returns (MatchProcessName n E C name r)" if r: "r \<in> set (logic_rules l)" for r
    by (rule 3(1)[OF r _ 3(3)], use r 3(2) in simp, rule 3(4)) (use r in auto)
  thus ?case by (simp add: MatchProcessName_Logic_def any_rule_returns)
next
  case (4 n E C name rs)
  then obtain k where k: "n = Suc k" by (cases n) auto
  have "returns (MatchProcessName k E C name r)" if p: "RuleProviders C (rs_ruleProviderName rs) = Some (Some (classicalStrategy rules cnt))"
    "r \<in> set rules" for rules cnt r
  proof (rule 4(1)[OF k _ 4(3)])
    show "wf_rule r" using p 4(3) by (auto simp: acyclic_sets_def)
    fix q assume "q \<in> set (ProviderNames r)"
    hence "rk q < rk (rs_ruleProviderName rs)" using p 4(3) by (auto simp: acyclic_sets_def)
    moreover have "rk (rs_ruleProviderName rs) < n" using 4(4) by simp
    ultimately show "rk q < k" using k by simp
  qed
  thus ?case by (auto simp: k MatchProcessName_RuleSet_def intro!: any_rule_returns split: option.split ruleStrategy.split)
qed (auto simp: MatchProcessName_Process_def matchTarget_def Match_wildcard_glob)

lemma MatchProcess_returns:
  "wf_rule r \<Longrightarrow> acyclic_sets C rk \<Longrightarrow> (\<And>q. q \<in> set (ProviderNames r) \<Longrightarrow> rk q < n) \<Longrightarrow>
   returns (MatchProcess n E C path r)"
proof (induction n E C path r rule: MatchProcess.induct)
  case (3 n E C path l)
  have "returns (MatchProcess n E C path r)" if r: "r \<in> set (logic_rules l)" for r
    by (rule 3(1)[OF r _ 3(3)], use r 3(2) in simp, rule 3(4)) (use r in auto)
  thus ?case by (simp add: MatchProcess_Logic_def any_rule_returns)
next
  case (4 n E C path rs)
  then obtain k where k: "n = Suc k" by (cases n) auto
  have "returns (MatchProcess k E C path r)" if p: "RuleProviders C (rs_ruleProviderName rs) = Some (Some (classicalStrategy rules cnt))"
    "r \<in> set rules" for rules cnt r
  proof (rule 4(1)[OF k _ 4(3)])
    show "wf_rule r" using p 4(3) by (auto simp: acyclic_sets_def)
    fix q assume "q \<in> set (ProviderNames r)"
    hence "rk q < rk (rs_ruleProviderName rs)" using p 4(3) by (auto simp: acyclic_sets_def)
    moreover have "rk (rs_ruleProviderName rs) < n" using 4(4) by simp
    ultimately show "rk q < k" using k by simp
  qed
  thus ?case by (auto simp: k MatchProcess_RuleSet_def intro!: any_rule_returns split: option.split ruleStrategy.split)
qed (auto simp: MatchProcess_Process_def matchTarget_def Match_wildcard_glob)

lemma processMatcherForRules_returns:
  "(\<And>r. r \<in> set rs \<Longrightarrow> returns (HasProcessRule n C st r)) \<Longrightarrow>
   \<exists>ms. processMatcherForRules n C st rs = Return ms \<and> set ms \<subseteq> set rs"
proof (induction rs)
  case (Cons r rs)
  then obtain ms where "processMatcherForRules n C st rs = Return ms" "set ms \<subseteq> set rs" by auto
  moreover obtain b where "HasProcessRule n C st r = Return b" using Cons.prems[of r] by (auto simp: returns_def)
  ultimately show ?case by auto
qed simp

lemma process_callback_returns:
  assumes "acyclic_sets (t_conf t) rk" "\<And>q. rk q < n" "\<And>m r. r \<in> set (getRules t m) \<Longrightarrow> wf_rule r"
    and W: "lookup_returns W"
  shows "returns (process_callback n E W t st)"
proof -
  have pm: "\<exists>ms. processMatcherForRules n (t_conf t) s (getRules t m) = Return ms \<and> set ms \<subseteq> set (getRules t m)" for s m
    by (rule processMatcherForRules_returns, rule HasProcessRule_returns[OF assms(1)]) (rule assms(2))
  have mn: "returns (MatchProcessName_rules n E (t_conf t) ms name)" if "set ms \<subseteq> set (getRules t m)" for ms m name
    unfolding MatchProcessName_rules_def
    by (rule any_rule_returns, rule MatchProcessName_returns[OF _ assms(1)]) (use that assms(2,3) in auto)
  have mp: "returns (MatchProcess_rules n E (t_conf t) ms path)" if "set ms \<subseteq> set (getRules t m)" for ms m path
    unfolding MatchProcess_rules_def
    by (rule any_rule_returns, rule MatchProcess_returns[OF _ assms(1)]) (use that assms(2,3) in auto)
  obtain ms where ms: "processMatcherForRules n (t_conf t) (st\<lparr>attemptProcessLookup := False\<rparr>) (getRules t (md st)) = Return ms"
    "set ms \<subseteq> set (getRules t (md st))" using pm by blast
  have "returns (FindProcessNameByAddrWithMatcher W net src dst (MatchProcess_rules n E (t_conf t) ms))" for net src dst
    using W mp[OF ms(2)] by (simp add: lookup_returns_def)
  thus ?thesis using ms(1) mn[OF ms(2)]
    by (auto simp: process_callback_def find_by_addr_def find_package_def intro!: returns_obind split: sum.split)
qed

lemma rules_loop_returns:
  assumes "ranked_groups (t_heap t) gk"
  shows "(\<And>r s. r \<in> set rs \<Longrightarrow> returns (m r s)) \<Longrightarrow> returns (rules_loop m t rs st)"
proof (induction rs arbitrary: st)
  case (Cons r rs)
  have IH: "returns (rules_loop m t rs s)" for s by (rule Cons.IH) (use Cons.prems in auto)
  have walk: "returns (of_loop (unwrap_walk (t_heap t) m' (pass_or_rematch (t_heap t)) a))" for m' a
    using unwrap_walk_returns[OF assms, of m' "pass_or_rematch (t_heap t)" a] by auto
  show ?case unfolding rules_loop.simps
    by (intro returns_obind) (use Cons.prems IH walk in \<open>auto intro!: returns_obind simp del: unwrap_walk_simps split: option.split\<close>)
qed simp

lemma pass_or_rematch_walk:
  "unwrap_walk heap m (pass_or_rematch heap) a = Some w \<Longrightarrow> w = Some (Some p) \<Longrightarrow> px_Type (heap p) = Rematch_at"
proof (induction heap m "pass_or_rematch heap" a w arbitrary: p rule: unwrap_walk.raw_induct[rotated, consumes 1])
  case (1 loop heap m a w)
  show ?case using 1(2) 1(3) 1(1)[OF _ refl] by (auto simp: pass_or_rematch_def split: option.splits if_splits)
qed

lemma rules_loop_rematch:
  "rules_loop m t rs st = Return (DoRematch p r, st') \<Longrightarrow> px_Type (t_heap t p) = Rematch_at"
proof (induction rs arbitrary: st)
  case (Cons x rs)
  show ?case using Cons.prems
    by (auto simp: obind_eq_Return of_loop_def simp del: unwrap_walk_simps split: if_splits option.splits
        dest: Cons.IH pass_or_rematch_walk[OF _ refl])
qed simp

lemma rematch_loop_returns:
  assumes "ranked_groups (t_heap t) gk" "finite (rematch_names t)" "\<And>mt r s. r \<in> set (getRules t mt) \<Longrightarrow> returns (m r s)"
  shows "distinct chain \<Longrightarrow> set chain \<subseteq> rematch_names t \<Longrightarrow> card (rematch_names t) < k + length chain \<Longrightarrow>
    returns (rematch_loop k m t chain st)"
proof (induction k arbitrary: chain st)
  case 0
  have "length chain \<le> card (rematch_names t)"
    using 0 assms(2) by (metis card_mono distinct_card)
  thus ?case using 0 by simp
next
  case (Suc k)
  obtain d st' where d: "rules_loop m t (getRules t (md st)) st = Return (d, st')"
    using rules_loop_returns[OF assms(1), of "getRules t (md st)" m st] assms(3) by (auto simp: returns_def)
  have "returns (rematch_loop k m t (chain @ [px_Name (t_heap t p)]) s)"
    if "px_Name (t_heap t p) \<notin> set chain" "px_Type (t_heap t p) = Rematch_at" for p s
    by (rule Suc.IH) (use Suc.prems that in \<open>auto simp: rematch_names_def\<close>)
  thus ?case using rules_loop_rematch[of m t _ st _ _ st'] d by (auto split: decision.split prod.split)
qed

lemma getRules_cases: "r \<in> set (getRules t m) \<Longrightarrow> r \<in> set (t_rules t) \<or> (\<exists>a rs. subRules (t_conf t) a = Some rs \<and> r \<in> set rs)"
  by (auto simp: getRules_def split: option.splits)

text \<open>What an accepted configuration without circles gives for the callbacks and the rules.\<close>

lemma accepted_facts:
  assumes "accepted_tunnel E k t" "acyclic_tunnel d t" "fuel_covers n k d t"
  obtains rk gk where "acyclic_sets (t_conf t) rk" "\<And>q. rk q < n" "ranked_groups (t_heap t) gk"
    "\<And>m r. r \<in> set (getRules t m) \<Longrightarrow> wf_rule r" "finite (rematch_names t)" "card (rematch_names t) < n"
    "\<And>h m r s. helper_ok h \<Longrightarrow> r \<in> set (getRules t m) \<Longrightarrow> returns (Match n E (t_conf t) h r s)"
proof -
  obtain cfg raw proxies sets rk gk where a:
    "parseSubRules E cfg proxies sets = Return (Inr (subRules (t_conf t)))"
    "parseRules E raw proxies sets (set (map fst cfg)) ''rules'' = Return (Inr (t_rules t))"
    "loaded_sets E (RuleProviders (t_conf t))" "ranked_sets (RuleProviders (t_conf t)) rk" "\<And>q. rk q < d"
    "ranked_groups (t_heap t) gk" "finite (rematch_names t)" "d + length cfg < n" "card (rematch_names t) < n"
    using assms unfolding accepted_tunnel_def acyclic_tunnel_def fuel_covers_def by blast
  let ?subs = "subRules (t_conf t)"
  have v: "wf_subs ?subs" "dom ?subs = set (map fst cfg)" "verifySubRule ?subs (map fst cfg) = Some None"
    using parseSubRules_verified[OF a(1)] by blast+
  have acyc: "acyclic_sets (t_conf t) rk" using loaded_acyclic[OF a(3,4)] by (simp add: acyclic_sets_def)
  have wf: "wf_rule r" if "r \<in> set (getRules t m)" for m r
    using getRules_cases[OF that] parseRules_wf[OF a(2)] v(1) by (auto simp: wf_subs_def)
  have "card (dom ?subs) \<le> length cfg" unfolding v(2) by (metis card_length length_map)
  hence fuel: "d + card (dom ?subs) < n" using a(8) by simp
  have m: "returns (Match n E (t_conf t) h r s)" if "helper_ok h" "r \<in> set (getRules t m)" for h m r s
    by (rule verified_Match_returns[where names = "map fst cfg", OF _ v(1) that(1) acyc a(5) v(3) _ wf[OF that(2)] fuel])
       (simp_all add: v(2))
  have "rk q < n" for q using a(5)[of q] a(8) by linarith
  thus ?thesis using that acyc wf m a by blast
qed

lemma leaf_returns_of: "ranked_groups heap gk \<Longrightarrow> returns (of_loop (leaf_loop heap m p))"
  by (metis leaf_loop_returns of_loop_simps(2) returns_simps(1))

lemma walk_returns_of: "ranked_groups heap gk \<Longrightarrow> returns (of_loop (unwrap_walk heap m body a))"
  by (metis unwrap_walk_returns of_loop_simps(2) returns_simps(1))

lemma preserveFakeIPDomain_returns: "ranked_groups heap gk \<Longrightarrow> returns (preserveFakeIPDomain heap m proxy)"
  by (auto simp: preserveFakeIPDomain_def intro!: returns_obind leaf_returns_of split: option.split)

lemma pass_callback_returns: "ranked_groups (t_heap t) gk \<Longrightarrow> returns (pass_callback t a st)"
  by (auto simp: pass_callback_def simp del: unwrap_walk_simps intro!: returns_obind walk_returns_of split: option.split)

lemma route_helper_ok:
  assumes "acyclic_sets (t_conf t) rk" "\<And>q. rk q < n" "\<And>m r. r \<in> set (getRules t m) \<Longrightarrow> wf_rule r"
    "ranked_groups (t_heap t) gk" "lookup_returns W"
  shows "helper_ok (route_helper n E W t m)"
  using process_callback_returns[OF assms(1-3,5)] pass_callback_returns[OF assms(4)]
  by (auto simp: helper_ok_def route_helper_def fakeIPRuleResolver_def resolve_callback_def)

lemma matchLocked_returns:
  assumes "ranked_groups (t_heap t) gk" "finite (rematch_names t)" "card (rematch_names t) < n"
    and "\<And>m r s. r \<in> set (getRules t m) \<Longrightarrow> returns (Match n E (t_conf t) h r s)"
  shows "returns (matchLocked n E t h st)"
  unfolding matchLocked_def by (rule rematch_loop_returns[OF assms(1,2,4)]) (use assms(3) in simp_all)

lemma resolveMetadata_returns:
  assumes "accepted_tunnel E k t" "acyclic_tunnel d t" "fuel_covers n k d t" and W: "lookup_returns W"
  shows "returns (resolveMetadata n E W t st)"
proof -
  obtain rk gk where a: "acyclic_sets (t_conf t) rk" "\<And>q. rk q < n" "ranked_groups (t_heap t) gk"
    "\<And>m r. r \<in> set (getRules t m) \<Longrightarrow> wf_rule r" "finite (rematch_names t)" "card (rematch_names t) < n"
    "\<And>h m r s. helper_ok h \<Longrightarrow> r \<in> set (getRules t m) \<Longrightarrow> returns (Match n E (t_conf t) h r s)"
    using accepted_facts[OF assms(1-3)] by blast
  have h: "helper_ok (route_helper n E W t m)" for m by (rule route_helper_ok[OF a(1,2,4,3) W])
  hence h': "helper_ok ((route_helper n E W t m)\<lparr>FindProcess := None\<rparr>)" for m by (simp add: helper_ok_def)
  have ml: "returns (matchLocked n E t (route_helper n E W t m) s)"
    "returns (matchLocked n E t ((route_helper n E W t m)\<lparr>FindProcess := None\<rparr>) s)" for m s
    by (rule matchLocked_returns[OF a(3,5,6)], rule a(7)[OF h], assumption)
       (rule matchLocked_returns[OF a(3,5,6)], rule a(7)[OF h'], assumption)
  have "returns (call_back (FindProcess (route_helper n E W t m)) s)" for m s
    using helper_ok_returns(2)[OF h] by simp
  hence find: "returns (find_process_first mode (route_helper n E W t m) s)" for mode m s
    by (auto simp: find_process_first_def intro!: returns_obind split: FindProcessMode.split)
  have mode: "returns (route_by_mode n E t h' s')" if "find_process_first mode (route_helper n E W t m) s = Return (h', s')" for mode m s h' s'
    using that ml by (auto simp: find_process_first_def route_by_mode_def obind_eq_Return split: FindProcessMode.splits TunnelMode.split)
  show ?thesis
    unfolding resolveMetadata_def Let_def
    by (auto intro!: returns_obind returns_if preserveFakeIPDomain_returns[OF a(3)] find mode)
qed

section \<open>What routing may change\<close>

lemma routed_refl [simp]: "routed m m"
  by (simp add: routed_def)

lemma routed_trans: "routed a b \<Longrightarrow> routed b c \<Longrightarrow> routed a c"
  unfolding routed_def by (rule trans, assumption, erule ssubst, thin_tac "c = _", simp)

lemma framed_routed: "framed m m' \<Longrightarrow> routed m m'"
  unfolding framed_def routed_def by (erule ssubst) simp

lemma framed_sets:
  "framed m (m\<lparr>DstIP := x\<rparr>)" "framed m (m\<lparr>Process := b, ProcessPath := p, Uid := u\<rparr>)" "framed m (m\<lparr>Process := b\<rparr>)"
  by (simp_all add: framed_def)

lemma routed_rematch: "routed m (applyMetadata l m)"
  by (simp add: routed_def applyMetadata_def Let_def split: option.split)

lemma routed_kept: "routed m m' \<Longrightarrow> DNSMode m' = DNSMode m" "routed m m' \<Longrightarrow> Host m' = Host m"
  unfolding routed_def by (erule ssubst, simp)+

text \<open>The loops of \<open>matchLocked\<close> keep every relation that the matching of rules and a rematch keep.\<close>

lemma rules_loop_rel:
  assumes "\<And>s. R s s" "\<And>a b c. R a b \<Longrightarrow> R b c \<Longrightarrow> R a c" "\<And>r s x s'. m r s = Return (x, s') \<Longrightarrow> R s s'"
  shows "rules_loop m t rs st = Return (d, st') \<Longrightarrow> R st st'"
proof (induction rs arbitrary: st)
  case (Cons r rs)
  from Cons.prems obtain b a s1 where s1: "m r st = Return ((b, a), s1)"
    "st' = s1 \<or> rules_loop m t rs s1 = Return (d, st')"
    by (auto simp: obind_eq_Return simp del: unwrap_walk_simps split: if_splits option.splits)
  have "R s1 st'" using s1(2) Cons.IH[of s1] assms(1)[of s1] by blast
  with assms(3)[OF s1(1)] show ?case by (rule assms(2))
qed (simp add: assms(1))

lemma rematch_loop_rel:
  assumes "\<And>s. R s s" "\<And>a b c. R a b \<Longrightarrow> R b c \<Longrightarrow> R a c" "\<And>r s x s'. m r s = Return (x, s') \<Longrightarrow> R s s'"
    and "\<And>p s m' f. px_Type (t_heap t p) = Rematch_at \<Longrightarrow> px_DialContext (t_heap t p) (md s) = (m', f) \<Longrightarrow> R s (s\<lparr>md := m'\<rparr>)"
  shows "rematch_loop k m t chain st = Return (x, st') \<Longrightarrow> R st st'"
proof (induction k arbitrary: chain st)
  case (Suc k)
  from Suc.prems obtain d s1 where d: "rules_loop m t (getRules t (md st)) st = Return (d, s1)" by (auto simp: obind_eq_Return)
  have 1: "R st s1" by (rule rules_loop_rel[of R, OF assms(1-3) d])
  have 2: "R s1 (s1\<lparr>md := m'\<rparr>)" if "d = DoRematch p r" "px_DialContext (t_heap t p) (md s1) = (m', f)" for p r m' f
    using assms(4)[OF _ that(2)] rules_loop_rematch[of m t _ st p r s1] d that(1) by blast
  have "st' = s1 \<or> (\<exists>p r m' f. d = DoRematch p r \<and> px_DialContext (t_heap t p) (md s1) = (m', f) \<and>
      (st' = s1\<lparr>md := m'\<rparr> \<or> (\<exists>chain'. rematch_loop k m t chain' (s1\<lparr>md := m'\<rparr>) = Return (x, st'))))"
    using Suc.prems d by (auto split: decision.splits if_splits prod.splits)
  hence "R s1 st'"
  proof (elim disjE exE conjE)
    fix p r m' f chain'
    assume a: "d = DoRematch p r" "px_DialContext (t_heap t p) (md s1) = (m', f)"
      "rematch_loop k m t chain' (s1\<lparr>md := m'\<rparr>) = Return (x, st')"
    show ?thesis by (rule assms(2)[OF 2[OF a(1,2)] Suc.IH[OF a(3)]])
  qed (simp_all add: assms(1) 2)
  with 1 show ?case by (rule assms(2))
qed simp

lemma resolve_callback_framed: "resolve_callback W s = Return s' \<Longrightarrow> framed (md s) (md s')"
  by (auto simp: resolve_callback_def framed_sets split: if_splits sum.splits)

lemma found_process_framed: "framed m (found_process W uid path m) \<and> DstIP (found_process W uid path m) = DstIP m"
  by (simp add: found_process_def Let_def framed_def split: sum.split)

lemma find_by_addr_framed:
  "find_by_addr n E W t s = Return s' \<Longrightarrow> framed (md s) (md s') \<and> DstIP (md s') = DstIP (md s)"
proof -
  assume "find_by_addr n E W t s = Return s'"
  then consider "s' = s" | found :: "(32 word \<times> string) result" where "s' = s\<lparr>md := (case found of
      Inl _ \<Rightarrow> md s | Inr (uid, path) \<Rightarrow> found_process W uid path (md s))\<rparr>"
    unfolding find_by_addr_def obind_eq_Return by (auto simp: obind_eq_Return split: if_splits)
  thus ?thesis using found_process_framed by cases (auto split: sum.split)
qed

lemma find_package_framed:
  "find_package n E W t s = Return s' \<Longrightarrow> framed (md s) (md s') \<and> DstIP (md s') = DstIP (md s)"
  unfolding find_package_def
  by (cases "FindPackageName W (md s)", simp, simp only: sum.case obind_eq_Return, elim exE conjE)
     (simp only: outcome.inject, erule subst, simp add: framed_sets(3))

lemma process_callback_framed:
  "process_callback n E W t s = Return s' \<Longrightarrow> framed (md s) (md s') \<and> DstIP (md s') = DstIP (md s)"
  using find_by_addr_framed[of n E W t "s\<lparr>attemptProcessLookup := False\<rparr>" s']
    find_package_framed[of n E W t "s\<lparr>attemptProcessLookup := False\<rparr>" s']
  by (simp add: process_callback_def split: if_splits)

lemma route_helper_framed:
  "helper_framed (route_helper n E W t m)" "helper_framed ((route_helper n E W t m)\<lparr>FindProcess := None\<rparr>)"
  unfolding helper_framed_def route_helper_def fakeIPRuleResolver_def
  by (simp_all split: if_split) (blast intro: resolve_callback_framed dest: process_callback_framed)+

lemma matchLocked_routed:
  assumes "made_rematches (t_heap t)" "helper_framed h" "matchLocked n E t h st = Return (x, st')"
  shows "routed (md st) (md st')"
proof (rule rematch_loop_rel[where R = "\<lambda>s s'. routed (md s) (md s')", OF _ _ _ _ assms(3)[unfolded matchLocked_def]])
  show "routed (md s) (md s')" if "Match n E (t_conf t) h r s = Return (y, s')" for r s y s'
    using connection.rel_Match[OF assms(2) that] by (simp add: keeps_connection_def framed_routed)
  show "routed (md s) (md (s\<lparr>md := m'\<rparr>))"
    if "px_Type (t_heap t p) = Rematch_at" "px_DialContext (t_heap t p) (md s) = (m', f)" for p s m' f
    using that assms(1)[unfolded made_rematches_def, rule_format, OF that(1)] routed_rematch
    by (auto simp: DialContext_Rematch_def)
qed (auto intro: routed_trans)

lemma preserveFakeIPDomain_routed: "preserveFakeIPDomain heap m proxy = Return m' \<Longrightarrow> routed m m'"
  by (auto simp: preserveFakeIPDomain_def obind_eq_Return intro!: framed_routed framed_sets split: option.splits if_splits)

lemma start_state_routed: "routed (md st) (md (start_state W st))"
  by (auto simp: start_state_def Let_def intro!: framed_routed framed_sets split: prod.split option.split bool.split)

lemma find_process_first_framed:
  assumes "find_process_first mode (route_helper n E W t m) s = Return (h, s')"
  shows "helper_framed h \<and> routed (md s) (md s')"
proof -
  have "routed (md s) (md s')" if "call_back (FindProcess (route_helper n E W t m)) s = Return s'"
    using that process_callback_framed[of n E W t s s'] by (simp add: route_helper_def call_back_def framed_routed)
  thus ?thesis using assms route_helper_framed
    by (auto simp: find_process_first_def obind_eq_Return split: FindProcessMode.splits)
qed

text \<open>The steps of a decision that no special proxy has taken.\<close>

lemma resolveMetadata_steps:
  assumes "resolveMetadata n E W t st = Return (((proxy, rule), err), st')" "SpecialProxy (md st) = ''''"
  obtains h s2 s3 m where
    "find_process_first (t_findProcessMode t) (route_helper n E W t (md (start_state W st))) (start_state W st) = Return (h, s2)"
    "route_by_mode n E t h s2 = Return ((proxy, rule), s3)"
    "preserveFakeIPDomain (t_heap t) (md s3) proxy = Return m" "st' = s3\<lparr>md := m\<rparr>" "err = None"
  using assms by (auto simp: resolveMetadata_def Let_def obind_eq_Return)

lemma route_by_mode_routed:
  assumes "made_rematches (t_heap t)" "helper_framed h" "route_by_mode n E t h s = Return (x, s')"
  shows "routed (md s) (md s')"
  using assms(3) matchLocked_routed[OF assms(1,2)] by (auto simp: route_by_mode_def split: TunnelMode.splits)

lemma resolveMetadata_routed:
  assumes "made_rematches (t_heap t)" "resolveMetadata n E W t st = Return (((proxy, rule), err), st')"
  shows "\<exists>m. routed (md st) m \<and> preserveFakeIPDomain (t_heap t) m proxy = Return (md st')"
proof (cases "SpecialProxy (md st) = ''''")
  case True
  obtain h s2 s3 m where s:
    "find_process_first (t_findProcessMode t) (route_helper n E W t (md (start_state W st))) (start_state W st) = Return (h, s2)"
    "route_by_mode n E t h s2 = Return ((proxy, rule), s3)"
    "preserveFakeIPDomain (t_heap t) (md s3) proxy = Return m" "st' = s3\<lparr>md := m\<rparr>"
    by (rule resolveMetadata_steps[OF assms(2) True])
  have h: "helper_framed h" "routed (md (start_state W st)) (md s2)" using find_process_first_framed[OF s(1)] by auto
  have "routed (md st) (md s3)"
    by (rule routed_trans[OF start_state_routed routed_trans[OF h(2) route_by_mode_routed[OF assms(1) h(1) s(2)]]])
  thus ?thesis using s(3,4) by (intro exI[of _ "md s3"]) simp
next
  case False
  thus ?thesis using assms(2) by (intro exI[of _ "md st"]) (auto simp: resolveMetadata_def Let_def obind_eq_Return)
qed

lemma preserveFakeIPDomain_keeps:
  assumes "preserveFakeIPDomain heap m (Some p) = Return m'" "DNSMode m = DNSFakeIP" "Host m \<noteq> ''''" "IsValid (DstIP m')"
  shows "\<exists>leaf. leaf_loop heap m' p = Some leaf \<and> keepResolvedFakeIP (px_Type (heap leaf))"
  using assms by (cases "leaf_loop heap m p") (auto simp: preserveFakeIPDomain_def split: if_splits)

section \<open>The preview\<close>

lemma diagnose_helper_uncounted: "helper_uncounted (diagnose_helper t)"
  by (auto simp: helper_uncounted_def diagnose_helper_def diagnose_resolve_def)

lemma matchLocked_uncounted:
  assumes "helper_uncounted h" "Diagnostic h" "matchLocked n E t h st = Return (x, st')"
  shows "wrappers st' = wrappers st \<and> tick st' = tick st"
proof -
  let ?R = "\<lambda>s s'. wrappers s' = wrappers s \<and> tick s' = tick s"
  have "?R s s'" if "Match n E (t_conf t) h r s = Return (y, s')" for r s y s'
    using counters.rel_Match[OF assms(1) that] assms(2) by (simp add: keeps_counters_def)
  thus ?thesis
    by (intro rematch_loop_rel[where R = ?R, OF _ _ _ _ assms(3)[unfolded matchLocked_def]]) auto
qed

lemma DiagnoseRoute_uncounted:
  assumes "DiagnoseRoute n E t host port network knownIP st = Return (d, st')"
  shows "wrappers st' = wrappers st \<and> tick st' = tick st"
proof -
  let ?s = "st\<lparr>md := diagnose_metadata host port network knownIP, complete := True\<rparr>"
  obtain x where "route_by_mode n E t (diagnose_helper t) ?s = Return (x, st')"
    using assms by (auto simp: DiagnoseRoute_def Let_def obind_eq_Return)
  hence "wrappers st' = wrappers ?s \<and> tick st' = tick ?s"
    using matchLocked_uncounted[OF diagnose_helper_uncounted, of t n E t ?s x st']
    by (auto simp: route_by_mode_def diagnose_helper_def split: TunnelMode.splits)
  thus ?thesis by simp
qed

lemma show_rules_returns: "(\<And>r. r \<in> set rs \<Longrightarrow> returns (p r)) \<Longrightarrow> returns (show_rules p rs)"
  by (induction rs) (auto intro!: returns_obind)

lemma idx_get_single: "length xs = 1 \<Longrightarrow> \<exists>x. idx_get xs 0 = Return x \<and> x \<in> set xs"
  by (cases xs) (auto simp: idx_get_def)

lemma Payload_returns: "wf_rule r \<Longrightarrow> returns (Payload r)"
proof (induction r rule: Payload.induct)
  case (22 l)
  have IH: "returns (Payload r)" if "r \<in> set (logic_rules l)" for r using 22 that by auto
  show ?case
  proof (cases "logic_ruleType l = NOT_rt")
    case True
    then obtain r where r: "idx_get (logic_rules l) 0 = Return r" "r \<in> set (logic_rules l)"
      using 22(2) idx_get_single[of "logic_rules l"] by auto
    obtain s where "Payload r = Return s" using IH[OF r(2)] by (auto simp: returns_def)
    thus ?thesis using True r(1) by (simp add: Payload_Logic_def)
  next
    case False
    thus ?thesis using show_rules_returns[of "logic_rules l" Payload, OF IH]
      by (auto simp: Payload_Logic_def intro!: returns_obind split: RuleType.split)
  qed
qed (simp_all add: returns_def)

lemma rules_loop_rule:
  "rules_loop m t rs st = Return (Found p r, st') \<or> rules_loop m t rs st = Return (DoRematch p r, st') \<Longrightarrow> r \<in> set rs"
proof (induction rs arbitrary: st)
  case (Cons x rs)
  show ?case using Cons.prems Cons.IH
    by (auto simp: obind_eq_Return simp del: unwrap_walk_simps split: if_splits option.splits)
qed simp

lemma matchLocked_rule:
  assumes "matchLocked n E t h st = Return ((proxy, Some r), st')"
  shows "\<exists>m. r \<in> set (getRules t m)"
proof -
  have "rematch_loop k m t chain s = Return ((proxy, Some r), s') \<Longrightarrow> \<exists>m. r \<in> set (getRules t m)" for k m chain s s'
  proof (induction k arbitrary: chain s)
    case (Suc k)
    then obtain d s1 where d: "rules_loop m t (getRules t (md s)) s = Return (d, s1)" by (auto simp: obind_eq_Return)
    show ?case
    proof (cases d)
      case (Found p x)
      thus ?thesis using Suc.prems d rules_loop_rule[of m t "getRules t (md s)" s p x s1] by auto
    next
      case (DoRematch p x)
      hence x: "x \<in> set (getRules t (md s))" using d rules_loop_rule[of m t "getRules t (md s)" s p x s1] by auto
      show ?thesis
        using Suc.prems d DoRematch x by (auto split: if_splits prod.splits dest: Suc.IH)
    qed (use Suc.prems d in auto)
  qed simp
  thus ?thesis using assms unfolding matchLocked_def by blast
qed

lemma diagnose_helper_ok: "ranked_groups (t_heap t) gk \<Longrightarrow> helper_ok (diagnose_helper t)"
  using pass_callback_returns[of t gk] by (auto simp: helper_ok_def diagnose_helper_def diagnose_resolve_def)

lemma DiagnoseRoute_returns:
  assumes "accepted_tunnel E k t" "acyclic_tunnel d t" "fuel_covers n k d t"
  shows "returns (DiagnoseRoute n E t host port network knownIP st)"
proof -
  obtain rk gk where a: "acyclic_sets (t_conf t) rk" "\<And>q. rk q < n" "ranked_groups (t_heap t) gk"
    "\<And>m r. r \<in> set (getRules t m) \<Longrightarrow> wf_rule r" "finite (rematch_names t)" "card (rematch_names t) < n"
    "\<And>h m r s. helper_ok h \<Longrightarrow> r \<in> set (getRules t m) \<Longrightarrow> returns (Match n E (t_conf t) h r s)"
    by (rule accepted_facts[OF assms]) (rule that)
  have "returns (matchLocked n E t (diagnose_helper t) s)" for s
    by (rule matchLocked_returns[OF a(3,5,6)], rule a(7)[OF diagnose_helper_ok[OF a(3)]], assumption)
  hence route: "returns (route_by_mode n E t (diagnose_helper t) s)" for s
    by (auto simp: route_by_mode_def split: TunnelMode.split)
  have payload: "returns (Payload r)" if "route_by_mode n E t h s = Return ((proxy, Some r), s')" for h s proxy r s'
    using that matchLocked_rule[of n E t h s proxy r s'] a(4)
    by (auto simp: route_by_mode_def intro!: Payload_returns split: TunnelMode.splits)
  let ?s = "st\<lparr>md := diagnose_metadata host port network knownIP, complete := True\<rparr>"
  obtain proxy rule s' where r: "route_by_mode n E t (diagnose_helper t) ?s = Return ((proxy, rule), s')"
    using route[of ?s] by (auto simp: returns_def)
  obtain f where leaf: "\<And>p. leaf_loop (t_heap t) (md s') p = Some (f p)" using leaf_loop_returns[OF a(3)] by metis
  show ?thesis
  proof (cases rule)
    case None
    thus ?thesis using leaf by (cases proxy) (auto simp: DiagnoseRoute_def r Let_def returns_def)
  next
    case (Some x)
    obtain pl where "Payload x = Return pl" using payload[OF r[unfolded Some]] by (auto simp: returns_def)
    thus ?thesis using Some leaf by (cases proxy) (auto simp: DiagnoseRoute_def r Let_def returns_def)
  qed
qed

section \<open>An example tunnel\<close>

lemma example_accepted:
  obtains rules subs where "accepted_tunnel bare_env 2 (example_tunnel rules subs)"
proof -
  obtain subs where s: "parseSubRules bare_env example_subs {''DIRECT''} {''ads''} = Return (Inr subs)"
    by (rule succeedsE[OF example_config(1)])
  obtain rules where r: "parseRules bare_env example_rules {''DIRECT''} {''ads''} (set (map fst example_subs)) ''rules'' = Return (Inr rules)"
    by (rule succeedsE[OF example_config(2)])
  have "accepted_tunnel bare_env 2 (example_tunnel rules subs)"
    unfolding accepted_tunnel_def
  proof (intro exI conjI)
    show "parseSubRules bare_env example_subs {''DIRECT''} {''ads''} = Return (Inr (subRules (t_conf (example_tunnel rules subs))))"
      by (simp add: s example_tunnel_def)
    show "parseRules bare_env example_rules {''DIRECT''} {''ads''} (set (map fst example_subs)) ''rules'' =
        Return (Inr (t_rules (example_tunnel rules subs)))" using r by (simp add: example_tunnel_def)
    show "loaded_sets bare_env (RuleProviders (t_conf (example_tunnel rules subs)))"
      using example_sets_loaded by (simp add: example_tunnel_def)
    show "length example_subs = 2" by (simp add: example_subs_def)
  qed
  thus ?thesis by (rule that)
qed

lemma example_acyclic: "acyclic_tunnel 1 (example_tunnel rules subs)" "fuel_covers 4 2 1 (example_tunnel rules subs)"
proof -
  have "ranked_groups (t_heap (example_tunnel rules subs)) (\<lambda>p. if p = 1 then 1 else 0)"
    by (auto simp: ranked_groups_def example_tunnel_def example_heap_def)
  moreover have "ranked_sets (RuleProviders (t_conf (example_tunnel rules subs))) (\<lambda>_. 0)"
    using example_sets_loaded by (simp add: example_tunnel_def)
  ultimately show "acyclic_tunnel 1 (example_tunnel rules subs)" unfolding acyclic_tunnel_def by (metis zero_less_one)
  have names: "rematch_names (example_tunnel rules subs) \<subseteq> {''again''}"
    by (auto simp: rematch_names_def example_tunnel_def example_heap_def split: if_splits)
  show "fuel_covers 4 2 1 (example_tunnel rules subs)"
    using card_mono[OF _ names] finite_subset[OF names] by (simp add: fuel_covers_def)
qed

lemma example_lookup_returns: "lookup_returns example_world"
  by (auto simp: lookup_returns_def example_world_def example_lookup_def intro!: returns_obind)

lemmas example_routed = example_acyclic example_lookup_returns

lemma example_rematches: "made_rematches (t_heap (example_tunnel rules subs))"
  by (auto simp: made_rematches_def example_tunnel_def example_heap_def)

lemma fake_state_route:
  "resolveMetadata (Suc 0) bare_env example_world (example_tunnel [] Map.empty) fake_state =
   Return (((Some 0, None), None), fake_state\<lparr>resolved := False, attemptProcessLookup := True\<rparr>)"
proof -
  have leaf: "leaf_loop example_heap m 0 = Some 0" for m by (subst leaf_loop.simps) (simp add: example_heap_def)
  show ?thesis
    by (simp add: resolveMetadata_def Let_def start_state_def example_world_def example_tunnel_def find_process_first_def
        route_by_mode_def matchLocked_def getRules_def fake_state_def bare_state_def zero_metadata_def
        preserveFakeIPDomain_def leaf keepResolvedFakeIP_def) (simp add: example_heap_def)
qed

section \<open>Retrying\<close>

lemma errors_of_single: "errors_of ft i (Suc i) = (case snd (ft i) of None \<Rightarrow> [] | Some e \<Rightarrow> [e])"
  by (simp add: errors_of_def)

lemma errors_of_Cons: "i < k \<Longrightarrow> errors_of ft i k = (case snd (ft i) of None \<Rightarrow> [] | Some e \<Rightarrow> [e]) @ errors_of ft (Suc i) k"
  by (simp add: errors_of_def upt_rec)

lemma retry_loop_step:
  "retry_loop (Suc n) i ft wait t rep =
     (if goes_on ft wait i \<and> 0 < n then retry_loop n (Suc i) ft wait (ft i) (rep @ errors_of ft i (Suc i))
      else (ft i, Suc i, rep @ errors_of ft i (Suc i)))"
  by (cases "ft i"; cases "snd (ft i)"; cases n) (simp_all add: goes_on_def errors_of_single)

lemma retry_loop_spec:
  "retry_loop (Suc n) i ft wait t rep = (ans, k, reported) \<Longrightarrow>
   i < k \<and> k \<le> i + Suc n \<and> ans = ft (k - 1) \<and> (\<forall>j. i \<le> j \<and> j < k - 1 \<longrightarrow> goes_on ft wait j) \<and>
   (k = i + Suc n \<or> \<not> goes_on ft wait (k - 1)) \<and> reported = rep @ errors_of ft i k"
proof (induction n arbitrary: i t rep)
  case 0
  thus ?case by (auto simp: retry_loop_step simp del: retry_loop.simps)
next
  case (Suc n)
  show ?case
  proof (cases "goes_on ft wait i")
    case True
    hence "retry_loop (Suc n) (Suc i) ft wait (ft i) (rep @ errors_of ft i (Suc i)) = (ans, k, reported)"
      using Suc.prems by (simp add: retry_loop_step[of "Suc n" i] del: retry_loop.simps)
    note IH = Suc.IH[OF this]
    have all: "goes_on ft wait j" if "i \<le> j \<and> j < k - 1" for j
      using that IH True by (cases "j = i") auto
    have "reported = rep @ errors_of ft i k"
      using IH errors_of_Cons[of i k ft] by (simp add: errors_of_single)
    thus ?thesis using IH all by (intro conjI) auto
  next
    case False
    thus ?thesis using Suc.prems by (auto simp: retry_loop_step[of "Suc n" i] simp del: retry_loop.simps)
  qed
qed

section \<open>Properties\<close>

text \<open>
  C12.  The walk that decides whether a ban may start and the walk that finds the reject adapter of a
  connection agree: a ban is active exactly when the adapter found is \<open>REJECT\<close> and not
  \<open>REJECT-DROP\<close>, and each walk ends exactly when the other does.
\<close>

theorem reject_walks_agree:
  "rejectBanProxyActive heap proxy m =
   map_option (\<lambda>r. case r of Some (p, chain) \<Rightarrow> px_Type (heap p) = Reject_at | None \<Rightarrow> False) (rejectAdapter heap proxy m)"
proof (cases "rejectAdapter heap proxy m")
  case None
  let ?b = "\<lambda>p. if px_Type (heap p) = Reject_at then Some True else if px_Type (heap p) = RejectDrop_at then Some False else None"
  have "\<exists>r'. rejectAdapter heap proxy m = Some r'" if "unwrap_walk heap m ?b proxy = Some r" for r
    unfolding rejectAdapter_def by (rule walk_reject_loop[OF that]) simp
  hence "unwrap_walk heap m ?b proxy = None" using None by (cases "unwrap_walk heap m ?b proxy") auto
  thus ?thesis using None by (simp add: rejectBanProxyActive_def)
next
  case (Some r)
  show ?thesis
    using reject_loop_walk[OF Some[unfolded rejectAdapter_def]] Some
    by (auto simp: rejectBanProxyActive_def split: option.split)
qed

text \<open>
  C1.  The routing decision returns for every connection, when the program has accepted the rules, the
  sub-rules and the rule sets, when in addition neither rule sets nor groups refer to each other in a
  circle, which acceptance does not guarantee, and when the lookup of a process returns: no rule
  panics, the walks through groups end, and rematching ends because no rematch name is used twice.
  The fuel has to exceed the number of lists of sub-rules plus the depth of the rule sets, and the
  number of rematch names.
\<close>

theorem routing_returns:
  assumes "accepted_tunnel E k t" "acyclic_tunnel d t" "fuel_covers n k d t" "lookup_returns W"
  shows "\<exists>proxy rule err st'. resolveMetadata n E W t st = Return (((proxy, rule), err), st')"
  using resolveMetadata_returns[OF assms, of st] by (auto simp: returns_def)

theorem routing_returns_witness:
  "\<exists>rules subs proxy rule err st'. accepted_tunnel bare_env 2 (example_tunnel rules subs) \<and>
     resolveMetadata 4 bare_env example_world (example_tunnel rules subs) bare_state = Return (((proxy, rule), err), st')"
  using example_accepted routing_returns[OF _ example_routed] by metis

text \<open>
  C6.  Routing changes only what it is meant to change of a connection: the resolved address, the
  cached regions and networks, the process, and what a rematch sets.  Source, ports, host, inbound,
  mode and special proxy stay as they are, although rule sets on the source swap both ends meanwhile.
\<close>

theorem routing_keeps_connection:
  assumes "made_rematches (t_heap t)" "resolveMetadata n E W t st = Return (((proxy, rule), err), st')"
  shows "md st' = (md st)\<lparr>DstIP := DstIP (md st'), SrcGeoIP := SrcGeoIP (md st'), DstGeoIP := DstGeoIP (md st'),
    SrcIPASN := SrcIPASN (md st'), DstIPASN := DstIPASN (md st'), Uid := Uid (md st'), Process := Process (md st'),
    ProcessPath := ProcessPath (md st'), RematchName := RematchName (md st'), SpecialRules := SpecialRules (md st')\<rparr>"
  using resolveMetadata_routed[OF assms] preserveFakeIPDomain_routed routed_trans
  unfolding routed_def [symmetric] by blast

theorem routing_keeps_connection_witness:
  "\<exists>rules subs proxy rule err st'.
     resolveMetadata 4 bare_env example_world (example_tunnel rules subs) bare_state = Return (((proxy, rule), err), st') \<and>
     Host (md st') = Host (md bare_state) \<and> SrcIP (md st') = SrcIP (md bare_state)"
proof -
  obtain rules subs where "accepted_tunnel bare_env 2 (example_tunnel rules subs)" by (rule example_accepted)
  then obtain proxy rule err st' where
    r: "resolveMetadata 4 bare_env example_world (example_tunnel rules subs) bare_state = Return (((proxy, rule), err), st')"
    using resolveMetadata_returns[OF _ example_routed, of bare_env rules subs bare_state] by (auto simp: returns_def)
  have "Host (md st') = Host (md bare_state)" "SrcIP (md st') = SrcIP (md bare_state)"
    by (subst routing_keeps_connection[OF example_rematches r], simp)+
  thus ?thesis using r by blast
qed

text \<open>
  C2.  A connection made to a fake address never takes a locally resolved address to a remote node:
  when routing leaves a valid destination address beside the domain, the leaf of the chosen proxy is a
  direct or reject outbound.
\<close>

theorem fake_ip_stays_local:
  assumes "made_rematches (t_heap t)" "resolveMetadata n E W t st = Return (((Some p, rule), err), st')"
    and "DNSMode (md st) = DNSFakeIP" "Host (md st) \<noteq> ''''" "IsValid (DstIP (md st'))"
  shows "\<exists>leaf. leaf_loop (t_heap t) (md st') p = Some leaf \<and> px_Type (t_heap t leaf) \<in> {Direct_at, Reject_at, RejectDrop_at}"
proof -
  obtain m where m: "routed (md st) m" "preserveFakeIPDomain (t_heap t) m (Some p) = Return (md st')"
    using resolveMetadata_routed[OF assms(1,2)] by blast
  show ?thesis
    using preserveFakeIPDomain_keeps[OF m(2)] routed_kept[OF m(1)] assms(3-5) by (simp add: keepResolvedFakeIP_def)
qed

theorem fake_ip_stays_local_witness:
  "IsValid (DstIP (md fake_state)) \<and>
   (\<exists>leaf. leaf_loop example_heap (md fake_state) 0 = Some leaf \<and> px_Type (example_heap leaf) \<in> {Direct_at, Reject_at, RejectDrop_at})"
  using fake_ip_stays_local[OF example_rematches fake_state_route]
  by (simp add: fake_state_def example_tunnel_def)

text \<open>
  C8.  The preview of a route counts nothing: whenever it returns, the hit and miss counters of all
  rules, their times and the clock are as before, as the comment on \<open>Diagnostic\<close> promises.  And it
  returns when the program has accepted the configuration and neither rule sets nor groups refer to
  each other in a circle.
\<close>

theorem preview_counts_nothing:
  "(\<forall>r st'. DiagnoseRoute n E t host port network knownIP st = Return (r, st') \<longrightarrow>
      wrappers st' = wrappers st \<and> tick st' = tick st) \<and>
   (accepted_tunnel E k t \<and> acyclic_tunnel d t \<and> fuel_covers n k d t \<longrightarrow>
      (\<exists>r st'. DiagnoseRoute n E t host port network knownIP st = Return (r, st')))"
proof (intro conjI impI allI)
  fix r st' assume "DiagnoseRoute n E t host port network knownIP st = Return (r, st')"
  thus "wrappers st' = wrappers st" "tick st' = tick st" using DiagnoseRoute_uncounted by blast+
next
  assume "accepted_tunnel E k t \<and> acyclic_tunnel d t \<and> fuel_covers n k d t"
  thus "\<exists>r st'. DiagnoseRoute n E t host port network knownIP st = Return (r, st')"
    using DiagnoseRoute_returns[of E k t d n host port network knownIP st] by (auto simp: returns_def)
qed

theorem preview_counts_nothing_witness:
  "\<exists>rules subs r st'. DiagnoseRoute 4 bare_env (example_tunnel rules subs) ''example.com'' 443 TCP [] bare_state = Return (r, st') \<and>
     wrappers st' = wrappers bare_state"
  using example_accepted example_acyclic preview_counts_nothing by metis

text \<open>
  C14.  Preparing the metadata of a connection brings it into a normal form, and doing it twice changes
  nothing more: the host is never the text of an address, and the destination is never an IPv4 address
  in IPv6 form.
\<close>

theorem fix_metadata_normal:
  "fixMetadata (fixMetadata m) = fixMetadata m \<and> ParseAddr (Host (fixMetadata m)) = None \<and> \<not> Is4In6 (DstIP (fixMetadata m))"
proof -
  have u: "Unmap (Unmap a) = Unmap a" "\<not> Is4In6 (Unmap a)" for a by (cases a; simp)+
  have "ParseAddr '''' = None" by (simp add: ParseAddr_def)
  thus ?thesis by (simp add: fixMetadata_def u Let_def split: option.split)
qed

text \<open>
  C13.  Dialing is tried at least once and at most ten times, and it goes on exactly as long as the
  attempts fail with errors that may go away and the pauses are not cut short.  The answer is that of
  the last attempt, and every error is reported, in order.
\<close>

theorem retry_bounded:
  assumes "retry ft wait = (ans, k, reported)"
  shows "0 < k \<and> k \<le> 10 \<and> ans = ft (k - 1) \<and> (\<forall>i<k - 1. goes_on ft wait i) \<and>
    (k = 10 \<or> \<not> goes_on ft wait (k - 1)) \<and> reported = errors_of ft 0 k"
proof -
  have "retry_loop (Suc 9) 0 ft wait (None, None) [] = (ans, k, reported)" using assms by (simp only: retry_def) simp
  from retry_loop_spec[OF this] show ?thesis by simp
qed

theorem retry_bounded_witness:
  "retry (\<lambda>i::nat. (Some i, None)) (\<lambda>i. True) = ((Some 0, None), 1, []) \<and> (1::nat) \<le> 10"
proof -
  let ?ft = "\<lambda>i::nat. (Some i, None :: sentinel set option)"
  have "retry_loop (Suc 9) 0 ?ft (\<lambda>i. True) (None, None) [] = ((Some 0, None), 1, [])" by (subst retry_loop.simps(2)) simp
  hence r: "retry ?ft (\<lambda>i. True) = ((Some 0, None), 1, [])" by (simp only: retry_def) simp
  show ?thesis using retry_bounded[OF r] r by simp
qed

end
