(* ===== verification/Metadata_Proofs.thy ===== *)
theory Metadata_Proofs
  imports Metadata Ranges_Proofs
begin

text \<open>
  Facts about connection metadata: host and port survive being joined and split, remote addresses
  and the texts of the enumerations survive being printed and parsed.
\<close>

section \<open>Host and port\<close>

lemma index_of_None: "index_of c s = None \<longleftrightarrow> c \<notin> set s"
  by (induction s) auto

lemma index_of_append: "c \<notin> set s \<Longrightarrow> index_of c (s @ c # t) = Some (length s)"
  by (induction s) auto

lemma last_index_append: "c \<notin> set t \<Longrightarrow> last_index c (s @ c # t) = Some (length s)"
  by (simp add: last_index_def index_of_append)

lemma split_join_hostport:
  assumes "CHR ''['' \<notin> set host" "CHR '']'' \<notin> set host"
    and "CHR '':'' \<notin> set port" "CHR ''['' \<notin> set port" "CHR '']'' \<notin> set port"
  shows "SplitHostPort (JoinHostPort host port) = Inr (host, port)"
proof (cases "CHR '':'' \<in> set host")
  case True
  have l: "last_index (CHR '':'') (''['' @ host @ '']:'' @ port) = Some (length host + 2)"
    using last_index_append[OF assms(3), of "''['' @ host @ '']''"] by simp
  have i: "index_of (CHR '']'') (''['' @ host @ '']:'' @ port) = Some (length host + 1)"
    using index_of_append[of "CHR '']''" "''['' @ host" "'':'' @ port"] assms(2) by simp
  show ?thesis using True l i assms by (simp add: JoinHostPort_def SplitHostPort_def Let_def)
next
  case False
  have l: "last_index (CHR '':'') (host @ '':'' @ port) = Some (length host)"
    using last_index_append[OF assms(3), of host] by simp
  have "hd (host @ '':'' @ port) \<noteq> CHR ''[''" using assms(1) by (cases host) auto
  thus ?thesis using False l assms by (simp add: JoinHostPort_def SplitHostPort_def Let_def)
qed

lemma show_nat_plain: "CHR '':'' \<notin> set (show_nat n)" "CHR ''['' \<notin> set (show_nat n)" "CHR '']'' \<notin> set (show_nat n)"
  "CHR ''.'' \<notin> set (show_nat n)" "CHR ''%'' \<notin> set (show_nat n)"
proof -
  have "digit d \<notin> set '':[].%''" if "d < 10" for d
  proof -
    have "d \<in> {0, 1, 2, 3, 4, 5, 6, 7, 8, 9}" using that by auto
    thus ?thesis by (auto simp: digit_def char_of_def)
  qed
  hence "set (show_nat n) \<inter> set '':[].%'' = {}" using show_nat_digits by blast
  thus "CHR '':'' \<notin> set (show_nat n)" "CHR ''['' \<notin> set (show_nat n)" "CHR '']'' \<notin> set (show_nat n)"
    "CHR ''.'' \<notin> set (show_nat n)" "CHR ''%'' \<notin> set (show_nat n)" by auto
qed

section \<open>IPv4 addresses\<close>

lemma four_bytes: "word_bytes 4 (w :: 32 word) = [ucast (drop_bit 24 w), ucast (drop_bit 16 w), ucast (drop_bit 8 w), ucast w]"
  by (simp add: word_bytes_def upt_rec)

lemma unat_byte: "unat (ucast (drop_bit k w) :: 8 word) = unat (w :: 32 word) div 2 ^ k mod 256"
proof -
  have "unat w mod 4294967296 = unat w" using unsigned_less[of w, where 'a = nat] by simp
  thus ?thesis
    by (simp only: unsigned_ucast_eq unsigned_drop_bit_eq, simp only: take_bit_eq_mod drop_bit_eq_div) simp
qed

lemma four_digits:
  fixes n :: nat
  assumes "n < 4294967296"
  shows "((n div 16777216 mod 256 * 256 + n div 65536 mod 256) * 256 + n div 256 mod 256) * 256 + n mod 256 = n"
proof -
  have d: "n div 65536 = n div 256 div 256" "n div 16777216 = n div 256 div 256 div 256" by (simp_all add: div_mult2_eq [symmetric])
  have "n div 256 div 256 div 256 < 256" using assms by (simp add: div_mult2_eq [symmetric] less_mult_imp_div_less)
  thus ?thesis unfolding d by (simp add: mod_less)
qed

lemma word_of_bytes_4: "word_of_bytes (map unat (word_bytes 4 w)) = (w :: 32 word)"
proof -
  have "unat (ucast w :: 8 word) = unat w mod 256" using unat_byte[of 0 w] by simp
  moreover have "unat w < 4294967296" using unsigned_less[of w] by simp
  ultimately show ?thesis using four_digits[of "unat w"] by (simp add: word_of_bytes_def four_bytes unat_byte)
qed

lemma show_nat_lead: "0 < n \<Longrightarrow> hd (show_nat n) \<noteq> CHR ''0''"
proof (induction n rule: show_nat.induct)
  case (1 n)
  show ?case
  proof (cases "n < 10")
    case True
    hence "n \<in> {1, 2, 3, 4, 5, 6, 7, 8, 9}" using 1(2) by auto
    thus ?thesis using True by (subst show_nat.simps) (auto simp: digit_def char_of_def)
  next
    case False
    thus ?thesis using 1 by (subst show_nat.simps) (simp add: hd_append)
  qed
qed

lemma parse_octet_show:
  assumes "n < 256"
  shows "parse_octet (show_nat n) = Some n"
proof -
  have "length (show_nat n) = 1" if "n = 0" using that by (subst show_nat.simps) simp
  thus ?thesis using assms show_nat_lead[of n] by (cases "n = 0") (simp_all add: parse_octet_def digits_val_show)
qed

lemma ParseAddr_from_dots:
  "CHR '':'' \<notin> set s \<Longrightarrow> CHR ''%'' \<notin> set s \<Longrightarrow> CHR ''.'' \<in> set s \<Longrightarrow>
   ParseAddr_from t s = map_option (\<lambda>bs. IPv4 (word_of_bytes bs)) (parseIPv4Fields t)"
  by (induction s) auto

lemma parseIPv4Fields_show: "parseIPv4Fields (show_ipv4 w) = Some (map unat (word_bytes 4 w))"
proof -
  have "split_on (CHR ''.'') (show_ipv4 w) = map (\<lambda>b. show_nat (unat b)) (word_bytes 4 w)"
    unfolding show_ipv4_def by (rule split_join) (auto simp: four_bytes show_nat_plain)
  moreover have "parse_octet (show_nat (unat (b :: 8 word))) = Some (unat b)" for b
    using parse_octet_show[of "unat b"] unsigned_less[of b] by simp
  ultimately show ?thesis by (simp add: parseIPv4Fields_def four_bytes Let_def)
qed

lemma show_ipv4_chars: "CHR ''.'' \<in> set (show_ipv4 w)" "CHR '':'' \<notin> set (show_ipv4 w)" "CHR ''%'' \<notin> set (show_ipv4 w)"
  "CHR ''['' \<notin> set (show_ipv4 w)" "CHR '']'' \<notin> set (show_ipv4 w)"
  by (auto simp: show_ipv4_def four_bytes show_nat_plain)

lemma ParseAddr_show_ipv4: "ParseAddr (show_ipv4 w) = Some (IPv4 w)"
  by (simp add: ParseAddr_def ParseAddr_from_dots show_ipv4_chars parseIPv4Fields_show word_of_bytes_4)

section \<open>Properties\<close>

text \<open>
  C23.  The remote address of a connection, printed and parsed again, gives the same destination: the
  host when there is one, the IPv4 address otherwise, and the port.
\<close>

theorem remote_address_round_trip:
  assumes "if Host m = '''' then Is4 (DstIP m)
    else ParseAddr (Host m) = None \<and> CHR ''['' \<notin> set (Host m) \<and> CHR '']'' \<notin> set (Host m)"
  shows "SetRemoteAddress (RemoteAddress m) m0 =
    (None, m0\<lparr>Host := Host m, DstIP := (if Host m = '''' then DstIP m else NoAddr), DstPort := DstPort m\<rparr>)"
proof -
  have port: "ParseUint 16 (show_nat (unat (DstPort m))) = Some (unat (DstPort m))"
    by (rule ParseUint_show) (use unsigned_less[of "DstPort m"] in simp)
  show ?thesis
  proof (cases "Host m = ''''")
    case True
    then obtain w where w: "DstIP m = IPv4 w" using assms by (cases "DstIP m") auto
    have "SplitHostPort (RemoteAddress m) = Inr (show_ipv4 w, show_nat (unat (DstPort m)))"
      using split_join_hostport[OF show_ipv4_chars(4,5) show_nat_plain(1-3), of w "unat (DstPort m)"] True w
      by (simp add: RemoteAddress_def String_Metadata_def)
    thus ?thesis using True w port by (simp add: SetRemoteAddress_def ParseAddr_show_ipv4 Let_def)
  next
    case False
    hence "SplitHostPort (RemoteAddress m) = Inr (Host m, show_nat (unat (DstPort m)))"
      using split_join_hostport[OF _ _ show_nat_plain(1-3), of "Host m" "unat (DstPort m)"] assms
      by (simp add: RemoteAddress_def String_Metadata_def)
    thus ?thesis using False assms port by (simp add: SetRemoteAddress_def Let_def)
  qed
qed

theorem remote_address_round_trip_witness:
  "SetRemoteAddress ''example.com:443'' zero_metadata = (None, zero_metadata\<lparr>Host := ''example.com'', DstPort := 443\<rparr>)"
proof -
  let ?m = "zero_metadata\<lparr>Host := ''example.com'', DstPort := 443\<rparr>"
  have "RemoteAddress ?m = ''example.com:443''" "ParseAddr ''example.com'' = None" by code_simp+
  thus ?thesis using remote_address_round_trip[of ?m zero_metadata] by (simp add: zero_metadata_def)
qed

text \<open>
  C24.  The texts of the modes are read back as the mode they were printed from.  The one exception is
  the DNS mode for hosts, whose text is refused: the table of texts does not list it.
\<close>

theorem mode_texts_round_trip:
  "UnmarshalText_DNSPrefer (String_DNSPrefer p) = p \<and> UnmarshalText_FilterMode (String_FilterMode f) = Inr f \<and>
   UnmarshalText_DNSMode (String_DNSMode d) = (if d = DNSHosts then Inl ''invalid mode'' else Inr d)"
proof (intro conjI)
  have "UnmarshalText_DNSPrefer (String_DNSPrefer DualStack) = DualStack" "UnmarshalText_DNSPrefer (String_DNSPrefer IPv4Only) = IPv4Only"
    "UnmarshalText_DNSPrefer (String_DNSPrefer IPv6Only) = IPv6Only" "UnmarshalText_DNSPrefer (String_DNSPrefer IPv4Prefer) = IPv4Prefer"
    "UnmarshalText_DNSPrefer (String_DNSPrefer IPv6Prefer) = IPv6Prefer" by code_simp+
  thus "UnmarshalText_DNSPrefer (String_DNSPrefer p) = p" by (cases p) (simp_all only:)
  have "UnmarshalText_FilterMode (String_FilterMode FilterBlackList) = Inr FilterBlackList"
    "UnmarshalText_FilterMode (String_FilterMode FilterWhiteList) = Inr FilterWhiteList"
    "UnmarshalText_FilterMode (String_FilterMode FilterRule) = Inr FilterRule" by code_simp+
  thus "UnmarshalText_FilterMode (String_FilterMode f) = Inr f" by (cases f) (simp_all only:)
  have "UnmarshalText_DNSMode (String_DNSMode DNSNormal) = Inr DNSNormal" "UnmarshalText_DNSMode (String_DNSMode DNSFakeIP) = Inr DNSFakeIP"
    "UnmarshalText_DNSMode (String_DNSMode DNSMapping) = Inr DNSMapping" "UnmarshalText_DNSMode (String_DNSMode DNSHosts) = Inl ''invalid mode''"
    by code_simp+
  thus "UnmarshalText_DNSMode (String_DNSMode d) = (if d = DNSHosts then Inl ''invalid mode'' else Inr d)"
    by (cases d) (simp_all only: DNSMode.distinct if_False if_True refl)
qed

end
