(* ===== verification/TunnelDNS_Proofs.thy ===== *)
theory TunnelDNS_Proofs
  imports Tunnel_Proofs Metadata_Proofs
begin

text \<open>
  The users of the routing decision: the target that selects a DNS node, the nodes that are never
  asked, and the registry of capabilities against the history of its calls.
\<close>

section \<open>The history of a registry\<close>

datatype reg_op = OpSupported string | OpUnsupported string | OpAsk string | OpReset

text \<open>One call at a time of the clock; a question may read the clock once more, a little later.\<close>

fun reg_step :: "(reg_op \<times> int) \<times> int \<Rightarrow> Registry \<Rightarrow> Registry" where
  "reg_step ((OpSupported node, now), _) r = MarkSupported node now r"
| "reg_step ((OpUnsupported node, now), _) r = MarkUnsupported node now r"
| "reg_step ((OpAsk node, now), later) r = snd (Supported node now later r)"
| "reg_step ((OpReset, _), _) r = Reset_Registry r"

definition reg_run :: "((reg_op \<times> int) \<times> int) list \<Rightarrow> Registry \<Rightarrow> Registry" where
  "reg_run ops r = foldl (\<lambda>r op. reg_step op r) r ops"

text \<open>When the node was last found not to answer, if nothing has changed that since.\<close>

fun verdict_step :: "string \<Rightarrow> int option \<Rightarrow> (reg_op \<times> int) \<times> int \<Rightarrow> int option" where
  "verdict_step node v ((OpSupported x, now), _) = (if x = node then None else v)"
| "verdict_step node v ((OpUnsupported x, now), _) = (if x = node then Some now else v)"
| "verdict_step node v ((OpAsk x, now), _) = v"
| "verdict_step node v ((OpReset, _), _) = None"

definition verdict :: "string \<Rightarrow> ((reg_op \<times> int) \<times> int) list \<Rightarrow> int option" where
  "verdict node ops = foldl (verdict_step node) None ops"

text \<open>The clock does not run backwards.\<close>

fun ticking :: "int \<Rightarrow> ((reg_op \<times> int) \<times> int) list \<Rightarrow> bool" where
  "ticking t [] \<longleftrightarrow> True"
| "ticking t (((op, now), later) # ops) \<longleftrightarrow> t \<le> now \<and> now \<le> later \<and> ticking later ops"

fun last_tick :: "int \<Rightarrow> ((reg_op \<times> int) \<times> int) list \<Rightarrow> int" where
  "last_tick t [] = t"
| "last_tick t (((op, now), later) # ops) = last_tick later ops"

text \<open>What the registry holds of a node at a time, for the verdict.\<close>

fun node_agrees :: "int \<Rightarrow> int option \<Rightarrow> Capability option \<Rightarrow> bool" where
  "node_agrees t v None \<longleftrightarrow> v = None"
| "node_agrees t None (Some e) \<longleftrightarrow> cap_State e = ''supported''"
| "node_agrees t (Some s) (Some e) \<longleftrightarrow>
     (cap_State e = ''unsupported'' \<and> cap_ExpiresAt e = s + UnsupportedTTL) \<or>
     (cap_State e = ''expired'' \<and> s + UnsupportedTTL \<le> t)"

definition reg_agrees :: "int \<Rightarrow> (string \<Rightarrow> int option) \<Rightarrow> Registry \<Rightarrow> bool" where
  "reg_agrees t v r \<longleftrightarrow> (\<forall>node. node \<noteq> '''' \<longrightarrow> node_agrees t (v node) (reg_nodes r node))"

text \<open>A tunnel that sends everything to the group with the remote node.\<close>

definition global_tunnel :: "unit tunnel" where
  "global_tunnel = (example_tunnel [] Map.empty)\<lparr>t_mode := Global\<rparr>"

lemma node_agrees_later: "node_agrees t v e \<Longrightarrow> t \<le> t' \<Longrightarrow> node_agrees t' v e"
  by (cases v; cases e) auto

lemma reg_agrees_later: "reg_agrees t v r \<Longrightarrow> t \<le> t' \<Longrightarrow> reg_agrees t' v r"
  unfolding reg_agrees_def using node_agrees_later by blast

lemma reg_agrees_node: "reg_agrees t v r \<Longrightarrow> node \<noteq> '''' \<Longrightarrow> node_agrees t (v node) (reg_nodes r node)"
  by (simp add: reg_agrees_def)

lemma reg_agrees_upd:
  assumes "reg_agrees t v r" "t \<le> t'" "\<And>x. x \<noteq> node \<Longrightarrow> v' x = v x" "node_agrees t' (v' node) (Some e)"
  shows "reg_agrees t' v' (r\<lparr>reg_nodes := (reg_nodes r)(node \<mapsto> e)\<rparr>)"
  using assms node_agrees_later by (auto simp: reg_agrees_def)

lemma reg_agrees_answer:
  assumes "reg_agrees t v r" "t \<le> now" "now \<le> later" "node \<noteq> ''''"
  shows "fst (Supported node now later r) \<longleftrightarrow> (case v node of None \<Rightarrow> True | Some s \<Rightarrow> s + UnsupportedTTL \<le> now)"
  using reg_agrees_node[OF assms(1,4)] assms(2-4)
  by (cases "v node"; cases "reg_nodes r node")
     (auto simp: Supported_def Supported_read_def Supported_expire_def Let_def)

lemma Supported_cases:
  "snd (Supported node now later r) = r \<or>
   (\<exists>e. node \<noteq> '''' \<and> reg_nodes r node = Some e \<and> cap_State e = ''unsupported'' \<and> cap_ExpiresAt e \<le> later \<and>
        snd (Supported node now later r) = r\<lparr>reg_nodes := (reg_nodes r)(node \<mapsto> e\<lparr>cap_State := ''expired''\<rparr>)\<rparr>)"
  by (auto simp: Supported_def Supported_read_def Supported_expire_def Let_def split: option.splits if_splits)

lemma reg_agrees_ask:
  assumes "reg_agrees t v r" "t \<le> later"
  shows "reg_agrees later v (snd (Supported node now later r))"
  using Supported_cases[of node now later r]
proof (elim disjE exE conjE)
  fix e assume e: "node \<noteq> ''''" "reg_nodes r node = Some e" "cap_State e = ''unsupported''" "cap_ExpiresAt e \<le> later"
    "snd (Supported node now later r) = r\<lparr>reg_nodes := (reg_nodes r)(node \<mapsto> e\<lparr>cap_State := ''expired''\<rparr>)\<rparr>"
  have "node_agrees later (v node) (Some (e\<lparr>cap_State := ''expired''\<rparr>))"
    using reg_agrees_node[OF assms(1) e(1)] e(2-4) by (cases "v node") auto
  thus ?thesis unfolding e(5) by (intro reg_agrees_upd[OF assms]) auto
qed (use reg_agrees_later[OF assms] in simp)

lemma reg_agrees_step:
  assumes "reg_agrees t v r" "t \<le> now" "now \<le> later"
  shows "reg_agrees later (\<lambda>node. verdict_step node (v node) ((op, now), later)) (reg_step ((op, now), later) r)"
proof (cases op)
  case (OpSupported x)
  thus ?thesis using reg_agrees_later[OF assms(1), of later] reg_agrees_upd[OF assms(1), of later x] assms(2,3)
    by (cases "x = ''''") (auto simp: MarkSupported_def mark_def Let_def reg_agrees_def)
next
  case (OpUnsupported x)
  thus ?thesis using reg_agrees_later[OF assms(1), of later] reg_agrees_upd[OF assms(1), of later x] assms(2,3)
    by (cases "x = ''''") (auto simp: MarkUnsupported_def mark_def Let_def reg_agrees_def)
next
  case (OpAsk x)
  thus ?thesis using reg_agrees_ask[OF assms(1), of later x now] assms(2,3) by simp
next
  case OpReset
  thus ?thesis by (simp add: reg_agrees_def Reset_Registry_def)
qed

lemma reg_agrees_run:
  "reg_agrees t v r \<Longrightarrow> ticking t ops \<Longrightarrow>
   reg_agrees (last_tick t ops) (\<lambda>node. foldl (verdict_step node) (v node) ops) (reg_run ops r)"
proof (induction t ops arbitrary: v r rule: ticking.induct)
  case (2 t op now later ops)
  hence t: "t \<le> now" "now \<le> later" "ticking later ops" by simp_all
  have "reg_agrees (last_tick later ops)
      (\<lambda>node. foldl (verdict_step node) (verdict_step node (v node) ((op, now), later)) ops) (reg_run ops (reg_step ((op, now), later) r))"
    by (rule 2(1)[OF reg_agrees_step[OF 2(2) t(1,2)] t(3)])
  thus ?case by (simp only: last_tick.simps foldl.simps reg_run_def)
qed (simp add: reg_run_def)

section \<open>The node of a question\<close>

lemma unusable_node:
  "px_Type node = Direct_at \<or> \<not> CanServeTunnelDNS (px_Type node) \<Longrightarrow> fst (tunnelDNSNodeUsable node now now' r) \<noteq> None"
  by (auto simp: tunnelDNSNodeUsable_def)

lemma prepare_node:
  assumes "prepareTunnelDNS n E W t queryDomain cacheOwner now now' reg st = Return (((name, Inr a), reg1), st')"
  shows "px_Type (t_heap t a) \<noteq> Direct_at \<and> CanServeTunnelDNS (px_Type (t_heap t a)) \<and> name = px_Name (t_heap t a)"
proof -
  obtain b where b: "pin_node (t_heap t) b cacheOwner now now' reg = ((name, Inr a), reg1)"
    using assms by (auto simp: prepareTunnelDNS_def obind_eq_Return split: sum.splits option.splits)
  show ?thesis
    using b unusable_node[of "t_heap t b" now now' reg]
    by (auto simp: pin_node_def Let_def split: option.splits if_splits)
qed

lemma tunnel_dns_target:
  "SetRemoteAddress TunnelDNSAddress inner_metadata = (None, inner_metadata\<lparr>Host := TunnelDNSHost, DstIP := NoAddr, DstPort := 53\<rparr>)"
proof -
  have "SplitHostPort TunnelDNSAddress = Inr (TunnelDNSHost, ''53'')" "ParseAddr TunnelDNSHost = None" "show_nat 53 = ''53''"
    by code_simp+
  thus ?thesis using ParseUint_show[of 53 16] by (simp add: SetRemoteAddress_def)
qed

lemma dial_target:
  "dial_tunnelDNS heap a cacheOwner now now' reg = (Inr (node, m), reg') \<Longrightarrow>
   node = a \<and> m = inner_metadata\<lparr>Host := TunnelDNSHost, DstIP := NoAddr, DstPort := 53\<rparr>"
  by (auto simp: dial_tunnelDNS_def split_beta tunnel_dns_target split: if_splits)

lemma global_prepare:
  "prepareTunnelDNS (Suc 0) bare_env example_world global_tunnel ''example.com'' False 0 0 NewRegistry bare_state =
   Return (((''node'', Inr 2), NewRegistry),
     bare_state\<lparr>md := inner_metadata\<lparr>Host := ''example.com'', DstPort := 443\<rparr>, resolved := False, attemptProcessLookup := False\<rparr>)"
proof -
  have "ContainsAny ''example.com'' ''[]'' = False" "ParseAddr ''example.com'' = None" by code_simp+
  hence target: "tunnelDNSMatchTarget ''example.com'' = Inr (inner_metadata\<lparr>Host := ''example.com'', DstPort := 443\<rparr>)"
    by (simp add: tunnelDNSMatchTarget_def)
  have "leaf_loop example_heap m 2 = Some 2" for m by (subst leaf_loop.simps) (simp add: example_heap_def)
  hence leaf: "leaf_loop example_heap m (Suc 0) = Some 2" for m by (subst leaf_loop.simps) (simp add: example_heap_def)
  have node: "px_Type (example_heap 2) = Trojan_at" "px_Name (example_heap 2) = ''node''" by (simp_all add: example_heap_def)
  show ?thesis
    by (simp add: prepareTunnelDNS_def pin_node_def target resolveMetadata_def Let_def start_state_def example_world_def global_tunnel_def
        example_tunnel_def find_process_first_def route_by_mode_def bare_state_def inner_metadata_def zero_metadata_def
        preserveFakeIPDomain_def leaf node tunnelDNSNodeUsable_def CanServeTunnelDNS_def Supported_def Supported_read_def
        NewRegistry_def NewRegistryFor_def)
qed

lemma global_dial:
  "dial_tunnelDNS (t_heap global_tunnel) 2 False 0 0 NewRegistry =
   (Inr (2, inner_metadata\<lparr>Host := TunnelDNSHost, DstIP := NoAddr, DstPort := 53\<rparr>), NewRegistry)"
proof -
  have node: "px_Type (example_heap 2) = Trojan_at" "px_Name (example_heap 2) = ''node''" by (simp_all add: example_heap_def)
  show ?thesis
    by (simp add: dial_tunnelDNS_def global_tunnel_def example_tunnel_def node tunnelDNSNodeUsable_def CanServeTunnelDNS_def
        Supported_def Supported_read_def NewRegistry_def NewRegistryFor_def tunnel_dns_target)
qed

section \<open>Properties\<close>

text \<open>
  C17.  The target that selects the node of a question is the one that the general parser of remote
  addresses gives for the domain and port 443: the shortcut for names without brackets makes no
  difference, for any text.
\<close>

theorem match_target_is_remote_address:
  "tunnelDNSMatchTarget queryDomain =
     (if queryDomain = '''' then Inl ''tunnel DNS needs a domain to select a node with''
      else case SetRemoteAddress (JoinHostPort queryDomain ''443'') (inner_metadata\<lparr>DstPort := 443\<rparr>) of
             (Some err, _) \<Rightarrow> Inl err
           | (None, m) \<Rightarrow> Inr m)"
proof (cases "ContainsAny queryDomain ''[]''")
  case False
  hence "SplitHostPort (JoinHostPort queryDomain ''443'') = Inr (queryDomain, ''443'')"
    by (intro split_join_hostport) (auto simp: ContainsAny_def)
  moreover have "show_nat 443 = ''443''" by code_simp
  ultimately show ?thesis using False ParseUint_show[of 443 16]
    by (simp add: tunnelDNSMatchTarget_def SetRemoteAddress_def Let_def inner_metadata_def zero_metadata_def split: option.split)
qed (simp add: tunnelDNSMatchTarget_def Let_def)

text \<open>
  C18.  A node that is prepared for a question has a proxy server behind it, whatever the registry says:
  it is neither direct nor one of the outbounds without a server.  Its name is the one returned, and
  the function returned dials the reserved name, never an address, through this node and no other.
\<close>

theorem prepared_node_serves:
  assumes "prepareTunnelDNS n E W t queryDomain cacheOwner now now' reg st = Return (((name, Inr a), reg1), st')"
    and "dial_tunnelDNS (t_heap t) a cacheOwner now2 now2' reg2 = (Inr (node, m), reg3)"
  shows "px_Type (t_heap t a) \<noteq> Direct_at \<and> CanServeTunnelDNS (px_Type (t_heap t a)) \<and> name = px_Name (t_heap t a) \<and>
    node = a \<and> Host m = TunnelDNSHost \<and> \<not> IsValid (DstIP m) \<and> DstPort m = 53"
  using prepare_node[OF assms(1)] dial_target[OF assms(2)] by simp

theorem prepared_node_serves_witness:
  "\<exists>name a reg1 st' node m reg3.
     prepareTunnelDNS (Suc 0) bare_env example_world global_tunnel ''example.com'' False 0 0 NewRegistry bare_state =
       Return (((name, Inr a), reg1), st') \<and>
     dial_tunnelDNS (t_heap global_tunnel) a False 0 0 reg1 = (Inr (node, m), reg3) \<and> Host m = TunnelDNSHost"
  using prepared_node_serves[OF global_prepare global_dial] global_prepare global_dial by blast

text \<open>
  C19.  The registry answers by the history of its calls: with a clock that does not run backwards, a
  named node is refused exactly when the last thing learned about it since the last reset is that it
  did not answer, less than five minutes ago.  Questions in between, which may expire verdicts, make
  no difference, and no other node has any influence.
\<close>

theorem registry_follows_history:
  assumes "ticking t ops" "last_tick t ops \<le> now" "now \<le> later" "node \<noteq> ''''"
  shows "fst (Supported node now later (reg_run ops (NewRegistryFor kind))) \<longleftrightarrow>
    (case verdict node ops of None \<Rightarrow> True | Some s \<Rightarrow> s + UnsupportedTTL \<le> now)"
proof -
  have "reg_agrees t (\<lambda>_. None) (NewRegistryFor kind)" by (simp add: reg_agrees_def NewRegistryFor_def)
  from reg_agrees_answer[OF reg_agrees_run[OF this assms(1)] assms(2-4)] show ?thesis by (simp only: verdict_def)
qed

theorem registry_follows_history_witness:
  "\<not> fst (Supported ''node'' 10 10 (reg_run [((OpUnsupported ''node'', 1), 1), ((OpAsk ''node'', 2), 3)] (NewRegistryFor ''k'')))"
  using registry_follows_history[of 0 "[((OpUnsupported ''node'', 1), 1), ((OpAsk ''node'', 2), 3)]" 10 10 "''node''" "''k''"]
  by (simp add: verdict_def UnsupportedTTL_def)

end
