(* ===== verification/Spec2Isabelle.thy ===== *)
theory Spec2Isabelle
  imports Deque_Proofs Lru_Proofs Ranges_Proofs Wildcard Bans TunnelDNS_Proofs
begin

text \<open>
  A verification library for the routing core of the proxy: from the text of a rule to the decision
  which outbound a connection takes, with the data structures this path uses.  Source paths are
  relative to \<open>src/\<close>.

  \<^bold>\<open>The program.\<close>  A listener accepts a connection and describes it by metadata
  (\<open>constant/metadata.go\<close>).  The tunnel (\<open>tunnel/tunnel.go\<close>) prepares the metadata, matches the
  rules of the configuration in order, and gets a proxy.  A rule (\<open>rules/common\<close>) looks at one
  property of the metadata; logic rules and sub-rules (\<open>rules/logic\<close>), rule sets
  (\<open>rules/provider\<close>) and wrappers with counters (\<open>rules/wrapper\<close>) contain other rules.  While a
  rule matches it may call back into the tunnel to resolve the host or to find the process.  Rules are
  parsed by \<open>rules/parser.go\<close>, sub-rules are verified by \<open>config/config.go\<close>.  Rejected connections
  are counted and parked by \<open>tunnel/reject_ban.go\<close> and \<open>tunnel/reject.go\<close>.  The preview
  (\<open>tunnel/diagnostics.go\<close>) and the choice of a DNS node (\<open>tunnel/tunnel_dns_dialer.go\<close>) use the
  same decision.

  \<^bold>\<open>Conventions.\<close>  A function that can panic or not return gives an \<open>outcome\<close>; one with an error
  gives a \<open>result\<close>, whose left side is the message.  A method that changes its receiver returns the
  changed record.  Words keep their width.  Functions of the standard library that the code calls are
  written out (\<open>GoStrings\<close>, \<open>Netip\<close>); what lies outside the repository (regular expressions,
  databases, resolver, hosts, process lookup, the linked list under the LRU cache) is a parameter: a
  field of \<open>env\<close> or \<open>world\<close>, or a record of operations with laws.  Every mutex is taken to make its
  critical section one atomic step; what a method does after unlocking, as the parker does with the
  releases it has evicted, is steps of its own.  The process lookup is given the tunnel's matcher as an
  argument and returns an outcome, so that a panic or an endless loop of the matcher can be its own.

  \<^bold>\<open>Theories.\<close>
  \<^item> \<open>Prelude\<close>: outcomes, slices with their bounds checks, locales for simulations and invariants.
  \<^item> \<open>Deque\<close>, \<open>Deque_Proofs\<close>: the ring-buffer deque of \<open>common/deque/deque.go\<close>.  Every
    operation is a list operation (a simulation lifted to call sequences), iterators visit the elements
    in order, and \<open>CopyInSlice\<close> with a slice that fills the buffer leaves a deque whose next
    \<open>PushBack\<close> after a \<open>PopFront\<close> panics.
  \<^item> \<open>Lru\<close>, \<open>Lru_Proofs\<close>: the cache of \<open>common/lru/lrucache.go\<close> over a store of entries.  Call
    sequences refine an abstract recency-ordered cache; it is bounded, and snapshots restore it.
  \<^item> \<open>GoStrings\<close>, \<open>Ranges\<close>, \<open>Ranges_Proofs\<close>: strings, and the number ranges of
    \<open>common/utils\<close>: merging, printing and parsing with the truncation of bounds, enumeration
    with its wrap-around.
  \<^item> \<open>Wildcard\<close>: the matcher of \<open>component/wildcard\<close> against the meaning of a pattern.
  \<^item> \<open>Netip\<close>, \<open>Metadata\<close>, \<open>Metadata_Proofs\<close>: addresses, metadata, their texts.
  \<^item> \<open>Rules_Common\<close>, \<open>Rules_Match\<close>, \<open>Rules_Parse\<close>: all rules, their matching and parsing, and the
    verification of sub-rules.  \<open>Parse_Proofs\<close>: parsing returns well-formed rules.
    \<open>Match_Proofs\<close>: the verification is sound and complete, and matching returns on what it accepts.
    \<open>Frame_Proofs\<close>: what matching may change, once for all relations of the locale
    \<open>match_relation\<close>, interpreted for the connection and for the counters.
  \<^item> \<open>Reject\<close>, \<open>Reject_Proofs\<close>: bans with their sliding window, and the parker with its goroutine
    and its callers as a transition system: the ring buffer is a sliding window, and every parked
    connection is released exactly once.  \<open>Bans\<close>: the cache of bans on the model of the LRU cache, through the locale
    \<open>ban_store\<close>: every ban is earned, and a ban lasts until its deadline.
  \<^item> \<open>Tunnel\<close>, \<open>Tunnel_Proofs\<close>: the decision.  It returns, it changes only what it is meant to
    change, it keeps fake addresses local; retries are bounded.
  \<^item> \<open>TunnelDNS\<close>, \<open>TunnelDNS_Proofs\<close>: preview, DNS node and capability registry.

  \<^bold>\<open>Fuel and bounds.\<close>  \<open>Match\<close> and what calls it spend one unit of fuel for each list of sub-rules
  and each rule set entered; \<open>accepted_rules_match\<close> and \<open>routing_returns\<close> show that the number of
  sub-rules plus the rank of the rule sets (and the number of rematch names) is enough, so a result
  \<open>Diverges\<close> means endless recursion in the program.  What the program accepts
  (\<open>accepted_tunnel\<close>) is kept apart from what it does not check but relies on to return
  (\<open>acyclic_tunnel\<close>: rule sets and groups that do not contain themselves), and
  \<open>circular_rule_set_never_returns\<close> shows that the second is needed.  \<open>parse_rule\<close> uses the length of the text as
  fuel, which \<open>parsed_rules_well_formed\<close> shows to be enough.  Loops over groups and over the graph of
  sub-rules are partial functions into options.  The capacities of the deque are machine integers, so
  that doubling them wraps around; a doubling loop that would not end diverges, and the theorems on
  call sequences say which sizes (up to \<open>maxCap\<close>) avoid this.  Memory is taken to be unlimited below
  that.

  \<^bold>\<open>Simplifications.\<close>  Strings are byte strings, and changing case, trimming space and comparing
  without case are those of ASCII.  The times and ages of the LRU cache are unbounded integers, where
  the code adds 64-bit counts of seconds.  A regular expression either matches or does not; the engine's
  timeouts count as no match, as in the code.  The member that a group selects is a function of the
  metadata, so a group does not change its choice while one decision is made.

  \<^bold>\<open>Not modelled.\<close>  Listeners, outbounds, transports, sniffers, DNS servers and clients, dialing, the
  REST interface and the decoding of the configuration file exchange data with the network and the
  operating system through third-party packages; the model meets them only as parameters of the
  decision.  Groups are known by the member they select, and the compressed sets behind domain and
  address rule sets by their membership functions.  Logging, locks as such, and the memory model of
  the language are left out.  The handlers of the tunnel that relay connections are input and output
  around the decision.
\<close>

end
